(* ===== verification/Prelude.thy ===== *)
theory Prelude
  imports Main "HOL-Library.AList"
begin

text \<open>
  Shared vocabulary of the development: how a Go computation ends (a value or a run-time
  panic), Go error values, Go maps as association lists with distinct keys, and the generic
  lemmas the component theories use.
\<close>

section \<open>Outcomes of Go code\<close>

named_theorems go_outcome \<open>unfolding of sequencing and of outcomes\<close>

text \<open>The run-time panics the modelled code can raise.\<close>

datatype go_panic =
    IndexOutOfRange
  | NilDereference
  | NilMapWrite
  | NonPositiveTicker
  | TypeAssertion
  | ExplicitPanic string

text \<open>A Go computation returns a value or panics.\<close>

datatype 'a go = Ret 'a | Panic go_panic

definition go_bind :: "'a go \<Rightarrow> ('a \<Rightarrow> 'b go) \<Rightarrow> 'b go" where
  "go_bind m f = (case m of Ret x \<Rightarrow> f x | Panic p \<Rightarrow> Panic p)"

lemma go_bind_simps [simp, go_outcome]:
  "go_bind (Ret x) f = f x"
  "go_bind (Panic p) f = Panic p"
  by (simp_all add: go_bind_def)

lemma go_bind_Ret_iff: "go_bind m f = Ret y \<longleftrightarrow> (\<exists>x. m = Ret x \<and> f x = Ret y)"
  by (cases m) simp_all

lemma go_bind_Panic_iff:
  "go_bind m f = Panic p \<longleftrightarrow> m = Panic p \<or> (\<exists>x. m = Ret x \<and> f x = Panic p)"
  by (cases m) simp_all

text \<open>
  Error values: the format string of \<open>fmt.Errorf\<close> or \<open>errors.New\<close> with its arguments, an error
  value made by a library, or a \<open>multierror.Error\<close> that collects several.
\<close>

datatype go_error =
    Errorf string "string list"
  | LibError string
  | MultiError "go_error list"

section \<open>Go maps\<close>

text \<open>
  A Go map is an association list with distinct keys, written with \<^const>\<open>AList.update\<close>. The order
  of the list stands for the iteration order, which Go leaves open.
\<close>

type_synonym ('k, 'v) gomap = "('k \<times> 'v) list"

definition gomap_ok :: "('k, 'v) gomap \<Rightarrow> bool" where
  "gomap_ok m \<longleftrightarrow> distinct (map fst m)"

definition gomap_put :: "'k \<Rightarrow> 'v \<Rightarrow> ('k, 'v) gomap \<Rightarrow> ('k, 'v) gomap" where
  "gomap_put = AList.update"

definition gomap_get :: "('k, 'v) gomap \<Rightarrow> 'k \<Rightarrow> 'v option" where
  "gomap_get = map_of"

lemma gomap_ok_Nil [simp]: "gomap_ok []"
  by (simp add: gomap_ok_def)

lemma gomap_ok_put [simp]: "gomap_ok m \<Longrightarrow> gomap_ok (gomap_put k v m)"
  by (simp add: gomap_ok_def gomap_put_def distinct_update)

lemma gomap_get_Nil [simp]: "gomap_get [] k = None"
  by (simp add: gomap_get_def)

lemma gomap_get_put [simp]:
  "gomap_get (gomap_put k v m) k' = (if k' = k then Some v else gomap_get m k')"
  by (simp add: gomap_get_def gomap_put_def update_conv')

lemma gomap_put_keys: "fst ` set (gomap_put k v m) = insert k (fst ` set m)"
  by (simp add: gomap_put_def dom_update)

lemma gomap_put_not_Nil [simp]: "gomap_put k v m \<noteq> []"
  by (simp add: gomap_put_def)

lemma gomap_get_None_iff: "gomap_get m k = None \<longleftrightarrow> k \<notin> fst ` set m"
  by (simp add: gomap_get_def map_of_eq_None_iff)

section \<open>Lists\<close>

text \<open>First occurrences of a list, in order: the specification of the de-duplicating loops.\<close>

fun remdups_first :: "'a list \<Rightarrow> 'a list" where
  "remdups_first [] = []"
| "remdups_first (x # xs) = x # filter (\<lambda>y. y \<noteq> x) (remdups_first xs)"

lemma set_remdups_first [simp]: "set (remdups_first xs) = set xs"
  by (induction xs) auto

lemma distinct_remdups_first [simp]: "distinct (remdups_first xs)"
  by (induction xs) (simp_all add: distinct_filter)

lemma remdups_first_filter: "remdups_first (filter P xs) = filter P (remdups_first xs)"
  by (induction xs) (auto simp: filter_filter intro!: filter_cong)

lemma remdups_first_append:
  "remdups_first (xs @ ys) = remdups_first xs @ filter (\<lambda>y. y \<notin> set xs) (remdups_first ys)"
  by (induction xs) (auto intro!: filter_cong)

lemma take_eq_snoc:
  assumes "take k xs = ys @ [x]" and "k \<le> length xs"
  shows "0 < k" "ys = take (k - 1) xs" "xs ! (k - 1) = x"
proof -
  obtain j where j: "k = Suc j"
    using assms(1) by (cases k) simp_all
  then have "take k xs = take j xs @ [xs ! j]"
    using assms(2) by (simp add: take_Suc_conv_app_nth)
  with assms(1) j show "0 < k" "ys = take (k - 1) xs" "xs ! (k - 1) = x"
    by simp_all
qed

end
