(* ===== verification/GoStrings.thy ===== *)
theory GoStrings
  imports Prelude "HOL-Library.Word"
begin

text \<open>
  The parts of Go's standard library packages \<open>strings\<close>, \<open>strconv\<close>, \<open>encoding/hex\<close> and \<open>os\<close> that
  the program uses, on byte strings. Case mapping is the one of ASCII: names are ASCII here, as
  the DNS presentation format escapes every other byte.
\<close>

named_theorems go_str \<open>facts about the Go string functions\<close>

type_synonym byte = "8 word"

section \<open>Package strings\<close>

definition has_prefix :: "string \<Rightarrow> string \<Rightarrow> bool" where
  "has_prefix s p \<longleftrightarrow> length p \<le> length s \<and> take (length p) s = p"

definition has_suffix :: "string \<Rightarrow> string \<Rightarrow> bool" where
  "has_suffix s suf \<longleftrightarrow> length suf \<le> length s \<and> drop (length s - length suf) s = suf"

text \<open>The slice \<open>s[:len(s)-n]\<close>, for \<open>n \<le> len(s)\<close>.\<close>

definition chop :: "nat \<Rightarrow> string \<Rightarrow> string" where
  "chop n s = take (length s - n) s"

definition trim_suffix :: "string \<Rightarrow> string \<Rightarrow> string" where
  "trim_suffix s suf = (if has_suffix s suf then chop (length suf) s else s)"

definition count_char :: "char \<Rightarrow> string \<Rightarrow> nat" where
  "count_char c s = length (filter (\<lambda>x. x = c) s)"

text \<open>\<open>strings.Index\<close> and \<open>strings.LastIndex\<close> of a one-byte string; \<open>None\<close> is Go's \<open>-1\<close>.\<close>

fun index_of :: "char \<Rightarrow> string \<Rightarrow> nat option" where
  "index_of c [] = None"
| "index_of c (x # xs) = (if x = c then Some 0 else map_option Suc (index_of c xs))"

fun last_index :: "char \<Rightarrow> string \<Rightarrow> nat option" where
  "last_index c [] = None"
| "last_index c (x # xs) =
     (case last_index c xs of
        Some i \<Rightarrow> Some (Suc i)
      | None \<Rightarrow> if x = c then Some 0 else None)"

text \<open>\<open>strings.Split\<close> with a one-byte separator.\<close>

fun split_on :: "char \<Rightarrow> string \<Rightarrow> string list" where
  "split_on c [] = [[]]"
| "split_on c (x # xs) =
     (if x = c then [] # split_on c xs
      else (case split_on c xs of [] \<Rightarrow> [[x]] | y # ys \<Rightarrow> (x # y) # ys))"

fun join_with :: "char \<Rightarrow> string list \<Rightarrow> string" where
  "join_with c [] = []"
| "join_with c [x] = x"
| "join_with c (x # y # ys) = x @ c # join_with c (y # ys)"

definition lower_char :: "char \<Rightarrow> char" where
  "lower_char c = (let n = of_char c :: nat in if 65 \<le> n \<and> n \<le> 90 then char_of (n + 32) else c)"

definition to_lower :: "string \<Rightarrow> string" where
  "to_lower s = map lower_char s"

text \<open>Evaluation of \<^const>\<open>char_of\<close> on numerals.\<close>

lemmas char_eval = char_of_def bit_0

subsection \<open>Lemmas\<close>

lemma has_suffix_iff: "has_suffix s suf \<longleftrightarrow> (\<exists>p. s = p @ suf)"
proof
  assume "has_suffix s suf"
  then have "s = take (length s - length suf) s @ suf"
    by (metis append_take_drop_id has_suffix_def)
  then show "\<exists>p. s = p @ suf" ..
qed (auto simp: has_suffix_def)

lemma has_suffix_append [simp, go_str]: "has_suffix (p @ suf) suf"
  by (auto simp: has_suffix_iff)

lemma has_suffix_refl [simp, go_str]: "has_suffix s s"
  by (simp add: has_suffix_def)

lemma has_suffix_append2 [simp, go_str]: "has_suffix (p @ q @ suf) suf"
  using has_suffix_append[of "p @ q" suf] by simp

lemma has_suffix_Nil [simp, go_str]: "has_suffix s []"
  by (simp add: has_suffix_iff)

lemma has_suffix_of_Nil [simp]: "has_suffix [] suf \<longleftrightarrow> suf = []"
  by (simp add: has_suffix_iff)

lemma has_suffix_singleton: "has_suffix s [c] \<longleftrightarrow> s \<noteq> [] \<and> last s = c"
  by (metis append_butlast_last_id has_suffix_iff last_snoc snoc_eq_iff_butlast)

lemma chop_append [simp, go_str]: "n = length suf \<Longrightarrow> chop n (p @ suf) = p"
  by (simp add: chop_def)

lemma chop_append2 [simp, go_str]: "n = length suf \<Longrightarrow> chop n (p @ q @ suf) = p @ q"
  using chop_append[of n suf "p @ q"] by simp

lemma chop_has_suffix: "has_suffix s suf \<Longrightarrow> chop (length suf) s @ suf = s"
  by (auto simp: has_suffix_iff)

lemma trim_suffix_append [simp, go_str]: "trim_suffix (p @ suf) suf = p"
  by (simp add: trim_suffix_def)

lemma has_prefix_iff: "has_prefix s p \<longleftrightarrow> (\<exists>t. s = p @ t)"
  by (metis append_eq_conv_conj append_take_drop_id has_prefix_def le_add1 length_append)

lemma last_index_None_iff: "last_index c s = None \<longleftrightarrow> c \<notin> set s"
  by (induction s) (auto split: option.splits)

lemma last_index_append: "c \<notin> set t \<Longrightarrow> last_index c (s @ c # t) = Some (length s)"
  by (induction s) (simp_all add: last_index_None_iff[THEN iffD2])

lemma last_index_Some:
  "last_index c s = Some i \<Longrightarrow> i < length s \<and> s = take i s @ c # drop (Suc i) s \<and> c \<notin> set (drop (Suc i) s)"
proof (induction s arbitrary: i)
  case (Cons x xs)
  show ?case
  proof (cases "last_index c xs")
    case None
    with Cons.prems show ?thesis
      by (auto simp: last_index_None_iff split: if_splits)
  next
    case (Some j)
    with Cons.prems Cons.IH[OF Some] show ?thesis by auto
  qed
qed simp

lemma index_of_append: "c \<notin> set s \<Longrightarrow> index_of c (s @ c # t) = Some (length s)"
  by (induction s) auto

lemma split_on_not_Nil [simp]: "split_on c s \<noteq> []"
  by (induction s) (auto split: list.splits)

lemma split_on_no_sep: "c \<notin> set s \<Longrightarrow> split_on c s = [s]"
  by (induction s) auto

lemma split_on_append: "c \<notin> set s \<Longrightarrow> split_on c (s @ c # t) = s # split_on c t"
  by (induction s) (auto split: list.splits)

lemma join_split: "join_with c (split_on c s) = s"
proof (induction s)
  case (Cons x xs)
  then show ?case
    by (cases "split_on c xs"; cases "tl (split_on c xs)") auto
qed simp

lemma split_on_sep_free: "w \<in> set (split_on c s) \<Longrightarrow> c \<notin> set w"
proof (induction s arbitrary: w)
  case (Cons x xs)
  then show ?case
    by (cases "split_on c xs") (auto split: if_splits)
qed simp

lemma split_join:
  "ws \<noteq> [] \<Longrightarrow> (\<forall>w \<in> set ws. c \<notin> set w) \<Longrightarrow> split_on c (join_with c ws) = ws"
  by (induction c ws rule: join_with.induct) (simp_all add: split_on_no_sep split_on_append)

lemma join_with_Cons: "join_with c (w # ws) = w @ (if ws = [] then [] else c # join_with c ws)"
  by (cases ws) simp_all

lemma join_with_snoc: "ws \<noteq> [] \<Longrightarrow> join_with c (ws @ [w]) = join_with c ws @ c # w"
  by (induction c ws rule: join_with.induct) simp_all

lemma length_to_lower [simp]: "length (to_lower s) = length s"
  by (simp add: to_lower_def)

lemma to_lower_append [simp, go_str]: "to_lower (s @ t) = to_lower s @ to_lower t"
  by (simp add: to_lower_def)

lemma to_lower_Nil [simp]: "to_lower [] = []"
  by (simp add: to_lower_def)

lemma lower_char_dot [simp]: "lower_char CHR ''.'' = CHR ''.''"
  by (simp add: lower_char_def)

lemma to_lower_dot [simp, go_str]: "to_lower ''.'' = ''.''"
  by (simp add: to_lower_def)

lemma to_lower_Cons [simp]: "to_lower (c # s) = lower_char c # to_lower s"
  by (simp add: to_lower_def)

lemma lower_char_idem [simp]: "lower_char (lower_char c) = lower_char c"
proof -
  have "(of_char c :: nat) + 32 < 256" if "(of_char c :: nat) \<le> 90"
    using that by simp
  then show ?thesis
    by (auto simp: lower_char_def Let_def of_char_of)
qed

lemma to_lower_idem [simp, go_str]: "to_lower (to_lower s) = to_lower s"
  by (simp add: to_lower_def)

section \<open>Package encoding/hex\<close>

definition hex_digit :: "nat \<Rightarrow> char" where
  "hex_digit n = (if n < 10 then char_of (48 + n) else char_of (87 + n))"

definition hex_val :: "char \<Rightarrow> nat option" where
  "hex_val c = (let n = of_char c :: nat in
     if 48 \<le> n \<and> n \<le> 57 then Some (n - 48)
     else if 97 \<le> n \<and> n \<le> 102 then Some (n - 87)
     else if 65 \<le> n \<and> n \<le> 70 then Some (n - 55)
     else None)"

definition hex_encode :: "byte list \<Rightarrow> string" where
  "hex_encode bs = concat (map (\<lambda>b. [hex_digit (unat b div 16), hex_digit (unat b mod 16)]) bs)"

text \<open>\<open>hex.DecodeString\<close>; \<open>None\<close> is its error (an odd length or a byte that is no digit).\<close>

fun hex_decode :: "string \<Rightarrow> byte list option" where
  "hex_decode [] = Some []"
| "hex_decode [x] = None"
| "hex_decode (x # y # r) =
     (case hex_val x of None \<Rightarrow> None | Some a \<Rightarrow>
      (case hex_val y of None \<Rightarrow> None | Some b \<Rightarrow>
       (case hex_decode r of None \<Rightarrow> None | Some bs \<Rightarrow> Some (word_of_nat (16 * a + b) # bs))))"

lemma below_16: "(n::nat) < 16 \<Longrightarrow> n \<in> {0,1,2,3,4,5,6,7,8,9,10,11,12,13,14,15}"
  by (auto simp: numeral_eq_Suc less_Suc_eq)

lemma hex_val_digit [simp]: "n < 16 \<Longrightarrow> hex_val (hex_digit n) = Some n"
  by (drule below_16) (auto simp: hex_digit_def hex_val_def of_char_of)

lemma hex_digit_neq [simp]:
  assumes "n < 16"
  shows "hex_digit n \<noteq> CHR ''.''" "hex_digit n \<noteq> CHR ''_''"
    "CHR ''.'' \<noteq> hex_digit n" "CHR ''_'' \<noteq> hex_digit n"
proof -
  have "hex_val CHR ''.'' = None" "hex_val CHR ''_'' = None"
    by (simp_all add: hex_val_def)
  with hex_val_digit[OF assms]
  show "hex_digit n \<noteq> CHR ''.''" "hex_digit n \<noteq> CHR ''_''"
    "CHR ''.'' \<noteq> hex_digit n" "CHR ''_'' \<noteq> hex_digit n"
    by (metis option.distinct(1))+
qed

lemma hex_encode_Nil [simp]: "hex_encode [] = []"
  by (simp add: hex_encode_def)

lemma hex_encode_Cons:
  "hex_encode (b # bs) = hex_digit (unat b div 16) # hex_digit (unat b mod 16) # hex_encode bs"
  by (simp add: hex_encode_def)

lemma unat_byte_bound: "unat (b :: byte) < 256"
  using unsigned_less[of b] by simp

lemma unat_byte_div: "unat (b :: byte) div 16 < 16"
  using unat_byte_bound[of b] by (simp add: less_mult_imp_div_less)

lemma hex_decode_encode [simp, go_str]: "hex_decode (hex_encode bs) = Some bs"
  by (induction bs) (simp_all add: hex_encode_Cons unat_byte_div)

lemma hex_encode_chars [simp]:
  "CHR ''.'' \<notin> set (hex_encode bs)" "CHR ''_'' \<notin> set (hex_encode bs)"
  by (induction bs) (simp_all add: hex_encode_Cons unat_byte_div)

lemma hex_encode_digits: "c \<in> set (hex_encode bs) \<Longrightarrow> hex_val c \<noteq> None"
  by (induction bs) (auto simp: hex_encode_Cons unat_byte_div)

lemma hex_encode_eq_Nil_iff [simp]: "hex_encode bs = [] \<longleftrightarrow> bs = []"
  by (cases bs) (simp_all add: hex_encode_Cons)

lemma length_hex_encode: "length (hex_encode bs) = 2 * length bs"
  by (induction bs) (simp_all add: hex_encode_Cons)

section \<open>Package strconv\<close>

definition digit_val :: "char \<Rightarrow> nat option" where
  "digit_val c = (let n = of_char c :: nat in if 48 \<le> n \<and> n \<le> 57 then Some (n - 48) else None)"

fun nat_of_digits :: "nat \<Rightarrow> string \<Rightarrow> nat option" where
  "nat_of_digits acc [] = Some acc"
| "nat_of_digits acc (c # s) =
     (case digit_val c of None \<Rightarrow> None | Some d \<Rightarrow> nat_of_digits (10 * acc + d) s)"

definition int64_range :: "int \<Rightarrow> bool" where
  "int64_range v \<longleftrightarrow> - (2 ^ 63) \<le> v \<and> v < 2 ^ 63"

definition atoi :: "string \<Rightarrow> go_error + int" where
  "atoi s =
     (let neg = (s \<noteq> [] \<and> hd s = CHR ''-'');
          ds = (if s \<noteq> [] \<and> (hd s = CHR ''-'' \<or> hd s = CHR ''+'') then tl s else s)
      in case ds of
           [] \<Rightarrow> Inl (LibError ''strconv.Atoi'')
         | _ \<Rightarrow> (case nat_of_digits 0 ds of
                    None \<Rightarrow> Inl (LibError ''strconv.Atoi'')
                  | Some n \<Rightarrow>
                      (let v = (if neg then - int n else int n)
                       in if int64_range v then Inr v else Inl (LibError ''strconv.Atoi''))))"

definition parse_bool :: "string \<Rightarrow> go_error + bool" where
  "parse_bool s =
     (if s \<in> {''1'', ''t'', ''T'', ''TRUE'', ''true'', ''True''} then Inr True
      else if s \<in> {''0'', ''f'', ''F'', ''FALSE'', ''false'', ''False''} then Inr False
      else Inl (LibError ''strconv.ParseBool''))"

text \<open>Decimal rendering, \<open>strconv.Itoa\<close> and the verb \<open>%d\<close>.\<close>

fun nat_str :: "nat \<Rightarrow> string" where
  "nat_str n = (if n < 10 then [char_of (48 + n)] else nat_str (n div 10) @ [char_of (48 + n mod 10)])"

declare nat_str.simps [simp del]

definition int_str :: "int \<Rightarrow> string" where
  "int_str i = (if i < 0 then CHR ''-'' # nat_str (nat (- i)) else nat_str (nat i))"

lemma nat_of_digits_append:
  "nat_of_digits a (s @ t) = (case nat_of_digits a s of None \<Rightarrow> None | Some b \<Rightarrow> nat_of_digits b t)"
  by (induction s arbitrary: a) (auto split: option.splits)

lemma digit_val_digit [simp]: "n < 10 \<Longrightarrow> digit_val (char_of (48 + n)) = Some n"
  by (simp add: digit_val_def of_char_of)

lemma nat_of_digits_nat_str [simp]: "nat_of_digits 0 (nat_str n) = Some n"
proof (induction n rule: nat_str.induct)
  case (1 n)
  show ?case
  proof (cases "n < 10")
    case True
    then show ?thesis by (simp add: nat_str.simps[of n])
  next
    case False
    with 1 show ?thesis by (simp add: nat_str.simps[of n] nat_of_digits_append)
  qed
qed

end
