(* ===== verification/Names.thy ===== *)
theory Names
  imports GoStrings
begin

text \<open>
  Package \<open>pkg/utils\<close>: splitting a query name into service and namespace
  (\<open>src/pkg/utils/util.go\<close>) and parsing route labels (\<open>ParseLabels\<close> of \<open>src/pkg/utils/base.go\<close>), the file test of \<open>base.go\<close>,
  whose outcome the readers of files take as an argument,
  with the string constants of \<open>src/pkg/constants/common.go\<close>.
\<close>

section \<open>Constants and data\<close>

abbreviation DotSymbol :: string where "DotSymbol \<equiv> ''.''"
abbreviation CommaSymbol :: string where "CommaSymbol \<equiv> '',''"
abbreviation ColonSymbol :: string where "ColonSymbol \<equiv> '':''"
abbreviation TcpProtocol :: string where "TcpProtocol \<equiv> ''tcp''"
abbreviation UdpProtocol :: string where "UdpProtocol \<equiv> ''udp''"
abbreviation SysNamespace :: string where "SysNamespace \<equiv> ''polaris''"

text \<open>\<open>model.ServiceKey\<close> of the Polaris SDK: the two fields the program reads and writes.\<close>

record service_key =
  key_namespace :: string
  key_service :: string

section \<open>Files and JSON text\<close>

text \<open>\<open>IsFile\<close>; \<open>os.Stat\<close> is an argument, an error or whether the path is a directory.\<close>

definition utils_is_file :: "(string \<Rightarrow> go_error + bool) \<Rightarrow> string \<Rightarrow> bool" where
  "utils_is_file stat path =
     (if length path = 0 then False
      else (case stat path of
              Inl err \<Rightarrow> False
            | Inr is_dir \<Rightarrow> \<not> is_dir))"

text \<open>\<open>JsonString\<close>, of the outcome of \<open>json.Marshal\<close>.\<close>

definition json_string_of :: "go_error + string \<Rightarrow> string" where
  "json_string_of marshalled = (case marshalled of Inl err \<Rightarrow> [] | Inr b \<Rightarrow> b)"

section \<open>Query names\<close>

definition add_quota :: "string \<Rightarrow> string" where
  "add_quota qname = (if \<not> has_suffix qname DotSymbol then qname @ DotSymbol else qname)"

definition remove_quota :: "string \<Rightarrow> string" where
  "remove_quota qname = (if has_suffix qname DotSymbol then chop 1 qname else qname)"

definition match_suffix :: "string \<Rightarrow> string \<Rightarrow> string \<times> bool" where
  "match_suffix qname suffix =
     (if length suffix = 0 then (qname, True)
      else let q = add_quota qname; sf = add_quota suffix in
        if \<not> has_suffix q sf then (q, False)
        else (chop (length sf) q, True))"

text \<open>
  \<open>ParseQname\<close>. The SDK's constant \<open>config.ServerNamespace\<close>, which replaces the namespace
  \<open>polaris\<close>, is the first argument.
\<close>

definition parse_qname :: "string \<Rightarrow> string \<Rightarrow> string \<Rightarrow> string \<Rightarrow> service_key option" where
  "parse_qname server_ns qname suffix current_ns =
     (case match_suffix qname suffix of
        (_, False) \<Rightarrow> None
      | (q, True) \<Rightarrow>
          let q = remove_quota q in
          (case last_index CHR ''.'' q of
             None \<Rightarrow> Some \<lparr>key_namespace = current_ns, key_service = q\<rparr>
           | Some sep \<Rightarrow>
               let ns = drop (sep + 1) q;
                   ns = (if to_lower ns = SysNamespace then server_ns else ns)
               in Some \<lparr>key_namespace = ns, key_service = take sep q\<rparr>))"

subsection \<open>Lemmas on the trailing dot\<close>

lemma add_quota_append [simp, go_str]: "s \<noteq> [] \<Longrightarrow> add_quota (p @ s) = p @ add_quota s"
  by (simp add: add_quota_def has_suffix_singleton)

lemma add_quota_ends [simp, go_str]: "has_suffix (add_quota s) ''.''"
  by (simp add: add_quota_def)

lemma add_quota_not_Nil [simp]: "add_quota s \<noteq> []"
  by (auto simp: add_quota_def)

lemma add_quota_idem [simp, go_str]: "add_quota (add_quota s) = add_quota s"
  by (simp add: add_quota_def)

lemma add_quota_dot [simp, go_str]: "add_quota (s @ ''.'') = s @ ''.''"
  by (simp add: add_quota_def)

lemma remove_quota_dot [simp, go_str]: "remove_quota (s @ ''.'') = s"
  by (simp add: remove_quota_def)

lemma remove_quota_no_dot: "\<not> has_suffix s ''.'' \<Longrightarrow> remove_quota s = s"
  by (simp add: remove_quota_def)

lemma remove_add_quota: "\<not> has_suffix s ''.'' \<Longrightarrow> remove_quota (add_quota s) = s"
  by (simp add: add_quota_def)

lemma not_dot_ended: "CHR ''.'' \<notin> set n \<Longrightarrow> n \<noteq> [] \<Longrightarrow> \<not> has_suffix (s @ n) ''.''"
  by (auto simp: has_suffix_singleton dest: last_in_set)

lemma match_suffix_append [simp, go_str]: "sfx \<noteq> [] \<Longrightarrow> match_suffix (p @ sfx) sfx = (p, True)"
  by (simp add: match_suffix_def)

lemma match_suffix_Nil [simp, go_str]: "match_suffix q [] = (q, True)"
  by (simp add: match_suffix_def)

lemma match_suffix_add_quota:
  "sfx \<noteq> [] \<Longrightarrow> match_suffix (add_quota q) sfx = match_suffix q sfx"
  by (simp add: match_suffix_def)

section \<open>Properties of name parsing\<close>

text \<open>
  C39. A name composed as \<open><service>.<namespace>.<suffix>\<close> is taken apart again: whatever dots
  the service part has, the last label before the suffix is the namespace, and the namespace
  \<open>polaris\<close> (in any case) is mapped to the server namespace of the SDK.
\<close>

theorem parse_qname_composed:
  assumes "sfx \<noteq> []" and "CHR ''.'' \<notin> set ns"
  shows "parse_qname server_ns (svc @ ''.'' @ ns @ ''.'' @ sfx) sfx cur =
    Some \<lparr>key_namespace = (if to_lower ns = SysNamespace then server_ns else ns), key_service = svc\<rparr>"
proof -
  have "match_suffix ((svc @ ''.'' @ ns @ ''.'') @ sfx) sfx = (svc @ ''.'' @ ns @ ''.'', True)"
    using assms(1) by (rule match_suffix_append)
  moreover have "remove_quota (svc @ ''.'' @ ns @ ''.'') = svc @ CHR ''.'' # ns"
    using remove_quota_dot[of "svc @ ''.'' @ ns"] by simp
  ultimately show ?thesis
    using last_index_append[OF assms(2), of svc] by (simp add: parse_qname_def Let_def)
qed

theorem parse_qname_composed_witness:
  "parse_qname ''Polaris'' ''a.checker.polaris.svc.local'' ''svc.local'' ''default'' =
     Some \<lparr>key_namespace = ''Polaris'', key_service = ''a.checker''\<rparr>"
  using parse_qname_composed[of "''svc.local''" "''polaris''" "''Polaris''" "''a.checker''" "''default''"]
  by (simp add: to_lower_def lower_char_def char_eval)

text \<open>
  With the suffix \<open>.\<close> of the default configuration the name is \<open><service>.<namespace>\<close>, with or
  without the trailing dot, and a name of one label is looked up in the current namespace.
\<close>

theorem parse_qname_default_suffix:
  assumes "CHR ''.'' \<notin> set ns" and "ns \<noteq> []"
  shows "parse_qname server_ns (svc @ ''.'' @ ns) ''.'' cur =
      Some \<lparr>key_namespace = (if to_lower ns = SysNamespace then server_ns else ns), key_service = svc\<rparr> \<and>
    parse_qname server_ns (svc @ ''.'' @ ns @ ''.'') ''.'' cur =
      parse_qname server_ns (svc @ ''.'' @ ns) ''.'' cur \<and>
    parse_qname server_ns ns ''.'' cur = Some \<lparr>key_namespace = cur, key_service = ns\<rparr> \<and>
    parse_qname server_ns (ns @ ''.'') ''.'' cur = parse_qname server_ns ns ''.'' cur"
proof -
  have q: "match_suffix (p @ ns) ''.'' = (p @ ns, True)" "remove_quota (p @ ns) = p @ ns" for p
    using not_dot_ended[OF assms, of p]
    by (simp_all add: match_suffix_def add_quota_def remove_quota_no_dot Let_def)
  have q': "match_suffix (p @ ns @ ''.'') ''.'' = match_suffix (p @ ns) ''.''" for p
    using match_suffix_append[of "''.''" "p @ ns"] q(1)[of p] by simp
  have 1: "parse_qname server_ns (svc @ ''.'' @ ns) ''.'' cur =
      Some \<lparr>key_namespace = (if to_lower ns = SysNamespace then server_ns else ns), key_service = svc\<rparr>"
    using q[of "svc @ ''.''"] last_index_append[OF assms(1), of svc]
    by (simp add: parse_qname_def Let_def)
  have 2: "parse_qname server_ns (svc @ ''.'' @ ns @ ''.'') ''.'' cur =
      parse_qname server_ns (svc @ ''.'' @ ns) ''.'' cur"
    using q'[of "svc @ ''.''"] by (simp add: parse_qname_def)
  have 3: "parse_qname server_ns ns ''.'' cur = Some \<lparr>key_namespace = cur, key_service = ns\<rparr>"
    using q[of "[]"] assms(1) by (simp add: parse_qname_def Let_def last_index_None_iff[THEN iffD2])
  have 4: "parse_qname server_ns (ns @ ''.'') ''.'' cur = parse_qname server_ns ns ''.'' cur"
    using q'[of "[]"] by (simp add: parse_qname_def)
  from 1 2 3 4 show ?thesis by blast
qed

theorem parse_qname_default_suffix_witness:
  "parse_qname ''Polaris'' ''web.prod.'' ''.'' ''default'' =
     Some \<lparr>key_namespace = ''prod'', key_service = ''web''\<rparr>"
  using parse_qname_default_suffix[of "''prod''" "''Polaris''" "''web''" "''default''"]
  by (simp add: to_lower_def lower_char_def char_eval)

text \<open>
  The suffix is compared as a string, not label by label: any text in front of the suffix, one
  that ends inside a label too, is accepted, and parsing fails exactly when the name with its
  trailing dot does not end with the suffix.
\<close>

theorem match_suffix_is_textual:
  "(sfx \<noteq> [] \<longrightarrow> match_suffix (p @ sfx) sfx = (p, True)) \<and>
   (parse_qname server_ns q sfx cur = None \<longleftrightarrow> sfx \<noteq> [] \<and> \<not> (\<exists>p. add_quota q = p @ add_quota sfx))"
  by (simp add: parse_qname_def match_suffix_def Let_def has_suffix_iff split: option.splits)

theorem match_suffix_is_textual_witness:
  "match_suffix ''foo.mysvc.local.'' ''svc.local.'' = (''foo.my'', True)"
  using match_suffix_is_textual[of "''svc.local.''" "''foo.my''"] by simp

section \<open>Route labels\<close>

text \<open>\<open>ParseLabels\<close>; \<open>None\<close> is Go's nil map.\<close>

definition label_token :: "string \<Rightarrow> (string, string) gomap \<Rightarrow> (string, string) gomap" where
  "label_token token values =
     (if length token = 0 then values
      else let pairs = split_on CHR '':'' token in
        if 1 < length pairs then gomap_put (pairs ! 0) (pairs ! 1) values else values)"

definition parse_labels :: "string \<Rightarrow> (string, string) gomap option" where
  "parse_labels labels =
     (if length labels = 0 then None
      else Some (fold label_token (split_on CHR '','' labels) []))"

lemma label_token_ok: "gomap_ok m \<Longrightarrow> gomap_ok (label_token t m)"
  by (simp add: label_token_def Let_def)

lemma fold_label_token_ok: "gomap_ok m \<Longrightarrow> gomap_ok (fold label_token ts m)"
  by (induction ts arbitrary: m) (simp_all add: label_token_ok)

lemma parse_labels_ok: "parse_labels s = Some m \<Longrightarrow> gomap_ok m"
  by (auto simp: parse_labels_def fold_label_token_ok split: if_splits)

lemma label_token_pair:
  assumes "CHR '':'' \<notin> set k" "CHR '':'' \<notin> set v"
  shows "label_token (k @ CHR '':'' # v) m = gomap_put k v m"
  using split_on_append[OF assms(1), of v] split_on_no_sep[OF assms(2)]
  by (simp add: label_token_def)

definition render_labels :: "(string \<times> string) list \<Rightarrow> string" where
  "render_labels kvs = join_with CHR '','' (map (\<lambda>(k, v). k @ CHR '':'' # v) kvs)"

definition plain_label :: "string \<Rightarrow> bool" where
  "plain_label s \<longleftrightarrow> CHR '','' \<notin> set s \<and> CHR '':'' \<notin> set s"

lemma fold_label_pairs:
  assumes "\<forall>(k, v) \<in> set kvs. plain_label k \<and> plain_label v"
  shows "gomap_get (fold label_token (map (\<lambda>(k, v). k @ CHR '':'' # v) kvs) m) x =
    (case map_of (rev kvs) x of Some v \<Rightarrow> Some v | None \<Rightarrow> gomap_get m x)"
  using assms
proof (induction kvs arbitrary: m)
  case (Cons kv kvs)
  obtain k v where kv: "kv = (k, v)" by (cases kv)
  with Cons.prems have "label_token (k @ CHR '':'' # v) m = gomap_put k v m"
    by (intro label_token_pair) (auto simp: plain_label_def)
  with Cons kv show ?case
    by (auto simp: map_add_def split: option.splits)
qed simp

lemma render_labels_not_Nil: "kvs \<noteq> [] \<Longrightarrow> render_labels kvs \<noteq> []"
  by (cases kvs) (auto simp: render_labels_def join_with_Cons)

text \<open>
  Labels written as \<open>key1:value1,key2:value2\<close> are read back as the map of their pairs, a later
  pair winning over an earlier one with the same key; no label string but the empty one gives
  the nil map, malformed tokens are only skipped.
\<close>

theorem parse_labels_roundtrip:
  assumes "kvs \<noteq> []" and "\<forall>(k, v) \<in> set kvs. plain_label k \<and> plain_label v"
  shows "\<exists>m. parse_labels (render_labels kvs) = Some m \<and> gomap_ok m \<and>
    (\<forall>k. gomap_get m k = map_of (rev kvs) k)"
proof -
  let ?ts = "map (\<lambda>(k, v). k @ CHR '':'' # v) kvs"
  have "split_on CHR '','' (render_labels kvs) = ?ts"
    unfolding render_labels_def
    by (rule split_join) (use assms in \<open>auto simp: plain_label_def\<close>)
  then have "parse_labels (render_labels kvs) = Some (fold label_token ?ts [])"
    using render_labels_not_Nil[OF assms(1)] by (simp add: parse_labels_def)
  then show ?thesis
    using fold_label_pairs[OF assms(2), of "[]"] fold_label_token_ok
    by (auto split: option.splits)
qed

theorem parse_labels_roundtrip_witness:
  "\<exists>m. parse_labels ''env:dev,set:a'' = Some m \<and> gomap_ok m \<and>
    (\<forall>k. gomap_get m k = map_of [(''set'', ''a''), (''env'', ''dev'')] k)"
  using parse_labels_roundtrip[of "[(''env'', ''dev''), (''set'', ''a'')]"]
  by (simp add: render_labels_def plain_label_def)

text \<open>
  The nil map is returned for the empty string and for nothing else; a token without a
  colon leaves the map as it is.
\<close>

theorem parse_labels_nil_iff:
  "(parse_labels labels = None \<longleftrightarrow> labels = []) \<and>
   (CHR '':'' \<notin> set token \<longrightarrow> label_token token m = m)"
  by (simp_all add: parse_labels_def label_token_def split_on_no_sep)

theorem parse_labels_nil_iff_witness: "label_token ''novalue'' [(''a'', ''b'')] = [(''a'', ''b'')]"
  using parse_labels_nil_iff[of _ "''novalue''" "[(''a'', ''b'')]"] by simp

end
