(* ===== verification/GoNet.thy ===== *)
theory GoNet
  imports GoStrings
begin

text \<open>
  Package \<open>net\<close> of Go's standard library, as far as the program uses it: \<open>net.IP\<close> values are byte
  lists (\<open>[]\<close> is the nil address), \<open>net.ParseIP\<close> with its IPv4 and IPv6 grammars, and the
  predicates \<open>IsLoopback\<close> and \<open>IsUnspecified\<close>.
\<close>

type_synonym ip = "byte list"

section \<open>Parsing addresses\<close>

text \<open>
  The dotted-quad scanner: the value and the digit count of the field being read, the previous
  byte (none at the start), the fields read so far.
\<close>

fun ipv4_fields :: "string \<Rightarrow> nat \<Rightarrow> nat \<Rightarrow> char option \<Rightarrow> byte list \<Rightarrow> byte list option" where
  "ipv4_fields [] v d p fs = (if length fs < 3 then None else Some (fs @ [word_of_nat v]))"
| "ipv4_fields (c # s) v d p fs =
     (case digit_val c of
        Some x \<Rightarrow>
          (if d = 1 \<and> v = 0 then None
           else if 255 < 10 * v + x then None
           else ipv4_fields s (10 * v + x) (Suc d) (Some c) fs)
      | None \<Rightarrow>
          (if c = CHR ''.'' then
             (if p = None \<or> s = [] \<or> p = Some CHR ''.'' then None
              else if length fs = 3 then None
              else ipv4_fields s 0 0 (Some c) (fs @ [word_of_nat v]))
           else None))"

definition v4_in_v6 :: "ip \<Rightarrow> ip" where
  "v4_in_v6 fs = replicate 10 0 @ [0xff, 0xff] @ fs"

text \<open>One group of at most four hexadecimal digits: digits read, value, rest.\<close>

fun hex_group :: "nat \<Rightarrow> nat \<Rightarrow> string \<Rightarrow> (nat \<times> nat \<times> string) option" where
  "hex_group off acc [] = Some (off, acc, [])"
| "hex_group off acc (c # s) =
     (case hex_val c of
        None \<Rightarrow> Some (off, acc, c # s)
      | Some x \<Rightarrow>
          (if 3 < off \<or> 65535 < 16 * acc + x then None
           else hex_group (Suc off) (16 * acc + x) s))"

text \<open>The group loop: the rest of the input, the bytes so far, the position of the ellipsis.\<close>

function v6_loop :: "string \<Rightarrow> ip \<Rightarrow> nat option \<Rightarrow> (string \<times> ip \<times> nat option) option" where
  "v6_loop s bs e =
     (if length bs < 16 then
        (case hex_group 0 0 s of
           None \<Rightarrow> None
         | Some (off, acc, r) \<Rightarrow>
             (if off = 0 then None
              else if r \<noteq> [] \<and> hd r = CHR ''.'' then
                (if e = None \<and> length bs \<noteq> 12 then None
                 else if 16 < length bs + 4 then None
                 else (case ipv4_fields s 0 0 None [] of
                         None \<Rightarrow> None
                       | Some fs \<Rightarrow> Some ([], bs @ fs, e)))
              else
                (let bs' = bs @ [word_of_nat (acc div 256), word_of_nat acc] in
                 if r = [] then Some ([], bs', e)
                 else if hd r \<noteq> CHR '':'' then None
                 else if tl r = [] then None
                 else if hd (tl r) = CHR '':'' then
                   (if e \<noteq> None then None
                    else if tl (tl r) = [] then Some ([], bs', Some (length bs'))
                    else v6_loop (tl (tl r)) bs' (Some (length bs')))
                 else v6_loop (tl r) bs' e)))
      else Some (s, bs, e))"
  by pat_completeness auto
termination
  by (relation "measure (\<lambda>(s, bs, e). 16 - length bs)") auto

declare v6_loop.simps [simp del]

definition v6_finish :: "(string \<times> ip \<times> nat option) option \<Rightarrow> ip" where
  "v6_finish res =
     (case res of
        None \<Rightarrow> []
      | Some (s, bs, e) \<Rightarrow>
          (if s \<noteq> [] then []
           else if length bs < 16 then
             (case e of
                None \<Rightarrow> []
              | Some k \<Rightarrow> take k bs @ replicate (16 - length bs) 0 @ drop k bs)
           else if e \<noteq> None then []
           else bs))"

definition parse_ipv6 :: "string \<Rightarrow> ip" where
  "parse_ipv6 s =
     (if has_prefix s ''::'' then
        (if length s = 2 then replicate 16 0 else v6_finish (v6_loop (drop 2 s) [] (Some 0)))
      else v6_finish (v6_loop s [] None))"

text \<open>
  \<open>net.ParseIP\<close>: the first of \<open>.\<close>, \<open>:\<close> and \<open>%\<close> decides the grammar; an address with a zone
  (anything with a \<open>%\<close>) is refused. The result has 16 bytes or is nil.
\<close>

definition parse_ip :: "string \<Rightarrow> ip" where
  "parse_ip s =
     (if CHR ''%'' \<in> set s then []
      else (case filter (\<lambda>c. c = CHR ''.'' \<or> c = CHR '':'') s of
              [] \<Rightarrow> []
            | c # _ \<Rightarrow>
                (if c = CHR ''.'' then
                   (case ipv4_fields s 0 0 None [] of None \<Rightarrow> [] | Some fs \<Rightarrow> v4_in_v6 fs)
                 else parse_ipv6 s)))"

section \<open>Predicates on addresses\<close>

definition to4 :: "ip \<Rightarrow> ip" where
  "to4 a =
     (if length a = 4 then a
      else if length a = 16 \<and> take 12 a = replicate 10 0 @ [0xff, 0xff] then drop 12 a
      else [])"

definition ip_equal :: "ip \<Rightarrow> ip \<Rightarrow> bool" where
  "ip_equal a b \<longleftrightarrow>
     a = b
     \<or> length a = 4 \<and> length b = 16 \<and> b = v4_in_v6 a
     \<or> length a = 16 \<and> length b = 4 \<and> a = v4_in_v6 b"

definition is_loopback :: "ip \<Rightarrow> bool" where
  "is_loopback a =
     (case to4 a of
        x # _ \<Rightarrow> x = 127
      | [] \<Rightarrow> ip_equal a (replicate 15 0 @ [1]))"

definition is_unspecified :: "ip \<Rightarrow> bool" where
  "is_unspecified a \<longleftrightarrow> ip_equal a (v4_in_v6 [0, 0, 0, 0]) \<or> ip_equal a (replicate 16 0)"

section \<open>Lengths\<close>

lemma ipv4_fields_length:
  "ipv4_fields s v d p fs = Some r \<Longrightarrow> length fs \<le> 3 \<Longrightarrow> length r = 4"
  by (induction s v d p fs rule: ipv4_fields.induct)
    (auto split: option.splits if_splits)

text \<open>The loop keeps an even number of at most 16 bytes and an ellipsis inside them.\<close>

definition v6_inv :: "ip \<Rightarrow> nat option \<Rightarrow> bool" where
  "v6_inv bs e \<longleftrightarrow> even (length bs) \<and> length bs \<le> 16 \<and> (\<forall>k. e = Some k \<longrightarrow> k \<le> length bs)"

lemma v6_inv_group:
  "v6_inv bs e \<Longrightarrow> length bs < 16 \<Longrightarrow> v6_inv (bs @ [x, y]) e"
  "v6_inv bs e \<Longrightarrow> length bs < 16 \<Longrightarrow> v6_inv (bs @ [x, y]) (Some (Suc (Suc (length bs))))"
  by (auto simp: v6_inv_def)

lemma v6_inv_tail:
  "v6_inv bs e \<Longrightarrow> \<not> 16 < length bs + 4 \<Longrightarrow> length fs = 4 \<Longrightarrow> v6_inv (bs @ fs) e"
  by (auto simp: v6_inv_def)

lemma v6_loop_inv:
  "v6_loop s bs e = Some (r, bs', e') \<Longrightarrow> v6_inv bs e \<Longrightarrow> v6_inv bs' e'"
proof (induction s bs e rule: v6_loop.induct)
  case (1 s bs e)
  show ?case
  proof (cases "length bs < 16")
    case False
    with "1.prems" show ?thesis by (simp add: v6_loop.simps[of s bs e])
  next
    case True
    then obtain off acc q where g: "hex_group 0 0 s = Some (off, acc, q)"
      using "1.prems"(1) by (auto simp: v6_loop.simps[of s bs e] split: option.splits)
    let ?bs' = "bs @ [word_of_nat (acc div 256), word_of_nat acc]"
    have off: "off \<noteq> 0"
      using "1.prems"(1) True g by (cases "off = 0") (simp_all add: v6_loop.simps[of s bs e])
    show ?thesis
    proof (cases "q \<noteq> [] \<and> hd q = CHR ''.''")
      case dot: True
      have "length fs = 4" if "ipv4_fields s 0 0 None [] = Some fs" for fs
        using ipv4_fields_length[OF that] by simp
      with "1.prems" True g off dot show ?thesis
        by (auto simp: v6_loop.simps[of s bs e] intro!: v6_inv_tail split: if_splits option.splits)
    next
      case nodot: False
      note IH = "1.IH"[OF True g refl refl off nodot refl]
      show ?thesis
        using "1.prems" True g off nodot IH v6_inv_group[OF "1.prems"(2) True]
        by (auto simp: v6_loop.simps[of s bs e] Let_def split: if_splits)
    qed
  qed
qed

lemma v6_finish_length:
  assumes "v6_inv bs e"
  shows "v6_finish (v6_loop s bs e) = [] \<or> length (v6_finish (v6_loop s bs e)) = 16"
proof (cases "v6_loop s bs e")
  case (Some t)
  obtain r bs' e' where "t = (r, bs', e')" by (cases t)
  with Some v6_loop_inv[OF _ assms] have "v6_inv bs' e'" by simp
  with Some \<open>t = _\<close> show ?thesis
    by (auto simp: v6_finish_def v6_inv_def split: option.splits)
qed (simp add: v6_finish_def)

lemma parse_ip_length: "parse_ip s = [] \<or> length (parse_ip s) = 16"
proof -
  have "v6_inv [] None" "v6_inv [] (Some 0)"
    by (simp_all add: v6_inv_def)
  then show ?thesis
    using v6_finish_length ipv4_fields_length[of s 0 0 None "[]"]
    by (auto simp: parse_ip_def parse_ipv6_def v4_in_v6_def split: list.splits option.splits)
qed

end
