(* ===== verification/DnsMsg.thy ===== *)
theory DnsMsg
  imports Names GoNet
begin

text \<open>
  DNS messages and the response writers of \<open>src/internal/resolver/common/dns.go\<close>. The message
  types are those of the library \<open>github.com/miekg/dns\<close> with the fields the program touches; the
  library's functions are the fields of the parameter record \<open>dns_lib\<close>, and what the program
  relies on about them is stated by the named laws below.
\<close>

type_synonym u8 = "8 word"
type_synonym u16 = "16 word"
type_synonym u32 = "32 word"

section \<open>Constants of the DNS library\<close>

abbreviation TypeA :: u16 where "TypeA \<equiv> 1"
abbreviation TypeAAAA :: u16 where "TypeAAAA \<equiv> 28"
abbreviation TypeSRV :: u16 where "TypeSRV \<equiv> 33"
abbreviation TypeOPT :: u16 where "TypeOPT \<equiv> 41"
abbreviation ClassINET :: u16 where "ClassINET \<equiv> 1"
abbreviation MinMsgSize :: u16 where "MinMsgSize \<equiv> 512"
abbreviation MaxMsgSize :: u16 where "MaxMsgSize \<equiv> 65535"
abbreviation EDNS0SUBNET :: u16 where "EDNS0SUBNET \<equiv> 8"
abbreviation RcodeSuccess :: int where "RcodeSuccess \<equiv> 0"
abbreviation RcodeServerFailure :: int where "RcodeServerFailure \<equiv> 2"
abbreviation RcodeNameError :: int where "RcodeNameError \<equiv> 3"
abbreviation RcodeNotImplemented :: int where "RcodeNotImplemented \<equiv> 4"
abbreviation RcodeRefused :: int where "RcodeRefused \<equiv> 5"

section \<open>Message types\<close>

record rr_header =
  h_name :: string
  h_rrtype :: u16
  h_class :: u16
  h_ttl :: u32

record edns_subnet =
  sn_code :: u16
  sn_family :: u16
  sn_netmask :: u8
  sn_scope :: u8
  sn_address :: ip

datatype edns_option = EdnsSubnet edns_subnet | EdnsOther u16 "byte list"

record opt_rr =
  o_hdr :: rr_header
  o_option :: "edns_option list"

datatype rr =
    RR_A rr_header ip
  | RR_AAAA rr_header ip
  | RR_SRV rr_header u16 u16 u16 string
  | RR_OPT opt_rr
  | RR_Other rr_header "byte list"

primrec rr_hdr :: "rr \<Rightarrow> rr_header" where
  "rr_hdr (RR_A h a) = h"
| "rr_hdr (RR_AAAA h a) = h"
| "rr_hdr (RR_SRV h p w q t) = h"
| "rr_hdr (RR_OPT o') = o_hdr o'"
| "rr_hdr (RR_Other h b) = h"

record question =
  q_name :: string
  q_type :: u16
  q_class :: u16

text \<open>The record sections hold interface values, so an element can be nil (\<open>None\<close>).\<close>

record dns_msg =
  m_id :: u16
  m_response :: bool
  m_authoritative :: bool
  m_truncated :: bool
  m_recursion_desired :: bool
  m_recursion_available :: bool
  m_rcode :: int
  m_question :: "question list"
  m_answer :: "rr option list"
  m_ns :: "rr option list"
  m_extra :: "rr option list"

text \<open>The zero value \<open>&dns.Msg{}\<close>.\<close>

definition empty_msg :: dns_msg where
  "empty_msg = \<lparr>m_id = 0, m_response = False, m_authoritative = False, m_truncated = False,
     m_recursion_desired = False, m_recursion_available = False, m_rcode = 0, m_question = [],
     m_answer = [], m_ns = [], m_extra = []\<rparr>"

section \<open>The DNS library as a parameter\<close>

text \<open>
  \<open>msg.SetReply(r)\<close>, \<open>msg.Truncate(n)\<close>, \<open>msg.IsEdns0()\<close>, \<open>opt.UDPSize()\<close>, \<open>opt.SetUDPSize(n)\<close>,
  \<open>dns.SplitDomainName(s)\<close> and \<open>dns.Fqdn(s)\<close>.
\<close>

record dns_lib =
  lib_set_reply :: "dns_msg \<Rightarrow> dns_msg \<Rightarrow> dns_msg"
  lib_truncate :: "nat \<Rightarrow> dns_msg \<Rightarrow> dns_msg"
  lib_is_edns0 :: "dns_msg \<Rightarrow> opt_rr option"
  lib_udp_size :: "opt_rr \<Rightarrow> u16"
  lib_set_udp_size :: "u16 \<Rightarrow> opt_rr \<Rightarrow> opt_rr"
  lib_split_domain :: "string \<Rightarrow> string list"
  lib_fqdn :: "string \<Rightarrow> string"

definition opt_count :: "rr option list \<Rightarrow> nat" where
  "opt_count rs = length (filter (\<lambda>r. case r of Some (RR_OPT _) \<Rightarrow> True | _ \<Rightarrow> False) rs)"

lemma opt_count_simps [simp]:
  "opt_count [] = 0"
  "opt_count (xs @ ys) = opt_count xs + opt_count ys"
  "opt_count [Some (RR_OPT q)] = 1"
  by (simp_all add: opt_count_def)

text \<open>
  What the program relies on. \<open>SetReply\<close> makes a message the reply to a request: identifier and
  first question are the request's, the code is NOERROR, the record sections are kept.
  \<open>Truncate\<close> drops records that do not fit and leaves header, question and the OPT record.
  \<open>UDPSize\<close> reads what \<open>SetUDPSize\<close> wrote, both work on the header of the record.
  \<open>SplitDomainName\<close> splits a fully qualified name into its labels.
\<close>

definition set_reply_law :: "dns_lib \<Rightarrow> bool" where
  "set_reply_law L \<longleftrightarrow> (\<forall>m r. let m' = lib_set_reply L m r in
     m_id m' = m_id r \<and> m_response m' \<and> m_rcode m' = RcodeSuccess \<and>
     (m_question r \<noteq> [] \<longrightarrow> m_question m' = [hd (m_question r)]) \<and>
     m_answer m' = m_answer m \<and> m_ns m' = m_ns m \<and> m_extra m' = m_extra m)"

definition truncate_law :: "dns_lib \<Rightarrow> bool" where
  "truncate_law L \<longleftrightarrow> (\<forall>n m. let m' = lib_truncate L n m in
     m_id m' = m_id m \<and> m_response m' = m_response m \<and> m_rcode m' = m_rcode m \<and>
     m_authoritative m' = m_authoritative m \<and> m_recursion_desired m' = m_recursion_desired m \<and>
     m_recursion_available m' = m_recursion_available m \<and> m_question m' = m_question m \<and>
     (\<exists>k. m_answer m' = take k (m_answer m)) \<and>
     (opt_count (m_extra m) \<le> 1 \<longrightarrow> opt_count (m_extra m') = opt_count (m_extra m)))"

definition udp_size_law :: "dns_lib \<Rightarrow> bool" where
  "udp_size_law L \<longleftrightarrow> (\<forall>n p. lib_udp_size L (lib_set_udp_size L n p) = n \<and>
     o_option (lib_set_udp_size L n p) = o_option p \<and>
     (\<forall>ops. lib_udp_size L (p\<lparr>o_option := ops\<rparr>) = lib_udp_size L p))"

definition plain_name_label :: "string \<Rightarrow> bool" where
  "plain_name_label w \<longleftrightarrow> w \<noteq> [] \<and> CHR ''.'' \<notin> set w \<and> char_of (92::nat) \<notin> set w"

definition split_law :: "dns_lib \<Rightarrow> bool" where
  "split_law L \<longleftrightarrow> (\<forall>ws. ws \<noteq> [] \<longrightarrow> (\<forall>w \<in> set ws. plain_name_label w) \<longrightarrow>
     lib_split_domain L (lib_fqdn L (join_with CHR ''.'' ws)) = ws)"

section \<open>Message size\<close>

definition edns_size :: "string \<Rightarrow> u16 \<Rightarrow> u16" where
  "edns_size proto sz =
     (if proto = TcpProtocol then MaxMsgSize
      else if sz < MinMsgSize then MinMsgSize
      else sz)"

definition msg_size :: "dns_lib \<Rightarrow> string \<Rightarrow> dns_msg \<Rightarrow> nat" where
  "msg_size L proto r =
     (let sz = (case lib_is_edns0 L r of Some p \<Rightarrow> lib_udp_size L p | None \<Rightarrow> 0)
      in unat (edns_size proto sz))"

section \<open>EDNS records of a response\<close>

text \<open>The loop over the options of the request's OPT record: the first client subnet.\<close>

fun first_subnet :: "edns_option list \<Rightarrow> edns_subnet option" where
  "first_subnet [] = None"
| "first_subnet (EdnsSubnet s # ops) = Some s"
| "first_subnet (EdnsOther c b # ops) = first_subnet ops"

definition edns_subnet_for_request :: "dns_lib \<Rightarrow> dns_msg \<Rightarrow> edns_subnet option" where
  "edns_subnet_for_request L req =
     (case lib_is_edns0 L req of
        None \<Rightarrow> None
      | Some edns \<Rightarrow> first_subnet (o_option edns))"

text \<open>\<open>new(dns.OPT)\<close> with the name and type the code sets.\<close>

definition new_opt :: opt_rr where
  "new_opt = \<lparr>o_hdr = \<lparr>h_name = ''.'', h_rrtype = TypeOPT, h_class = 0, h_ttl = 0\<rparr>, o_option = []\<rparr>"

definition subnet_reply :: "dns_msg \<Rightarrow> bool \<Rightarrow> edns_subnet \<Rightarrow> edns_subnet" where
  "subnet_reply response ecs_global subnet =
     \<lparr>sn_code = EDNS0SUBNET, sn_family = sn_family subnet, sn_netmask = sn_netmask subnet,
      sn_scope =
        (let c = m_rcode response in
         if ecs_global \<or> c = RcodeNameError \<or> c = RcodeServerFailure \<or> c = RcodeRefused
            \<or> c = RcodeNotImplemented
         then 0 else sn_netmask subnet),
      sn_address = sn_address subnet\<rparr>"

definition set_edns :: "dns_lib \<Rightarrow> dns_msg \<Rightarrow> dns_msg \<Rightarrow> bool \<Rightarrow> dns_msg" where
  "set_edns L request response ecs_global =
     (case lib_is_edns0 L request of
        None \<Rightarrow> response
      | Some edns \<Rightarrow>
          let edns_resp = lib_set_udp_size L (lib_udp_size L edns) new_opt;
              edns_resp = (case edns_subnet_for_request L request of
                 None \<Rightarrow> edns_resp
               | Some subnet \<Rightarrow> edns_resp\<lparr>o_option :=
                   o_option edns_resp @ [EdnsSubnet (subnet_reply response ecs_global subnet)]\<rparr>)
          in response\<lparr>m_extra := m_extra response @ [Some (RR_OPT edns_resp)]\<rparr>)"

section \<open>Writing responses\<close>

text \<open>
  The writers return the messages handed to \<open>w.WriteMsg\<close>, appended to those sent before; the error
  of \<open>WriteMsg\<close> is only logged.
\<close>

definition write_dns_code ::
  "dns_lib \<Rightarrow> string \<Rightarrow> dns_msg \<Rightarrow> int \<Rightarrow> dns_msg list \<Rightarrow> dns_msg list" where
  "write_dns_code L proto r code sent =
     (let msg = lib_set_reply L empty_msg r;
          msg = msg\<lparr>m_recursion_desired := True\<rparr>;
          msg = msg\<lparr>m_recursion_available := True\<rparr>;
          msg = msg\<lparr>m_rcode := code\<rparr>;
          msg = lib_truncate L (msg_size L proto r) msg;
          msg = (if lib_is_edns0 L r \<noteq> None then set_edns L r msg True else msg)
      in sent @ [msg])"

definition write_dns_response ::
  "dns_lib \<Rightarrow> string \<Rightarrow> dns_msg \<Rightarrow> dns_msg \<Rightarrow> dns_msg list \<Rightarrow> dns_msg list" where
  "write_dns_response L proto r msg sent =
     (let msg = lib_set_reply L msg r;
          msg = msg\<lparr>m_authoritative := True\<rparr>;
          msg = msg\<lparr>m_recursion_available := True\<rparr>;
          msg = lib_truncate L (msg_size L proto r) msg;
          msg = (if lib_is_edns0 L r \<noteq> None then set_edns L r msg True else msg)
      in sent @ [msg])"

subsection \<open>Lemmas\<close>

lemma set_edns_frame [simp]:
  "m_id (set_edns L q m g) = m_id m" "m_rcode (set_edns L q m g) = m_rcode m"
  "m_response (set_edns L q m g) = m_response m"
  "m_question (set_edns L q m g) = m_question m" "m_answer (set_edns L q m g) = m_answer m"
  "m_authoritative (set_edns L q m g) = m_authoritative m"
  "m_recursion_available (set_edns L q m g) = m_recursion_available m"
  "m_ns (set_edns L q m g) = m_ns m"
  by (simp_all add: set_edns_def Let_def split: option.splits)

lemma opt_count_set_edns:
  "opt_count (m_extra (set_edns L q m g)) =
     opt_count (m_extra m) + (if lib_is_edns0 L q = None then 0 else 1)"
  by (simp add: set_edns_def Let_def split: option.splits)

lemma truncateD:
  assumes "truncate_law L"
  shows "m_id (lib_truncate L n m) = m_id m" "m_response (lib_truncate L n m) = m_response m"
    "m_rcode (lib_truncate L n m) = m_rcode m"
    "m_authoritative (lib_truncate L n m) = m_authoritative m"
    "m_recursion_desired (lib_truncate L n m) = m_recursion_desired m"
    "m_recursion_available (lib_truncate L n m) = m_recursion_available m"
    "m_question (lib_truncate L n m) = m_question m"
    "\<exists>k. m_answer (lib_truncate L n m) = take k (m_answer m)"
    "opt_count (m_extra m) \<le> 1 \<Longrightarrow> opt_count (m_extra (lib_truncate L n m)) = opt_count (m_extra m)"
  using assms by (simp_all add: truncate_law_def Let_def)

lemma set_replyD:
  assumes "set_reply_law L"
  shows "m_id (lib_set_reply L m r) = m_id r" "m_response (lib_set_reply L m r)"
    "m_rcode (lib_set_reply L m r) = RcodeSuccess"
    "m_question r \<noteq> [] \<Longrightarrow> m_question (lib_set_reply L m r) = [hd (m_question r)]"
    "m_answer (lib_set_reply L m r) = m_answer m" "m_ns (lib_set_reply L m r) = m_ns m"
    "m_extra (lib_set_reply L m r) = m_extra m"
  using assms by (simp_all add: set_reply_law_def Let_def)

text \<open>The message a writer sends, on its own.\<close>

definition code_msg :: "dns_lib \<Rightarrow> string \<Rightarrow> dns_msg \<Rightarrow> int \<Rightarrow> dns_msg" where
  "code_msg L proto r code = hd (write_dns_code L proto r code [])"

definition response_msg :: "dns_lib \<Rightarrow> string \<Rightarrow> dns_msg \<Rightarrow> dns_msg \<Rightarrow> dns_msg" where
  "response_msg L proto r msg = hd (write_dns_response L proto r msg [])"

lemma write_dns_code_eq: "write_dns_code L proto r code sent = sent @ [code_msg L proto r code]"
  by (simp add: code_msg_def write_dns_code_def Let_def)

lemma write_dns_response_eq:
  "write_dns_response L proto r msg sent = sent @ [response_msg L proto r msg]"
  by (simp add: response_msg_def write_dns_response_def Let_def)

lemma code_msg_header:
  assumes "set_reply_law L" "truncate_law L"
  shows "m_rcode (code_msg L proto r code) = code" "m_id (code_msg L proto r code) = m_id r"
    "m_response (code_msg L proto r code)" "m_answer (code_msg L proto r code) = []"
    "m_question r \<noteq> [] \<Longrightarrow> m_question (code_msg L proto r code) = [hd (m_question r)]"
proof -
  let ?m = "(lib_set_reply L empty_msg r)\<lparr>m_recursion_desired := True,
    m_recursion_available := True, m_rcode := code\<rparr>"
  have eq: "code_msg L proto r code =
      (let m' = lib_truncate L (msg_size L proto r) ?m
       in if lib_is_edns0 L r \<noteq> None then set_edns L r m' True else m')"
    by (simp add: code_msg_def write_dns_code_def Let_def)
  obtain k where k: "m_answer (lib_truncate L (msg_size L proto r) ?m) = take k (m_answer ?m)"
    using truncateD(8)[OF assms(2)] by blast
  show "m_rcode (code_msg L proto r code) = code" "m_id (code_msg L proto r code) = m_id r"
    "m_response (code_msg L proto r code)"
    "m_question r \<noteq> [] \<Longrightarrow> m_question (code_msg L proto r code) = [hd (m_question r)]"
    using set_replyD[OF assms(1)] by (simp_all add: eq Let_def truncateD(1-7)[OF assms(2)])
  show "m_answer (code_msg L proto r code) = []"
    using k set_replyD(5)[OF assms(1)] by (simp add: eq Let_def empty_msg_def)
qed

lemma response_msg_header:
  assumes "set_reply_law L" "truncate_law L"
  shows "m_rcode (response_msg L proto r msg) = RcodeSuccess"
    "m_id (response_msg L proto r msg) = m_id r" "m_response (response_msg L proto r msg)"
    "m_authoritative (response_msg L proto r msg)"
    "m_recursion_available (response_msg L proto r msg)"
    "m_question r \<noteq> [] \<Longrightarrow> m_question (response_msg L proto r msg) = [hd (m_question r)]"
    "set (m_answer (response_msg L proto r msg)) \<subseteq> set (m_answer msg)"
    "opt_count (m_extra msg) \<le> 1 \<Longrightarrow> opt_count (m_extra (response_msg L proto r msg)) =
       opt_count (m_extra msg) + (if lib_is_edns0 L r = None then 0 else 1)"
proof -
  let ?m = "(lib_set_reply L msg r)\<lparr>m_authoritative := True, m_recursion_available := True\<rparr>"
  have eq: "response_msg L proto r msg =
      (let m' = lib_truncate L (msg_size L proto r) ?m
       in if lib_is_edns0 L r \<noteq> None then set_edns L r m' True else m')"
    by (simp add: response_msg_def write_dns_response_def Let_def)
  obtain k where k: "m_answer (lib_truncate L (msg_size L proto r) ?m) = take k (m_answer ?m)"
    using truncateD(8)[OF assms(2)] by blast
  show "m_rcode (response_msg L proto r msg) = RcodeSuccess"
    "m_id (response_msg L proto r msg) = m_id r" "m_response (response_msg L proto r msg)"
    "m_authoritative (response_msg L proto r msg)"
    "m_recursion_available (response_msg L proto r msg)"
    "m_question r \<noteq> [] \<Longrightarrow> m_question (response_msg L proto r msg) = [hd (m_question r)]"
    "opt_count (m_extra msg) \<le> 1 \<Longrightarrow> opt_count (m_extra (response_msg L proto r msg)) =
       opt_count (m_extra msg) + (if lib_is_edns0 L r = None then 0 else 1)"
    using set_replyD[OF assms(1)]
    by (simp_all add: eq Let_def truncateD(1-7,9)[OF assms(2)] opt_count_set_edns)
  show "set (m_answer (response_msg L proto r msg)) \<subseteq> set (m_answer msg)"
    using k set_replyD(5)[OF assms(1)] by (auto simp: eq Let_def dest: in_set_takeD)
qed

subsection \<open>An instance of the laws\<close>

text \<open>
  A concrete library that satisfies the laws, for the witnesses: replies as \<open>SetReply\<close> makes them,
  messages that always fit, the first OPT record of the additional section.
\<close>

definition sample_lib :: dns_lib where
  "sample_lib = \<lparr>
     lib_set_reply = (\<lambda>m r. m\<lparr>m_id := m_id r, m_response := True, m_rcode := RcodeSuccess,
       m_question := take 1 (m_question r)\<rparr>),
     lib_truncate = (\<lambda>n m. m),
     lib_is_edns0 = (\<lambda>m. case filter (\<lambda>r. case r of Some (RR_OPT _) \<Rightarrow> True | _ \<Rightarrow> False) (m_extra m) of
       Some (RR_OPT p) # _ \<Rightarrow> Some p | _ \<Rightarrow> None),
     lib_udp_size = (\<lambda>p. h_class (o_hdr p)),
     lib_set_udp_size = (\<lambda>n p. p\<lparr>o_hdr := (o_hdr p)\<lparr>h_class := n\<rparr>\<rparr>),
     lib_split_domain = (\<lambda>s. split_on CHR ''.'' (remove_quota s)),
     lib_fqdn = add_quota\<rparr>"

lemma take_1_hd: "xs \<noteq> [] \<Longrightarrow> take (Suc 0) xs = [hd xs]"
  by (cases xs) simp_all

lemma join_plain_no_dot_end:
  assumes "ws \<noteq> []" "\<forall>w \<in> set ws. plain_name_label w"
  shows "\<not> has_suffix (join_with CHR ''.'' ws) ''.''"
proof -
  obtain us w where ws: "ws = us @ [w]"
    using assms(1) by (metis rev_exhaust)
  then have w: "plain_name_label w" using assms(2) by simp
  then have "\<not> has_suffix (p @ w) ''.''" for p
    by (intro not_dot_ended) (auto simp: plain_name_label_def)
  from this[of "[]"] this[of "join_with CHR ''.'' us @ ''.''"] show ?thesis
    unfolding ws by (cases "us = []") (simp_all add: join_with_snoc)
qed

lemma sample_lib_laws [simp]:
  "set_reply_law sample_lib" "truncate_law sample_lib" "udp_size_law sample_lib"
  "split_law sample_lib"
proof -
  show "set_reply_law sample_lib"
    by (simp add: set_reply_law_def sample_lib_def Let_def take_1_hd)
  show "truncate_law sample_lib"
    by (auto simp: truncate_law_def sample_lib_def Let_def intro: exI[of _ "length xs" for xs])
      (metis take_all_iff order_refl)
  show "udp_size_law sample_lib"
    by (simp add: udp_size_law_def sample_lib_def)
  show "split_law sample_lib"
    by (auto simp: split_law_def sample_lib_def remove_add_quota join_plain_no_dot_end
        plain_name_label_def intro!: split_join)
qed

section \<open>Properties of the writers\<close>

text \<open>
  The size a response is cut to is between 512 and 65535 octets for every protocol and every
  advertised size: all of 65535 on TCP, and on UDP the advertised size where that is at least 512.
\<close>

theorem msg_size_bounds:
  "512 \<le> msg_size L proto r \<and> msg_size L proto r \<le> 65535 \<and>
   (proto = TcpProtocol \<longrightarrow> msg_size L proto r = 65535) \<and>
   (\<forall>p. proto \<noteq> TcpProtocol \<and> lib_is_edns0 L r = Some p \<longrightarrow>
      msg_size L proto r = max 512 (unat (lib_udp_size L p))) \<and>
   (proto \<noteq> TcpProtocol \<and> lib_is_edns0 L r = None \<longrightarrow> msg_size L proto r = 512)"
proof -
  have b: "unat (w :: u16) \<le> 65535" for w
    using unsigned_less[of w, where ?'a = nat] by simp
  have m: "edns_size proto w = max 512 w" if "proto \<noteq> TcpProtocol" for w
    using that by (auto simp: edns_size_def max_def not_less)
  have u: "unat (max 512 w :: u16) = max 512 (unat w)" for w
    by (simp add: max_def word_le_nat_alt)
  have t: "edns_size TcpProtocol w = MaxMsgSize" for w
    by (simp add: edns_size_def)
  show ?thesis
    using b by (cases "proto = TcpProtocol") (auto simp: msg_size_def m t u Let_def split: option.splits)
qed

theorem msg_size_bounds_witness: "msg_size sample_lib UdpProtocol empty_msg = 512"
  using msg_size_bounds[of sample_lib UdpProtocol empty_msg]
  by (simp add: sample_lib_def empty_msg_def)

text \<open>
  A response to a request with a client subnet option ends with one OPT record that repeats the
  advertised size, the family, the address and the source mask of the request, with scope 0.
\<close>

theorem response_echoes_subnet:
  assumes "udp_size_law L" and "lib_is_edns0 L r = Some p"
    and "first_subnet (o_option p) = Some sn"
  shows "\<exists>rest q. m_extra (response_msg L proto r msg) = rest @ [Some (RR_OPT q)] \<and>
    lib_udp_size L q = lib_udp_size L p \<and>
    o_option q = [EdnsSubnet \<lparr>sn_code = EDNS0SUBNET, sn_family = sn_family sn,
      sn_netmask = sn_netmask sn, sn_scope = 0, sn_address = sn_address sn\<rparr>]"
proof -
  have u: "lib_udp_size L (lib_set_udp_size L n q) = n"
    "o_option (lib_set_udp_size L n q) = o_option q"
    "lib_udp_size L (q\<lparr>o_option := ops\<rparr>) = lib_udp_size L q" for n q ops
    using assms(1) by (auto simp: udp_size_law_def)
  let ?q = "(lib_set_udp_size L (lib_udp_size L p) new_opt)\<lparr>o_option := [EdnsSubnet
    \<lparr>sn_code = EDNS0SUBNET, sn_family = sn_family sn, sn_netmask = sn_netmask sn, sn_scope = 0,
     sn_address = sn_address sn\<rparr>]\<rparr>"
  have "m_extra (set_edns L r m True) = m_extra m @ [Some (RR_OPT ?q)]" for m
    using assms(2,3) u(2)[of _ new_opt]
    by (simp add: set_edns_def edns_subnet_for_request_def subnet_reply_def new_opt_def Let_def)
  then have "\<exists>rest. m_extra (response_msg L proto r msg) = rest @ [Some (RR_OPT ?q)]"
    using assms(2) by (simp add: response_msg_def write_dns_response_def Let_def)
  then show ?thesis
    using u by (metis opt_rr.select_convs(2) opt_rr.surjective opt_rr.update_convs(2))
qed

definition sample_subnet :: edns_subnet where
  "sample_subnet = \<lparr>sn_code = 8, sn_family = 1, sn_netmask = 24, sn_scope = 24, sn_address = [10, 0, 0, 0]\<rparr>"

definition sample_edns_request :: dns_msg where
  "sample_edns_request = empty_msg\<lparr>m_id := 7,
     m_question := [\<lparr>q_name = ''web.prod.'', q_type = TypeA, q_class = ClassINET\<rparr>],
     m_extra := [Some (RR_OPT \<lparr>o_hdr = \<lparr>h_name = ''.'', h_rrtype = TypeOPT, h_class = 1232, h_ttl = 0\<rparr>,
       o_option = [EdnsOther 10 [1], EdnsSubnet sample_subnet]\<rparr>)]\<rparr>"

theorem response_echoes_subnet_witness:
  "\<exists>rest q. m_extra (response_msg sample_lib UdpProtocol sample_edns_request empty_msg) =
      rest @ [Some (RR_OPT q)] \<and> lib_udp_size sample_lib q = 1232 \<and>
    o_option q = [EdnsSubnet \<lparr>sn_code = 8, sn_family = 1, sn_netmask = 24, sn_scope = 0,
      sn_address = [10, 0, 0, 0]\<rparr>]"
proof -
  obtain p where "lib_is_edns0 sample_lib sample_edns_request = Some p"
    "first_subnet (o_option p) = Some sample_subnet" "lib_udp_size sample_lib p = 1232"
    by (simp add: sample_lib_def sample_edns_request_def empty_msg_def)
  then show ?thesis
    using response_echoes_subnet[OF sample_lib_laws(3), of sample_edns_request p sample_subnet
        UdpProtocol empty_msg]
    by (simp add: sample_subnet_def)
qed

text \<open>
  A response whose additional section already has an OPT record, as an upstream server returns it
  for a request with EDNS, is written with two OPT records: the writer appends its own without
  looking for one.
\<close>

theorem response_repeats_opt:
  assumes "set_reply_law L" "truncate_law L" "lib_is_edns0 L r \<noteq> None" "opt_count (m_extra msg) = 1"
  shows "opt_count (m_extra (response_msg L proto r msg)) = 2"
  using response_msg_header(8)[OF assms(1,2), of msg proto r] assms(3,4) by simp

theorem response_repeats_opt_witness:
  "opt_count (m_extra (response_msg sample_lib UdpProtocol sample_edns_request sample_edns_request)) = 2"
proof -
  have "lib_is_edns0 sample_lib sample_edns_request \<noteq> None"
    "opt_count (m_extra sample_edns_request) = 1"
    by (simp_all add: sample_lib_def sample_edns_request_def empty_msg_def opt_count_def)
  then show ?thesis
    by (rule response_repeats_opt[OF sample_lib_laws(1,2)])
qed

end
