(* ===== verification/ResolverIface.thy ===== *)
theory ResolverIface
  imports DnsMsg "HOL-Library.List_Lexorder" "HOL-Library.Char_ord"
begin

text \<open>
  What the resolver plugins share: the configuration entry and the plugin interface of
  \<open>src/internal/resolver/common/resolver.go\<close>, and the way an entry's options reach a plugin, by
  \<open>json.Marshal\<close> of the option map and \<open>json.Unmarshal\<close> into the plugin's configuration struct.
\<close>

section \<open>Configuration entries\<close>

text \<open>
  The values an option map can hold. \<open>OvFloat\<close> is a number whose JSON text is no integer literal,
  \<open>OvBad\<close> a value \<open>json.Marshal\<close> refuses.
\<close>

datatype opt_val =
    OvNull
  | OvBool bool
  | OvInt int
  | OvFloat
  | OvStr string
  | OvList "opt_val list"
  | OvObj "(string \<times> opt_val) list"
  | OvBad

abbreviation PluginNameDnsAgent :: string where "PluginNameDnsAgent \<equiv> ''dnsagent''"
abbreviation PluginNameMeshProxy :: string where "PluginNameMeshProxy \<equiv> ''meshproxy''"

text \<open>\<open>ConfigEntry\<close>; the option map is \<open>None\<close> where Go has the nil map.\<close>

record config_entry =
  ce_name :: string
  ce_suffix :: string
  ce_dns_ttl :: int
  ce_enable :: bool
  ce_option :: "(string, opt_val) gomap option"
  ce_namespace :: string

section \<open>Options through JSON\<close>

fun json_bad :: "opt_val \<Rightarrow> bool" where
  "json_bad OvBad = True"
| "json_bad (OvList vs) = list_ex json_bad vs"
| "json_bad (OvObj kvs) = list_ex (\<lambda>(k, v). json_bad v) kvs"
| "json_bad _ = False"

text \<open>Decoding one value into a field: null leaves the field, a value of another type is an error.\<close>

definition json_type_error :: go_error where
  "json_type_error = LibError ''json.UnmarshalTypeError''"

fun json_string :: "opt_val \<Rightarrow> string \<Rightarrow> go_error + string" where
  "json_string (OvStr s) x = Inr s"
| "json_string OvNull x = Inr x"
| "json_string _ x = Inl json_type_error"

fun json_int :: "opt_val \<Rightarrow> int \<Rightarrow> go_error + int" where
  "json_int (OvInt i) x = (if int64_range i then Inr i else Inl json_type_error)"
| "json_int OvNull x = Inr x"
| "json_int _ x = Inl json_type_error"

fun json_bool :: "opt_val \<Rightarrow> bool \<Rightarrow> go_error + bool" where
  "json_bool (OvBool b) x = Inr b"
| "json_bool OvNull x = Inr x"
| "json_bool _ x = Inl json_type_error"

text \<open>
  \<open>Marshal\<close> writes the keys in order; \<open>Unmarshal\<close> assigns each key to the field whose tag is equal
  to it up to case, skips unknown keys, and reports the first type error after the whole object.
\<close>

fun json_assign ::
  "(string \<Rightarrow> opt_val \<Rightarrow> 'c \<Rightarrow> go_error + 'c) \<Rightarrow> (string \<times> opt_val) list \<Rightarrow> 'c \<Rightarrow> go_error + 'c" where
  "json_assign field [] c = Inr c"
| "json_assign field ((k, v) # kvs) c =
     (case field (to_lower k) v c of Inl e \<Rightarrow> Inl e | Inr c' \<Rightarrow> json_assign field kvs c')"

definition json_options ::
  "(string \<Rightarrow> opt_val \<Rightarrow> 'c \<Rightarrow> go_error + 'c) \<Rightarrow> (string, opt_val) gomap \<Rightarrow> 'c \<Rightarrow> go_error + 'c" where
  "json_options field options c =
     (if list_ex (\<lambda>(k, v). json_bad v) options then Inl (LibError ''json.UnsupportedValueError'')
      else json_assign field (sort_key fst options) c)"

lemma json_assign_error:
  assumes "(k, v) \<in> set kvs" and "\<And>c. \<exists>e. field (to_lower k) v c = Inl e"
  shows "\<exists>e. json_assign field kvs c = Inl e"
  using assms(1)
proof (induction kvs arbitrary: c)
  case (Cons kv kvs)
  then show ?case
    using assms(2)[of c] by (cases kv) (auto split: sum.splits)
qed simp

lemma json_options_error:
  assumes "(k, v) \<in> set options" and "\<And>c. \<exists>e. field (to_lower k) v c = Inl e"
  shows "\<exists>e. json_options field options c = Inl e"
  using json_assign_error[where kvs = "sort_key fst options" and field = field and k = k and v = v]
    assms by (auto simp: json_options_def)

section \<open>The plugin interface\<close>

text \<open>
  A reply a plugin makes has no error code, no authority and no additional records, and each of its
  answers is owned by the name in the question, has the type and class asked for. (Nil answers are
  admitted: the plugins can make them.)
\<close>

definition reply_ok :: "question \<Rightarrow> dns_msg \<Rightarrow> bool" where
  "reply_ok q m \<longleftrightarrow> m_rcode m = RcodeSuccess \<and> m_ns m = [] \<and> m_extra m = [] \<and>
     (\<forall>rr. Some rr \<in> set (m_answer m) \<longrightarrow>
        h_name (rr_hdr rr) = q_name q \<and> h_rrtype (rr_hdr rr) = q_type q \<and>
        h_class (rr_hdr rr) = ClassINET)"

text \<open>
  \<open>dnsHandler.ServeDNS\<close> asks the plugins in turn and takes the first reply that is not nil
  (the loop of \<open>src/internal/resolver/handler.go\<close>).
\<close>

fun first_reply ::
  "('s \<Rightarrow> question \<Rightarrow> string \<Rightarrow> dns_msg option go) \<Rightarrow> 's list \<Rightarrow> question \<Rightarrow> string \<Rightarrow> dns_msg option go" where
  "first_reply serve [] q qname = Ret None"
| "first_reply serve (h # hs) q qname =
     (case serve h q qname of
        Panic p \<Rightarrow> Panic p
      | Ret (Some resp) \<Rightarrow> Ret (Some resp)
      | Ret None \<Rightarrow> first_reply serve hs q qname)"

locale naming_resolver =
  fixes serve :: "'s \<Rightarrow> question \<Rightarrow> string \<Rightarrow> dns_msg option go"
  assumes serve_reply_ok: "serve s q qname = Ret (Some m) \<Longrightarrow> reply_ok q m"
begin

lemma first_reply_ok: "first_reply serve hs q qname = Ret (Some m) \<Longrightarrow> reply_ok q m"
  by (induction hs) (auto split: go.splits option.splits dest: serve_reply_ok)

lemma first_reply_source:
  "first_reply serve hs q qname = Ret (Some m) \<Longrightarrow>
   \<exists>pre h post. hs = pre @ h # post \<and> serve h q qname = Ret (Some m) \<and>
     (\<forall>g \<in> set pre. serve g q qname = Ret None)"
proof (induction hs)
  case (Cons h hs)
  show ?case
  proof (cases "serve h q qname = Ret None")
    case True
    with Cons obtain pre g post where "hs = pre @ g # post" "serve g q qname = Ret (Some m)"
      "\<forall>g \<in> set pre. serve g q qname = Ret None" by auto
    with True show ?thesis
      by (intro exI[of _ "h # pre"] exI[of _ g] exI[of _ post]) simp
  next
    case False
    with Cons.prems have "serve h q qname = Ret (Some m)"
      by (auto split: go.splits option.splits)
    then show ?thesis
      by (intro exI[of _ "[]"]) auto
  qed
qed simp

lemma written_answers:
  assumes "set_reply_law L" "truncate_law L" "first_reply serve hs q qname = Ret (Some m)"
  shows "\<forall>rr. Some rr \<in> set (m_answer (response_msg L proto r m)) \<longrightarrow>
      h_name (rr_hdr rr) = q_name q \<and> h_rrtype (rr_hdr rr) = q_type q"
    and "opt_count (m_extra (response_msg L proto r m)) \<le> 1"
  using first_reply_ok[OF assms(3)] response_msg_header(7,8)[OF assms(1,2), where msg = m and proto = proto and r = r]
  by (auto simp: reply_ok_def)

end

lemma first_reply_None:
  "first_reply serve hs q qname = Ret None \<longleftrightarrow> (\<forall>h \<in> set hs. serve h q qname = Ret None)"
  by (induction hs) (auto split: go.splits option.splits)

end
