(* ===== verification/DnsAgent.thy ===== *)
theory DnsAgent
  imports ResolverIface
begin

text \<open>
  The plugin \<open>dnsagent\<close> (\<open>src/internal/resolver/dnsagent\<close>): it looks a service up with the Polaris
  consumer API and answers with its instances, and it answers the names
  \<open><hex address>._addr.<service>.<namespace>.\<close> that its SRV answers point to.
\<close>

section \<open>Data\<close>

record dnsagent_config =
  dc_route_labels_map :: "(string, string) gomap option"
  dc_route_labels :: string

text \<open>
  The consumer API is the SDK's: a request and its answer, an error or instances
  (\<open>model.Instance\<close>, with the attributes the plugin reads).
\<close>

record instance_request =
  ir_namespace :: string
  ir_service :: string
  ir_source_labels :: "(string, string) gomap option"

record instance_info =
  in_host :: string
  in_port :: u32
  in_weight :: int
  in_priority :: u32
  in_key :: service_key

type_synonym consumer_api = "instance_request \<Rightarrow> go_error + instance_info list"

record resolver_discovery =
  rd_consumer :: "consumer_api option"
  rd_suffix :: string
  rd_dns_ttl :: int
  rd_config :: "dnsagent_config option"
  rd_namespace :: string

section \<open>Initialisation\<close>

definition dnsagent_field :: "string \<Rightarrow> opt_val \<Rightarrow> dnsagent_config \<Rightarrow> go_error + dnsagent_config" where
  "dnsagent_field key v c =
     (if key = ''route_labels'' then
        (case json_string v (dc_route_labels c) of
           Inl e \<Rightarrow> Inl e
         | Inr s \<Rightarrow> Inr (c\<lparr>dc_route_labels := s\<rparr>))
      else Inr c)"

definition dnsagent_parse_options ::
  "(string, opt_val) gomap option \<Rightarrow> go_error + dnsagent_config" where
  "dnsagent_parse_options options =
     (let config = \<lparr>dc_route_labels_map = None, dc_route_labels = []\<rparr> in
      case options of
        None \<Rightarrow> Inr config
      | Some opts \<Rightarrow>
          (if opts = [] then Inr config
           else (case json_options dnsagent_field opts config of
                   Inl e \<Rightarrow> Inl e
                 | Inr c \<Rightarrow> Inr (c\<lparr>dc_route_labels_map := parse_labels (dc_route_labels c)\<rparr>))))"

text \<open>
  \<open>Initialize\<close>: the new state and the error. The result of \<open>polarisApi.GetConsumerAPI()\<close> is an
  argument.
\<close>

definition dnsagent_initialize ::
  "go_error + consumer_api \<Rightarrow> config_entry \<Rightarrow> resolver_discovery \<Rightarrow>
   resolver_discovery \<times> go_error option" where
  "dnsagent_initialize get_consumer c r =
     (case dnsagent_parse_options (ce_option c) of
        Inl e \<Rightarrow> (r\<lparr>rd_config := None\<rparr>, Some e)
      | Inr cfg \<Rightarrow>
          let r = r\<lparr>rd_config := Some cfg\<rparr> in
          (case get_consumer of
             Inl e \<Rightarrow> (r\<lparr>rd_consumer := None\<rparr>, Some e)
           | Inr api \<Rightarrow>
               (r\<lparr>rd_consumer := Some api, rd_suffix := add_quota (ce_suffix c),
                  rd_dns_ttl := ce_dns_ttl c, rd_namespace := ce_namespace c\<rparr>, None)))"

section \<open>Serving\<close>

definition encode_ip_as_fqdn :: "dns_lib \<Rightarrow> ip \<Rightarrow> service_key \<Rightarrow> string" where
  "encode_ip_as_fqdn L a svc_key =
     lib_fqdn L (hex_encode a @ ''._addr.'' @ key_service svc_key @ ''.'' @ key_namespace svc_key)"

text \<open>\<open>markRecord\<close>; \<open>None\<close> is the nil record.\<close>

definition mark_record ::
  "dns_lib \<Rightarrow> resolver_discovery \<Rightarrow> question \<Rightarrow> ip \<Rightarrow> instance_info option \<Rightarrow> rr option" where
  "mark_record L r question address ins =
     (let hdr = \<lambda>t. \<lparr>h_name = q_name question, h_rrtype = t, h_class = ClassINET,
                     h_ttl = word_of_int (rd_dns_ttl r)\<rparr> in
      if q_type question = TypeA then Some (RR_A (hdr TypeA) address)
      else if q_type question = TypeSRV then
        (case ins of
           None \<Rightarrow> None
         | Some i \<Rightarrow> Some (RR_SRV (hdr TypeSRV) (ucast (in_priority i)) (word_of_int (in_weight i))
             (ucast (in_port i)) (encode_ip_as_fqdn L address (in_key i))))
      else if q_type question = TypeAAAA then Some (RR_AAAA (hdr TypeAAAA) address)
      else None)"

definition lookup_from_polaris ::
  "string \<Rightarrow> resolver_discovery \<Rightarrow> string \<Rightarrow> string \<Rightarrow> (go_error + instance_info list) go" where
  "lookup_from_polaris server_ns r qname current_ns =
     (case parse_qname server_ns qname (rd_suffix r) current_ns of
        None \<Rightarrow> Ret (Inr [])
      | Some svc_key \<Rightarrow>
          (case rd_config r of
             None \<Rightarrow> Panic NilDereference
           | Some cfg \<Rightarrow>
               let request = \<lparr>ir_namespace = key_namespace svc_key, ir_service = key_service svc_key,
                     ir_source_labels =
                       (case dc_route_labels_map cfg of
                          Some (l # ls) \<Rightarrow> Some (l # ls)
                        | _ \<Rightarrow> None)\<rparr>
               in (case rd_consumer r of
                     None \<Rightarrow> Panic NilDereference
                   | Some api \<Rightarrow> Ret (api request))))"

text \<open>The index of the first label \<open>_addr\<close>.\<close>

fun addr_index :: "string list \<Rightarrow> nat option" where
  "addr_index [] = None"
| "addr_index (l # ls) = (if l = ''_addr'' then Some 0 else map_option Suc (addr_index ls))"

definition dnsagent_serve ::
  "dns_lib \<Rightarrow> string \<Rightarrow> resolver_discovery \<Rightarrow> question \<Rightarrow> string \<Rightarrow> dns_msg option go" where
  "dnsagent_serve L server_ns r question qname =
     (let msg = empty_msg; labels = lib_split_domain L qname in
      case addr_index labels of
        Some i \<Rightarrow>
          (if i = 0 then Panic IndexOutOfRange
           else (case hex_decode (labels ! (i - 1)) of
                   None \<Rightarrow> Ret None
                 | Some ret \<Rightarrow>
                     Ret (Some (msg\<lparr>m_answer := m_answer msg @ [mark_record L r question ret None]\<rparr>))))
      | None \<Rightarrow>
          go_bind (lookup_from_polaris server_ns r qname (rd_namespace r)) (\<lambda>res.
            (case res of
               Inl err \<Rightarrow> Ret None
             | Inr [] \<Rightarrow> Ret None
             | Inr instances \<Rightarrow>
                 Ret (Some (msg\<lparr>
                   m_answer := m_answer msg @
                     map (\<lambda>ins. mark_record L r question (parse_ip (in_host ins)) (Some ins)) instances,
                   m_rcode := RcodeSuccess\<rparr>)))))"

text \<open>\<open>Destroy\<close>: whether the consumer API is destroyed.\<close>

definition dnsagent_destroy :: "resolver_discovery \<Rightarrow> bool" where
  "dnsagent_destroy r = (rd_consumer r \<noteq> None)"

section \<open>Lemmas\<close>

lemma addr_index_None_iff: "addr_index ls = None \<longleftrightarrow> ''_addr'' \<notin> set ls"
  by (induction ls) auto

lemma addr_index_append: "''_addr'' \<notin> set us \<Longrightarrow> addr_index (us @ ''_addr'' # ls) = Some (length us)"
  by (induction us) auto

lemma mark_record_header:
  "mark_record L r q a ins = Some x \<Longrightarrow>
   h_name (rr_hdr x) = q_name q \<and> h_rrtype (rr_hdr x) = q_type q \<and> h_class (rr_hdr x) = ClassINET"
  by (auto simp: mark_record_def Let_def split: if_splits option.splits)

text \<open>Every answer section the plugin makes is a list of \<^const>\<open>mark_record\<close> results.\<close>

lemma dnsagent_serve_marks:
  assumes "dnsagent_serve L server_ns r q qname = Ret (Some m)"
  shows "\<exists>zs. m = empty_msg\<lparr>m_answer := map (\<lambda>(a, i). mark_record L r q a i) zs\<rparr>"
proof (cases "addr_index (lib_split_domain L qname)")
  case (Some n)
  with assms obtain a where "m = empty_msg\<lparr>m_answer := [mark_record L r q a None]\<rparr>"
    by (auto simp: dnsagent_serve_def empty_msg_def Let_def split: if_splits option.splits)
  then show ?thesis
    by (intro exI[of _ "[(a, None)]"]) simp
next
  case None
  obtain res where "lookup_from_polaris server_ns r qname (rd_namespace r) = Ret res"
    using assms None by (auto simp: dnsagent_serve_def go_bind_Ret_iff Let_def)
  moreover from this obtain ins where "res = Inr ins"
    using assms None by (cases res) (auto simp: dnsagent_serve_def)
  ultimately have
    "m = empty_msg\<lparr>m_answer := map (\<lambda>i. mark_record L r q (parse_ip (in_host i)) (Some i)) ins\<rparr>"
    using assms None by (cases ins) (auto simp: dnsagent_serve_def Let_def empty_msg_def)
  then show ?thesis
    by (intro exI[of _ "map (\<lambda>i. (parse_ip (in_host i), Some i)) ins"]) (simp add: comp_def)
qed

lemma dnsagent_reply_ok:
  assumes "dnsagent_serve L server_ns r q qname = Ret (Some m)"
  shows "reply_ok q m"
  using dnsagent_serve_marks[OF assms]
  by (auto simp: reply_ok_def empty_msg_def dest: mark_record_header[OF sym])

interpretation dnsagent: naming_resolver "dnsagent_serve L server_ns" for L server_ns
  by unfold_locales (rule dnsagent_reply_ok)

text \<open>A plugin that \<open>Initialize\<close> accepted: configuration and consumer are set.\<close>

definition dnsagent_ready :: "resolver_discovery \<Rightarrow> bool" where
  "dnsagent_ready r \<longleftrightarrow> rd_config r \<noteq> None \<and> rd_consumer r \<noteq> None"

lemma dnsagent_initialize_ready:
  "dnsagent_initialize get c r = (r', None) \<Longrightarrow> dnsagent_ready r'"
  by (auto simp: dnsagent_initialize_def dnsagent_ready_def Let_def split: sum.splits)

lemma plain_hex_label: "a \<noteq> [] \<Longrightarrow> plain_name_label (hex_encode a)"
  by (auto simp: plain_name_label_def dest!: hex_encode_digits) (simp add: hex_val_def of_char_of)

lemma plain_addr_label: "plain_name_label ''_addr''"
  by (simp add: plain_name_label_def char_eval)

lemma join_with_append:
  "us \<noteq> [] \<Longrightarrow> vs \<noteq> [] \<Longrightarrow> join_with c (us @ vs) = join_with c us @ c # join_with c vs"
  by (induction us) (auto simp: join_with_Cons)

text \<open>A name of plain labels, and a service key both of whose parts are such names.\<close>

definition plain_name :: "string \<Rightarrow> bool" where
  "plain_name s \<longleftrightarrow> (\<exists>ws. ws \<noteq> [] \<and> (\<forall>w \<in> set ws. plain_name_label w) \<and> s = join_with CHR ''.'' ws)"

lemma plain_nameI: "ws \<noteq> [] \<Longrightarrow> \<forall>w \<in> set ws. plain_name_label w \<Longrightarrow> s = join_with CHR ''.'' ws \<Longrightarrow> plain_name s"
  by (auto simp: plain_name_def)

lemma split_addr_name:
  assumes "split_law L" "a \<noteq> []" "plain_name (key_service k)" "plain_name (key_namespace k)"
  shows "\<exists>rest. lib_split_domain L (encode_ip_as_fqdn L a k) = [hex_encode a] @ ''_addr'' # rest"
proof -
  obtain us where us: "us \<noteq> []" "\<forall>w \<in> set us. plain_name_label w" "key_service k = join_with CHR ''.'' us"
    using assms(3) by (auto simp: plain_name_def)
  obtain vs where vs: "vs \<noteq> []" "\<forall>w \<in> set vs. plain_name_label w" "key_namespace k = join_with CHR ''.'' vs"
    using assms(4) by (auto simp: plain_name_def)
  let ?ws = "hex_encode a # ''_addr'' # us @ vs"
  have "encode_ip_as_fqdn L a k = lib_fqdn L (join_with CHR ''.'' ?ws)"
    using us vs by (simp add: encode_ip_as_fqdn_def join_with_append join_with_Cons)
  moreover have "\<forall>w \<in> set ?ws. plain_name_label w"
    using us vs plain_hex_label[OF assms(2)] plain_addr_label by auto
  ultimately show ?thesis
    using assms(1) unfolding split_law_def by (metis append_Cons append_Nil list.distinct(1))
qed

lemma serve_addr_name:
  assumes "split_law L" "a \<noteq> []" "plain_name (key_service k)" "plain_name (key_namespace k)"
  shows "dnsagent_serve L server_ns r q (encode_ip_as_fqdn L a k) =
    Ret (Some (empty_msg\<lparr>m_answer := [mark_record L r q a None]\<rparr>))"
proof -
  obtain rest where ls: "lib_split_domain L (encode_ip_as_fqdn L a k) = [hex_encode a] @ ''_addr'' # rest"
    using split_addr_name[OF assms] by blast
  have "''_addr'' \<notin> set [hex_encode a]"
    using hex_encode_chars(2)[of a] by (metis empty_iff insert_iff list.set)
  then have "addr_index ([hex_encode a] @ ''_addr'' # rest) = Some 1"
    using addr_index_append by fastforce
  with ls show ?thesis
    by (simp add: dnsagent_serve_def empty_msg_def)
qed

section \<open>Properties\<close>

text \<open>Replies made from instances: what the consumer API returned, in order.\<close>

lemma serve_instances:
  assumes "addr_index (lib_split_domain L qname) = None"
    and "parse_qname server_ns qname (rd_suffix r) (rd_namespace r) = Some k"
    and "rd_config r = Some cfg" and "rd_consumer r = Some api"
    and "api \<lparr>ir_namespace = key_namespace k, ir_service = key_service k,
      ir_source_labels = (case dc_route_labels_map cfg of Some (l # ls) \<Rightarrow> Some (l # ls) | _ \<Rightarrow> None)\<rparr> = Inr ins"
    and "ins \<noteq> []"
  shows "dnsagent_serve L server_ns r q qname =
    Ret (Some (empty_msg\<lparr>m_answer := map (\<lambda>i. mark_record L r q (parse_ip (in_host i)) (Some i)) ins\<rparr>))"
  using assms
  by (cases ins) (simp_all add: dnsagent_serve_def lookup_from_polaris_def empty_msg_def Let_def)

text \<open>The labels a request carries are those of the option \<open>route_labels\<close>.\<close>

lemma dnsagent_parse_options_labels:
  "dnsagent_parse_options options = Inr cfg \<Longrightarrow> dc_route_labels_map cfg = parse_labels (dc_route_labels cfg)"
  by (auto simp: dnsagent_parse_options_def parse_labels_def Let_def split: option.splits sum.splits if_splits)

lemma dnsagent_initialize_fields:
  assumes "dnsagent_initialize (Inr api) c r0 = (r, None)"
  obtains cfg where "dnsagent_parse_options (ce_option c) = Inr cfg" "rd_config r = Some cfg" "rd_consumer r = Some api"
    "rd_suffix r = add_quota (ce_suffix c)" "rd_namespace r = ce_namespace c" "rd_dns_ttl r = ce_dns_ttl c"
  using assms by (auto simp: dnsagent_initialize_def Let_def split: sum.splits)

text \<open>
  C16. An initialised plugin answers a query of one of the three types it is asked for (A, AAAA, SRV) from the instances
  the consumer API returns for the service and namespace the name stands for and for the route labels of its option
  \<open>route_labels\<close>, sent as they parse and left out when there are none: one record per instance, in the order of the API,
  owned by the name asked for, of the type asked for, with the configured TTL, and with the instance's address (A, AAAA)
  or its priority, weight and port and the \<open>_addr\<close> name of its address (SRV). Without instances, or on an API error,
  there is no reply, and the query goes on to the next resolver.
\<close>

theorem dnsagent_answers_instances:
  assumes "dnsagent_initialize (Inr api) c r0 = (r, None)" and "dnsagent_parse_options (ce_option c) = Inr cfg"
    and "addr_index (lib_split_domain L qname) = None"
    and "parse_qname server_ns qname (add_quota (ce_suffix c)) (ce_namespace c) = Some k"
    and "q_type q \<in> {TypeA, TypeAAAA, TypeSRV}"
  shows "dnsagent_serve L server_ns r q qname =
    (case api \<lparr>ir_namespace = key_namespace k, ir_service = key_service k,
        ir_source_labels = (case parse_labels (dc_route_labels cfg) of Some (l # ls) \<Rightarrow> Some (l # ls) | _ \<Rightarrow> None)\<rparr> of
       Inl e \<Rightarrow> Ret None
     | Inr ins \<Rightarrow>
         if ins = [] then Ret None
         else Ret (Some (empty_msg\<lparr>m_answer := map (\<lambda>i.
           (let hdr = \<lparr>h_name = q_name q, h_rrtype = q_type q, h_class = ClassINET, h_ttl = word_of_int (ce_dns_ttl c)\<rparr>;
                a = parse_ip (in_host i)
            in Some (if q_type q = TypeA then RR_A hdr a
                     else if q_type q = TypeAAAA then RR_AAAA hdr a
                     else RR_SRV hdr (ucast (in_priority i)) (word_of_int (in_weight i)) (ucast (in_port i))
                       (lib_fqdn L (hex_encode a @ ''._addr.'' @ key_service (in_key i) @ ''.'' @ key_namespace (in_key i)))))) ins\<rparr>)))"
proof -
  obtain cfg' where r: "dnsagent_parse_options (ce_option c) = Inr cfg'" "rd_config r = Some cfg'" "rd_consumer r = Some api"
    "rd_suffix r = add_quota (ce_suffix c)" "rd_namespace r = ce_namespace c" "rd_dns_ttl r = ce_dns_ttl c"
    using dnsagent_initialize_fields[OF assms(1)] .
  then have cfg: "rd_config r = Some cfg" "dc_route_labels_map cfg = parse_labels (dc_route_labels cfg)"
    using assms(2) dnsagent_parse_options_labels by simp_all
  let ?req = "\<lparr>ir_namespace = key_namespace k, ir_service = key_service k,
    ir_source_labels = (case parse_labels (dc_route_labels cfg) of Some (l # ls) \<Rightarrow> Some (l # ls) | _ \<Rightarrow> None)\<rparr>"
  have key: "parse_qname server_ns qname (rd_suffix r) (rd_namespace r) = Some k"
    using assms(4) r by simp
  show ?thesis
  proof (cases "api ?req")
    case (Inl e)
    with assms(3) key cfg r(3) show ?thesis
      by (simp add: dnsagent_serve_def lookup_from_polaris_def)
  next
    case (Inr ins)
    show ?thesis
    proof (cases "ins = []")
      case True
      with assms(3) key cfg r(3) Inr show ?thesis
        by (simp add: dnsagent_serve_def lookup_from_polaris_def)
    next
      case False
      have "api \<lparr>ir_namespace = key_namespace k, ir_service = key_service k,
          ir_source_labels = (case dc_route_labels_map cfg of Some (l # ls) \<Rightarrow> Some (l # ls) | _ \<Rightarrow> None)\<rparr> = Inr ins"
        using Inr cfg(2) by simp
      from serve_instances[OF assms(3) key cfg(1) r(3) this False, of q] Inr False assms(5) r(6) show ?thesis
        by (auto simp: mark_record_def encode_ip_as_fqdn_def Let_def)
    qed
  qed
qed

definition sample_instance :: instance_info where
  "sample_instance = \<lparr>in_host = ''10.1.2.3'', in_port = 70000, in_weight = 100, in_priority = 3,
     in_key = \<lparr>key_namespace = ''prod'', key_service = ''web''\<rparr>\<rparr>"

definition sample_agent :: resolver_discovery where
  "sample_agent = \<lparr>rd_consumer = Some (\<lambda>req. if ir_service req = ''web'' then Inr [sample_instance] else Inr []),
     rd_suffix = ''.'', rd_dns_ttl = 10,
     rd_config = Some \<lparr>dc_route_labels_map = None, dc_route_labels = []\<rparr>, rd_namespace = ''default''\<rparr>"

definition sample_question :: "u16 \<Rightarrow> string \<Rightarrow> question" where
  "sample_question t s = \<lparr>q_name = s, q_type = t, q_class = ClassINET\<rparr>"

lemma sample_web_name:
  "addr_index (lib_split_domain sample_lib ''web.prod.'') = None"
  "parse_qname ''Polaris'' ''web.prod.'' ''.'' ''default'' =
     Some \<lparr>key_namespace = ''prod'', key_service = ''web''\<rparr>"
  by (simp_all add: sample_lib_def remove_quota_def has_suffix_def chop_def parse_qname_def
      match_suffix_def add_quota_def to_lower_def lower_char_def Let_def)

lemma sample_ip: "parse_ip ''10.1.2.3'' = v4_in_v6 [10, 1, 2, 3]"
  by (simp add: parse_ip_def digit_val_def)

text \<open>An entry with a route label, an API that has an instance only for requests with this label, and an SRV query.\<close>

definition labelled_entry :: config_entry where
  "labelled_entry = \<lparr>ce_name = ''dnsagent'', ce_suffix = ''.'', ce_dns_ttl = 10, ce_enable = True,
     ce_option = Some [(''route_labels'', OvStr ''env:dev'')], ce_namespace = ''default''\<rparr>"

definition labelled_api :: consumer_api where
  "labelled_api req = (if ir_source_labels req = Some [(''env'', ''dev'')] then Inr [sample_instance] else Inr [])"

lemma labelled_options:
  "dnsagent_parse_options (ce_option labelled_entry) =
     Inr \<lparr>dc_route_labels_map = Some [(''env'', ''dev'')], dc_route_labels = ''env:dev''\<rparr>"
  by (simp add: labelled_entry_def dnsagent_parse_options_def json_options_def dnsagent_field_def to_lower_def
      lower_char_def char_eval parse_labels_def label_token_def gomap_put_def Let_def)

theorem dnsagent_answers_instances_witness:
  "\<exists>r. dnsagent_initialize (Inr labelled_api) labelled_entry sample_agent = (r, None) \<and>
     dnsagent_serve sample_lib ''Polaris'' r (sample_question TypeSRV ''web.prod.'') ''web.prod.'' =
       Ret (Some (empty_msg\<lparr>m_answer := [Some (RR_SRV
         \<lparr>h_name = ''web.prod.'', h_rrtype = TypeSRV, h_class = ClassINET, h_ttl = 10\<rparr> 3 100 4464
         (lib_fqdn sample_lib (hex_encode (v4_in_v6 [10, 1, 2, 3]) @ ''._addr.web.prod'')))]\<rparr>))"
proof -
  have entry: "add_quota (ce_suffix labelled_entry) = ''.''" "ce_namespace labelled_entry = ''default''"
    "ce_dns_ttl labelled_entry = 10"
    by (simp_all add: labelled_entry_def add_quota_def has_suffix_def)
  obtain r where r: "dnsagent_initialize (Inr labelled_api) labelled_entry sample_agent = (r, None)"
    using labelled_options by (simp add: dnsagent_initialize_def)
  have q: "q_type (sample_question TypeSRV ''web.prod.'') \<in> {TypeA, TypeAAAA, TypeSRV}"
    by (simp add: sample_question_def)
  have labels: "parse_labels ''env:dev'' = Some [(''env'', ''dev'')]"
    by (simp add: parse_labels_def label_token_def gomap_put_def Let_def)
  from dnsagent_answers_instances[OF r labelled_options sample_web_name(1) _ q, unfolded entry, OF sample_web_name(2)] r
  show ?thesis
    by (simp add: labels labelled_api_def sample_question_def sample_instance_def sample_ip)
qed

text \<open>
  C15. The targets of SRV answers lead back to the instances: the target of each record is a name that
  the plugin itself resolves, to the address of the instance the record was made from and without
  asking the consumer API again.
\<close>

theorem srv_target_resolves:
  assumes "split_law L" and "dnsagent_serve L server_ns r q qname = Ret (Some m)"
    and "addr_index (lib_split_domain L qname) = None"
    and "Some (RR_SRV h prio weight port target) \<in> set (m_answer m)"
    and "rd_consumer r = Some api"
    and "\<forall>req ins. api req = Inr ins \<longrightarrow> (\<forall>i \<in> set ins.
       parse_ip (in_host i) \<noteq> [] \<and> plain_name (key_service (in_key i)) \<and> plain_name (key_namespace (in_key i)))"
  shows "\<exists>i req ins. api req = Inr ins \<and> i \<in> set ins \<and> port = ucast (in_port i) \<and>
    (\<forall>server_ns' q'. q_type q' = TypeA \<longrightarrow>
      dnsagent_serve L server_ns' r q' target = Ret (Some (empty_msg\<lparr>m_answer := [Some (RR_A
        \<lparr>h_name = q_name q', h_rrtype = TypeA, h_class = ClassINET, h_ttl = word_of_int (rd_dns_ttl r)\<rparr>
        (parse_ip (in_host i)))]\<rparr>)))"
proof -
  obtain req ins where api: "api req = Inr ins"
    and m: "m = empty_msg\<lparr>m_answer := map (\<lambda>i. mark_record L r q (parse_ip (in_host i)) (Some i)) ins\<rparr>"
    using assms(2,3,5)
    by (auto simp: dnsagent_serve_def lookup_from_polaris_def go_bind_def Let_def empty_msg_def
        split: option.splits sum.splits list.splits)
  obtain i where i: "i \<in> set ins"
    "mark_record L r q (parse_ip (in_host i)) (Some i) = Some (RR_SRV h prio weight port target)"
    using assms(4) unfolding m by (force simp: empty_msg_def)
  then have target: "target = encode_ip_as_fqdn L (parse_ip (in_host i)) (in_key i)"
    and port: "port = ucast (in_port i)"
    by (auto simp: mark_record_def Let_def split: if_splits)
  have plain: "parse_ip (in_host i) \<noteq> []" "plain_name (key_service (in_key i))"
    "plain_name (key_namespace (in_key i))"
    using assms(6) api i(1) by auto
  have "dnsagent_serve L server_ns' r q' target = Ret (Some (empty_msg\<lparr>m_answer := [Some (RR_A
        \<lparr>h_name = q_name q', h_rrtype = TypeA, h_class = ClassINET, h_ttl = word_of_int (rd_dns_ttl r)\<rparr>
        (parse_ip (in_host i)))]\<rparr>))" if "q_type q' = TypeA" for server_ns' q'
    using serve_addr_name[OF assms(1) plain] that target by (simp add: mark_record_def)
  with api i(1) port show ?thesis by blast
qed

definition sample_target :: string where
  "sample_target = encode_ip_as_fqdn sample_lib (v4_in_v6 [10, 1, 2, 3]) (in_key sample_instance)"

theorem srv_target_resolves_witness:
  "dnsagent_serve sample_lib ''Polaris'' sample_agent (sample_question TypeA sample_target) sample_target =
     Ret (Some (empty_msg\<lparr>m_answer := [Some (RR_A
       \<lparr>h_name = sample_target, h_rrtype = TypeA, h_class = ClassINET, h_ttl = 10\<rparr>
       (v4_in_v6 [10, 1, 2, 3]))]\<rparr>))"
proof -
  let ?q = "sample_question TypeSRV ''web.prod.''"
  let ?api = "\<lambda>req. if ir_service req = ''web'' then Inr [sample_instance] else Inr []"
  have api: "rd_consumer sample_agent = Some ?api"
    by (simp add: sample_agent_def)
  have m: "dnsagent_serve sample_lib ''Polaris'' sample_agent ?q ''web.prod.'' =
      Ret (Some (empty_msg\<lparr>m_answer := [mark_record sample_lib sample_agent ?q
        (v4_in_v6 [10, 1, 2, 3]) (Some sample_instance)]\<rparr>))"
    using serve_instances[OF sample_web_name(1), where r = sample_agent and server_ns = "''Polaris''"
        and api = ?api and ins = "[sample_instance]" and q = ?q] sample_web_name(2)
    by (simp add: sample_agent_def sample_instance_def sample_ip)
  have "plain_name ''web''" "plain_name ''prod''"
    by (auto intro!: plain_nameI[of "[w]" for w] simp: plain_name_label_def char_eval)
  then have plain: "\<forall>req ins. ?api req = Inr ins \<longrightarrow> (\<forall>i \<in> set ins. parse_ip (in_host i) \<noteq> [] \<and>
      plain_name (key_service (in_key i)) \<and> plain_name (key_namespace (in_key i)))"
    by (auto simp: sample_instance_def sample_ip v4_in_v6_def)
  have srv: "\<exists>h p w t. mark_record sample_lib sample_agent ?q (v4_in_v6 [10, 1, 2, 3]) (Some sample_instance) =
      Some (RR_SRV h p w t sample_target)"
    by (simp add: mark_record_def sample_question_def sample_target_def Let_def)
  then obtain h p w t where "Some (RR_SRV h p w t sample_target) \<in> set (m_answer (empty_msg\<lparr>m_answer :=
      [mark_record sample_lib sample_agent ?q (v4_in_v6 [10, 1, 2, 3]) (Some sample_instance)]\<rparr>))"
    by auto
  note exists = srv_target_resolves[OF sample_lib_laws(4) m sample_web_name(1) this api plain]
  show ?thesis
    using exists
  proof (elim exE conjE)
    fix i req ins
    assume i: "?api req = Inr ins" "i \<in> set ins"
    assume a: "\<forall>server_ns' q'. q_type q' = TypeA \<longrightarrow>
      dnsagent_serve sample_lib server_ns' sample_agent q' sample_target =
      Ret (Some (empty_msg\<lparr>m_answer := [Some (RR_A \<lparr>h_name = q_name q', h_rrtype = TypeA,
        h_class = ClassINET, h_ttl = word_of_int (rd_dns_ttl sample_agent)\<rparr> (parse_ip (in_host i)))]\<rparr>))"
    have "i = sample_instance"
      using i by (auto split: if_splits)
    then show ?thesis
      using a[THEN spec, of "''Polaris''", THEN spec, of "sample_question TypeA sample_target"]
      by (simp add: sample_question_def sample_instance_def sample_ip) (simp add: sample_agent_def)
  qed
qed

text \<open>
  An SRV query for a name with an \<open>_addr\<close> label after an address is answered with a message
  whose only answer is the nil record.
\<close>

theorem addr_srv_nil_answer:
  assumes "lib_split_domain L qname = us @ [w, ''_addr''] @ vs" and "''_addr'' \<notin> set (us @ [w])"
    and "hex_decode w = Some a" and "q_type q = TypeSRV"
  shows "dnsagent_serve L server_ns r q qname = Ret (Some (empty_msg\<lparr>m_answer := [None]\<rparr>))"
proof -
  have "addr_index ((us @ [w]) @ ''_addr'' # vs) = Some (length (us @ [w]))"
    using assms(2) by (rule addr_index_append)
  then show ?thesis
    using assms by (simp add: dnsagent_serve_def mark_record_def empty_msg_def nth_append)
qed

theorem addr_srv_nil_answer_witness:
  "dnsagent_serve sample_lib ''Polaris'' sample_agent
     (sample_question TypeSRV ''7f000001._addr.web.prod.'') ''7f000001._addr.web.prod.'' =
   Ret (Some (empty_msg\<lparr>m_answer := [None]\<rparr>))"
proof -
  have "lib_split_domain sample_lib ''7f000001._addr.web.prod.'' = [] @ [''7f000001'', ''_addr''] @ [''web'', ''prod'']"
    by (simp add: sample_lib_def remove_quota_def has_suffix_def chop_def)
  from addr_srv_nil_answer[OF this, of "[127, 0, 0, 1]"] show ?thesis
    by (simp add: sample_question_def hex_val_def)
qed

text \<open>
  A name whose first label is \<open>_addr\<close> makes the plugin read the label before the first one, which
  panics, whatever the question and the state of the plugin.
\<close>

theorem leading_addr_panics:
  assumes "lib_split_domain L qname = ''_addr'' # ls"
  shows "dnsagent_serve L server_ns r q qname = Panic IndexOutOfRange"
  using assms by (simp add: dnsagent_serve_def)

theorem leading_addr_panics_witness:
  "dnsagent_serve sample_lib ''Polaris'' sample_agent (sample_question TypeA ''_addr.web.'') ''_addr.web.'' =
     Panic IndexOutOfRange"
  by (rule leading_addr_panics[of _ _ "[''web'']"])
    (simp add: sample_lib_def remove_quota_def has_suffix_def chop_def)

end
