(* ===== verification/MeshProxy.thy ===== *)
theory MeshProxy
  imports ResolverIface
begin

text \<open>
  The plugin \<open>meshproxy\<close> (\<open>src/internal/resolver/meshproxy\<close>): it keeps a table of the hosts of the
  Polaris registry, reloaded periodically, and answers each of them with one fixed address.
\<close>

section \<open>Data\<close>

record mesh_config =
  mc_namespace :: string
  mc_reload_interval_sec :: int
  mc_dns_answer_ip :: string
  mc_filter_by_business :: string
  mc_recursion_available :: bool

text \<open>A Go set of strings is a map to the empty struct.\<close>

type_synonym string_set = "(string, unit) gomap"

record lookup_table =
  lt_all_hosts :: string_set
  lt_name4 :: "(string, ip list) gomap"
  lt_name6 :: "(string, ip list) gomap"
  lt_dns_ttl :: u32

text \<open>\<open>lookupTable\<close> is the atomic value, \<open>None\<close> before the first store.\<close>

record local_dns_server =
  ls_lookup_table :: "lookup_table option"
  ls_dns_ttl :: u32
  ls_recursion_available :: bool

text \<open>
  One call of the SDK's \<open>GetServices\<close>: a request (of which the program knows the business field)
  and its answer, an error or the services.
\<close>

type_synonym services_call = "string \<Rightarrow> go_error + service_key list"

record envoy_registry =
  er_conf :: mesh_config
  er_business :: string

record resolver_mesh =
  rm_local :: "local_dns_server option"
  rm_config :: "mesh_config option"
  rm_registry :: "envoy_registry option"
  rm_suffix :: string
  rm_consumer :: bool

section \<open>The registry\<close>

definition new_registry :: "mesh_config \<Rightarrow> string \<Rightarrow> envoy_registry" where
  "new_registry conf business = \<lparr>er_conf = conf, er_business = business\<rparr>"

text \<open>
  \<open>GetCurrentNsService\<close>: a request with the business is made, but the call gets a fresh one, whose
  business is empty. The nil and the empty set are both \<open>[]\<close>: the program only takes their length.
\<close>

definition get_current_ns_service :: "envoy_registry \<Rightarrow> services_call \<Rightarrow> go_error + string_set" where
  "get_current_ns_service r call =
     (case call [] of
        Inl err \<Rightarrow> Inl err
      | Inr value \<Rightarrow>
          (if value = [] then Inr []
           else Inr (fold (\<lambda>svc services. gomap_put (key_service svc @ ''.'' @ key_namespace svc) () services)
                       value [])))"

section \<open>The local DNS server\<close>

definition build_dns_answers :: "string_set \<Rightarrow> ip list \<Rightarrow> ip list \<Rightarrow> lookup_table \<Rightarrow> lookup_table" where
  "build_dns_answers alt_hosts ipv4 ipv6 table =
     fold (\<lambda>(h, _) table.
       let h = to_lower h;
           table = table\<lparr>lt_all_hosts := gomap_put h () (lt_all_hosts table)\<rparr>;
           table = (if length ipv4 > 0 then table\<lparr>lt_name4 := gomap_put h ipv4 (lt_name4 table)\<rparr> else table);
           table = (if length ipv6 > 0 then table\<lparr>lt_name6 := gomap_put h ipv6 (lt_name6 table)\<rparr> else table)
       in table) alt_hosts table"

definition update_lookup_table :: "string_set \<Rightarrow> string \<Rightarrow> local_dns_server \<Rightarrow> local_dns_server" where
  "update_lookup_table polaris_services dns_response_ip h =
     (let table = \<lparr>lt_all_hosts = [], lt_name4 = [], lt_name6 = [], lt_dns_ttl = ls_dns_ttl h\<rparr>;
          table = fold (\<lambda>(service, _) table.
            let alt_hosts = [(service @ ''.'', ())] in
            build_dns_answers alt_hosts [parse_ip dns_response_ip] [] table) polaris_services table
      in h\<lparr>ls_lookup_table := Some table\<rparr>)"

definition rr_a :: "string \<Rightarrow> ip list \<Rightarrow> u32 \<Rightarrow> rr option list" where
  "rr_a host ips ttl =
     map (\<lambda>a. Some (RR_A \<lparr>h_name = host, h_rrtype = TypeA, h_class = ClassINET, h_ttl = ttl\<rparr> a)) ips"

definition rr_aaaa :: "string \<Rightarrow> ip list \<Rightarrow> u32 \<Rightarrow> rr option list" where
  "rr_aaaa host ips ttl =
     map (\<lambda>a. Some (RR_AAAA \<lparr>h_name = host, h_rrtype = TypeAAAA, h_class = ClassINET, h_ttl = ttl\<rparr> a)) ips"

text \<open>Reading a missing key of a Go map gives the zero value, here the nil slice.\<close>

definition ips_of :: "(string, ip list) gomap \<Rightarrow> string \<Rightarrow> ip list" where
  "ips_of m h = (case gomap_get m h of Some ips \<Rightarrow> ips | None \<Rightarrow> [])"

definition lookup_host :: "u16 \<Rightarrow> string \<Rightarrow> string \<Rightarrow> lookup_table \<Rightarrow> rr option list \<times> bool" where
  "lookup_host qtype question_host hostname table =
     (if gomap_get (lt_all_hosts table) hostname = None then ([], False)
      else
        let ip_answers =
              (if qtype = TypeA then rr_a question_host (ips_of (lt_name4 table) hostname) (lt_dns_ttl table)
               else if qtype = TypeAAAA
               then rr_aaaa question_host (ips_of (lt_name6 table) hostname) (lt_dns_ttl table)
               else [])
        in (ip_answers, True))"

definition new_local_dns_server :: "u32 \<Rightarrow> bool \<Rightarrow> local_dns_server" where
  "new_local_dns_server ttl recursion_available =
     \<lparr>ls_lookup_table = None, ls_dns_ttl = ttl, ls_recursion_available = recursion_available\<rparr>"

definition local_serve :: "local_dns_server \<Rightarrow> question \<Rightarrow> string \<Rightarrow> dns_msg option" where
  "local_serve h question qname =
     (case ls_lookup_table h of
        None \<Rightarrow> None
      | Some table \<Rightarrow>
          let hostname = to_lower qname;
              (answers, host_found) = lookup_host (q_type question) (q_name question) hostname table
          in if host_found then Some (empty_msg\<lparr>m_answer := answers, m_rcode := RcodeSuccess\<rparr>)
             else None)"

section \<open>The plugin\<close>

definition mesh_field :: "string \<Rightarrow> opt_val \<Rightarrow> mesh_config \<Rightarrow> go_error + mesh_config" where
  "mesh_field key v c =
     (let upd_string = (\<lambda>get set. case json_string v (get c) of Inl e \<Rightarrow> Inl e | Inr s \<Rightarrow> Inr (set s)) in
      if key = ''namespace'' then upd_string mc_namespace (\<lambda>s. c\<lparr>mc_namespace := s\<rparr>)
      else if key = ''reload_interval_sec'' then
        (case json_int v (mc_reload_interval_sec c) of
           Inl e \<Rightarrow> Inl e | Inr i \<Rightarrow> Inr (c\<lparr>mc_reload_interval_sec := i\<rparr>))
      else if key = ''dns_answer_ip'' then upd_string mc_dns_answer_ip (\<lambda>s. c\<lparr>mc_dns_answer_ip := s\<rparr>)
      else if key = ''filter_by_business'' then
        upd_string mc_filter_by_business (\<lambda>s. c\<lparr>mc_filter_by_business := s\<rparr>)
      else if key = ''recursion_available'' then
        (case json_bool v (mc_recursion_available c) of
           Inl e \<Rightarrow> Inl e | Inr b \<Rightarrow> Inr (c\<lparr>mc_recursion_available := b\<rparr>))
      else Inr c)"

definition mesh_parse_options :: "(string, opt_val) gomap option \<Rightarrow> go_error + mesh_config" where
  "mesh_parse_options options =
     (let config = \<lparr>mc_namespace = [], mc_reload_interval_sec = 0, mc_dns_answer_ip = [],
                    mc_filter_by_business = [], mc_recursion_available = False\<rparr> in
      case options of
        None \<Rightarrow> Inr config
      | Some opts \<Rightarrow> if opts = [] then Inr config else json_options mesh_field opts config)"

text \<open>\<open>Initialize\<close>, with the error (if any) of \<open>polarisApi.GetConsumerAPI()\<close> as argument.\<close>

definition mesh_initialize ::
  "go_error option \<Rightarrow> config_entry \<Rightarrow> resolver_mesh \<Rightarrow> resolver_mesh \<times> go_error option" where
  "mesh_initialize get_consumer c r =
     (case mesh_parse_options (ce_option c) of
        Inl e \<Rightarrow> (r\<lparr>rm_config := None\<rparr>, Some e)
      | Inr cfg \<Rightarrow>
          let cfg = cfg\<lparr>mc_namespace := ce_namespace c\<rparr>;
              r = r\<lparr>rm_config := Some cfg\<rparr> in
          (case get_consumer of
             Some e \<Rightarrow> (r\<lparr>rm_consumer := False\<rparr>, Some e)
           | None \<Rightarrow>
               (r\<lparr>rm_consumer := True,
                  rm_registry := Some (new_registry cfg (mc_filter_by_business cfg)),
                  rm_suffix := ce_suffix c,
                  rm_local := Some (new_local_dns_server (word_of_int (ce_dns_ttl c))
                                (mc_recursion_available cfg))\<rparr>, None)))"

text \<open>\<open>Destroy\<close>: whether the consumer API is destroyed.\<close>

definition mesh_destroy :: "resolver_mesh \<Rightarrow> bool" where
  "mesh_destroy r = rm_consumer r"

definition mesh_serve :: "resolver_mesh \<Rightarrow> question \<Rightarrow> string \<Rightarrow> dns_msg option go" where
  "mesh_serve r question qname =
     (if \<not> snd (match_suffix qname (rm_suffix r)) then Ret None
      else (case rm_local r of
              None \<Rightarrow> Panic NilDereference
            | Some srv \<Rightarrow>
                (case local_serve srv question qname of
                   Some ret \<Rightarrow> Ret (Some ret)
                 | None \<Rightarrow>
                     (case rm_config r of
                        None \<Rightarrow> Panic NilDereference
                      | Some cfg \<Rightarrow>
                          let qname = remove_quota qname;
                              qname = qname @ ''.'' @ mc_namespace cfg @ ''.''
                          in Ret (local_serve srv question qname)))))"

text \<open>
  The two lookups read the table one after the other: \<open>ServeDNS\<close> when reloads come between them, with the plugin at the
  first and at the second.
\<close>

definition mesh_serve_between :: "resolver_mesh \<Rightarrow> resolver_mesh \<Rightarrow> question \<Rightarrow> string \<Rightarrow> dns_msg option go" where
  "mesh_serve_between r r' question qname =
     (if \<not> snd (match_suffix qname (rm_suffix r)) then Ret None
      else (case rm_local r of
              None \<Rightarrow> Panic NilDereference
            | Some srv \<Rightarrow>
                (case local_serve srv question qname of
                   Some ret \<Rightarrow> Ret (Some ret)
                 | None \<Rightarrow>
                     (case (rm_config r', rm_local r') of
                        (Some cfg, Some srv') \<Rightarrow>
                          Ret (local_serve srv' question (remove_quota qname @ ''.'' @ mc_namespace cfg @ ''.''))
                      | _ \<Rightarrow> Panic NilDereference))))"

lemma mesh_serve_between_same: "mesh_serve_between r r = mesh_serve r"
  by (auto simp: fun_eq_iff mesh_serve_between_def mesh_serve_def Let_def split: option.splits)

section \<open>Reloading\<close>

definition if_service_list_changed :: "string_set \<Rightarrow> string_set \<Rightarrow> bool" where
  "if_service_list_changed current_services new_ns_services =
     (if length current_services \<noteq> length new_ns_services then True
      else if length current_services = 0 then False
      else list_ex (\<lambda>(svc, _). gomap_get new_ns_services svc = None) current_services)"

text \<open>
  \<open>doReload\<close> with the answer of its registry call: the new services if they changed, and the
  plugin. (\<open>Start\<close> runs on an initialised plugin; the guards are Go's nil dereferences.)
\<close>

definition do_reload ::
  "string_set \<Rightarrow> services_call \<Rightarrow> resolver_mesh \<Rightarrow> ((string_set \<times> bool) \<times> resolver_mesh) go" where
  "do_reload current_services call r =
     (case rm_registry r of
        None \<Rightarrow> Panic NilDereference
      | Some reg \<Rightarrow>
          (case get_current_ns_service reg call of
             Inl err \<Rightarrow> Ret (([], False), r)
           | Inr services \<Rightarrow>
               (if if_service_list_changed current_services services
                then (case (rm_local r, rm_config r) of
                        (Some srv, Some cfg) \<Rightarrow>
                          Ret ((services, True),
                            r\<lparr>rm_local := Some (update_lookup_table services (mc_dns_answer_ip cfg) srv)\<rparr>)
                      | _ \<Rightarrow> Panic NilDereference)
                else Ret (([], False), r))))"

text \<open>The body of the goroutine: the first reload and one for each tick, up to the end of the context.\<close>

fun reload_loop :: "services_call list \<Rightarrow> string_set \<Rightarrow> resolver_mesh \<Rightarrow> (string_set \<times> resolver_mesh) go" where
  "reload_loop [] current_services r = Ret (current_services, r)"
| "reload_loop (call # calls) current_services r =
     go_bind (do_reload current_services call r) (\<lambda>((next_services, changed), r).
       reload_loop calls (if changed then next_services else current_services) r)"

definition mesh_start :: "services_call list \<Rightarrow> resolver_mesh \<Rightarrow> (string_set \<times> resolver_mesh) go" where
  "mesh_start calls r =
     (case rm_config r of
        None \<Rightarrow> Panic NilDereference
      | Some cfg \<Rightarrow>
          let interval = (word_of_int (mc_reload_interval_sec cfg) * 1000000000 :: 64 word) in
          if interval \<le>s 0 then Panic NonPositiveTicker
          else reload_loop calls [] r)"

section \<open>Service sets\<close>

definition set_keys :: "string_set \<Rightarrow> string set" where
  "set_keys m = fst ` set m"

lemma card_set_keys: "gomap_ok m \<Longrightarrow> card (set_keys m) = length m"
  unfolding set_keys_def gomap_ok_def by (metis distinct_card length_map set_map)

lemma finite_set_keys [simp]: "finite (set_keys m)"
  by (simp add: set_keys_def)

lemma service_lists_differ:
  assumes "gomap_ok cur" and "gomap_ok new"
  shows "if_service_list_changed cur new \<longleftrightarrow> set_keys cur \<noteq> set_keys new"
proof (cases "length cur = length new")
  case True
  have "(\<exists>x \<in> set cur. gomap_get new (fst x) = None) \<longleftrightarrow> \<not> set_keys cur \<subseteq> set_keys new"
    by (simp add: gomap_get_None_iff set_keys_def image_subset_iff)
  also have "\<dots> \<longleftrightarrow> set_keys cur \<noteq> set_keys new"
    using card_subset_eq[of "set_keys new" "set_keys cur"] True
    by (metis assms card_set_keys finite_set_keys order_refl)
  finally have scan: "list_ex (\<lambda>(svc, _). gomap_get new svc = None) cur \<longleftrightarrow> set_keys cur \<noteq> set_keys new"
    by (simp add: list_ex_iff case_prod_beta)
  have "new = [] \<Longrightarrow> set_keys cur = set_keys new"
    using True by simp
  with True scan show ?thesis
    by (simp add: if_service_list_changed_def)
next
  case False
  then have "set_keys cur \<noteq> set_keys new"
    using card_set_keys assms by metis
  with False show ?thesis
    by (simp add: if_service_list_changed_def)
qed

text \<open>
  Two service lists are found different exactly when their sets of names differ, although only
  lengths and one inclusion are compared.
\<close>

theorem if_service_list_changed_iff:
  assumes "gomap_ok cur" and "gomap_ok new"
  shows "if_service_list_changed cur new \<longleftrightarrow> set_keys cur \<noteq> set_keys new"
  using assms by (rule service_lists_differ)

theorem if_service_list_changed_iff_witness:
  "if_service_list_changed [(''a'', ()), (''b'', ())] [(''b'', ()), (''a'', ())] \<longleftrightarrow> False"
  using if_service_list_changed_iff[of "[(''a'', ()), (''b'', ())]" "[(''b'', ()), (''a'', ())]"]
  by (simp add: gomap_ok_def set_keys_def insert_commute)

lemma fold_put_services:
  "gomap_ok m \<Longrightarrow> gomap_ok (fold (\<lambda>svc services. gomap_put (f svc) () services) vs m)"
  "set_keys (fold (\<lambda>svc services. gomap_put (f svc) () services) vs m) = f ` set vs \<union> set_keys m"
  by (induction vs arbitrary: m) (auto simp: set_keys_def gomap_put_keys)

lemma get_current_ns_service_set:
  assumes "get_current_ns_service reg call = Inr services"
  shows "gomap_ok services"
    and "\<exists>value. call [] = Inr value \<and>
      set_keys services = (\<lambda>svc. key_service svc @ ''.'' @ key_namespace svc) ` set value"
proof -
  obtain vs where vs: "call [] = Inr vs"
    "services = fold (\<lambda>svc m. gomap_put (key_service svc @ ''.'' @ key_namespace svc) () m) vs []"
    using assms by (auto simp: get_current_ns_service_def split: sum.splits if_splits)
  show "gomap_ok services"
    unfolding vs(2) by (rule fold_put_services) simp
  show "\<exists>value. call [] = Inr value \<and>
      set_keys services = (\<lambda>svc. key_service svc @ ''.'' @ key_namespace svc) ` set value"
    using vs fold_put_services(2)[of "\<lambda>svc. key_service svc @ ''.'' @ key_namespace svc" vs "[]"]
    by (intro exI[of _ vs]) (simp add: set_keys_def)
qed

section \<open>The table as a function\<close>

text \<open>What a server answers for a lower-case host name: its addresses of both families, if it is known.\<close>

definition host_answers :: "local_dns_server \<Rightarrow> string \<Rightarrow> (ip list \<times> ip list) option" where
  "host_answers h hostname =
     (case ls_lookup_table h of
        None \<Rightarrow> None
      | Some t \<Rightarrow>
          if gomap_get (lt_all_hosts t) hostname = None then None
          else Some (ips_of (lt_name4 t) hostname, ips_of (lt_name6 t) hostname))"

definition ttl_ok :: "u32 \<Rightarrow> local_dns_server \<Rightarrow> bool" where
  "ttl_ok ttl h \<longleftrightarrow> ls_dns_ttl h = ttl \<and> (\<forall>t. ls_lookup_table h = Some t \<longrightarrow> lt_dns_ttl t = ttl)"

text \<open>What a set of services stands for: every host has the one configured address.\<close>

definition service_hosts :: "string_set \<Rightarrow> string set" where
  "service_hosts services = (\<lambda>s. to_lower (s @ ''.'')) ` set_keys services"

definition services_denote :: "ip \<Rightarrow> string_set \<Rightarrow> string \<Rightarrow> (ip list \<times> ip list) option" where
  "services_denote a services hostname =
     (if hostname \<in> service_hosts services then Some ([a], []) else None)"

lemma build_dns_answers_one:
  "build_dns_answers [(h, ())] [a] [] t =
     t\<lparr>lt_all_hosts := gomap_put (to_lower h) () (lt_all_hosts t),
       lt_name4 := gomap_put (to_lower h) [a] (lt_name4 t)\<rparr>"
  by (simp add: build_dns_answers_def Let_def)

lemma fold_build_dns_answers:
  fixes t :: lookup_table and a :: ip
  defines "F \<equiv> \<lambda>services t. fold (\<lambda>(service, _). build_dns_answers [(service @ ''.'', ())] [a] []) services t"
  shows "gomap_get (lt_all_hosts (F services t)) n =
      (if n \<in> service_hosts services then Some () else gomap_get (lt_all_hosts t) n)"
    and "gomap_get (lt_name4 (F services t)) n =
      (if n \<in> service_hosts services then Some [a] else gomap_get (lt_name4 t) n)"
    and "lt_name6 (F services t) = lt_name6 t" and "lt_dns_ttl (F services t) = lt_dns_ttl t"
  unfolding F_def
  by (induction services arbitrary: t)
    (auto simp: build_dns_answers_one service_hosts_def set_keys_def simp del: to_lower_append)

lemma update_lookup_table_view:
  "host_answers (update_lookup_table services ip h) = services_denote (parse_ip ip) services"
  by (rule ext)
    (simp add: host_answers_def update_lookup_table_def services_denote_def fold_build_dns_answers ips_of_def)

lemma update_lookup_table_ttl: "ttl_ok ttl h \<Longrightarrow> ttl_ok ttl (update_lookup_table services ip h)"
  by (simp add: ttl_ok_def update_lookup_table_def fold_build_dns_answers)

text \<open>Serving reads the table only through \<^const>\<open>host_answers\<close>.\<close>

definition host_reply :: "u32 \<Rightarrow> question \<Rightarrow> ip list \<times> ip list \<Rightarrow> dns_msg" where
  "host_reply ttl q ips = empty_msg\<lparr>m_answer :=
     (if q_type q = TypeA then rr_a (q_name q) (fst ips) ttl
      else if q_type q = TypeAAAA then rr_aaaa (q_name q) (snd ips) ttl else [])\<rparr>"

lemma local_serve_view:
  "ttl_ok ttl h \<Longrightarrow> local_serve h q qname = map_option (host_reply ttl q) (host_answers h (to_lower qname))"
  by (auto simp: local_serve_def host_answers_def lookup_host_def host_reply_def ttl_ok_def empty_msg_def
      split: option.splits)

section \<open>Reloading as a cache\<close>

text \<open>
  The contract of a reload: an unchanged snapshot denotes what the last applied one denotes, and
  applying a snapshot makes the view of the state what the snapshot denotes.
\<close>

locale reload_cache =
  fixes changed :: "'s \<Rightarrow> 's \<Rightarrow> bool"
    and store :: "'s \<Rightarrow> 't \<Rightarrow> 't"
    and view :: "'t \<Rightarrow> 'v"
    and denote :: "'s \<Rightarrow> 'v"
    and snap_ok :: "'s \<Rightarrow> bool"
    and state_ok :: "'t \<Rightarrow> bool"
  assumes unchanged: "snap_ok a \<Longrightarrow> snap_ok b \<Longrightarrow> \<not> changed a b \<Longrightarrow> denote a = denote b"
    and view_store: "snap_ok a \<Longrightarrow> state_ok t \<Longrightarrow> view (store a t) = denote a"
    and store_ok: "snap_ok a \<Longrightarrow> state_ok t \<Longrightarrow> state_ok (store a t)"
begin

definition receive :: "'e + 's \<Rightarrow> 's \<times> 't \<Rightarrow> 's \<times> 't" where
  "receive res st =
     (case res of
        Inl e \<Rightarrow> st
      | Inr s \<Rightarrow> if changed (fst st) s then (s, store s (snd st)) else st)"

definition latest :: "('e + 's) list \<Rightarrow> 's \<Rightarrow> 's" where
  "latest results s = fold (\<lambda>res cur. case res of Inl e \<Rightarrow> cur | Inr s' \<Rightarrow> s') results s"

lemma view_latest:
  assumes "\<forall>s. Inr s \<in> set results \<longrightarrow> snap_ok s"
    and "snap_ok prev" "snap_ok (fst st)" "state_ok (snd st)"
    and "view (snd st) = denote prev" "denote (fst st) = denote prev"
  shows "view (snd (fold receive results st)) = denote (latest results prev) \<and>
    state_ok (snd (fold receive results st))"
  using assms
proof (induction results arbitrary: st prev)
  case (Cons res results)
  let ?prev = "case res of Inl e \<Rightarrow> prev | Inr s \<Rightarrow> s"
  have step: "snap_ok ?prev" "snap_ok (fst (receive res st))" "state_ok (snd (receive res st))"
    "view (snd (receive res st)) = denote ?prev" "denote (fst (receive res st)) = denote ?prev"
    using Cons.prems unchanged[of "fst st"] by (auto simp: receive_def view_store store_ok split: sum.splits)
  have ok: "\<forall>s. Inr s \<in> set results \<longrightarrow> snap_ok s"
    using Cons.prems(1) by simp
  show ?case
    using Cons.IH[OF ok step] by (simp add: latest_def)
qed (simp_all add: latest_def)

end

interpretation mesh: reload_cache if_service_list_changed
    "\<lambda>services. update_lookup_table services ip" host_answers "services_denote (parse_ip ip)"
    gomap_ok "ttl_ok ttl" for ip ttl
proof unfold_locales
  fix a b :: string_set
  assume "gomap_ok a" "gomap_ok b" "\<not> if_service_list_changed a b"
  then have "set_keys a = set_keys b"
    by (simp add: service_lists_differ)
  then show "services_denote (parse_ip ip) a = services_denote (parse_ip ip) b"
    by (simp add: services_denote_def service_hosts_def fun_eq_iff)
qed (simp_all add: update_lookup_table_view update_lookup_table_ttl)

text \<open>The goroutine of the plugin is such a cache.\<close>

lemma do_reload_receive:
  assumes "rm_registry r = Some reg" "rm_local r = Some srv" "rm_config r = Some cfg"
  shows "\<exists>next ch. do_reload cur call r = Ret ((next, ch),
      r\<lparr>rm_local := Some (snd (mesh.receive (mc_dns_answer_ip cfg) (get_current_ns_service reg call) (cur, srv)))\<rparr>) \<and>
    (if ch then next else cur) = fst (mesh.receive (mc_dns_answer_ip cfg) (get_current_ns_service reg call) (cur, srv))"
  using assms by (auto simp: do_reload_def mesh.receive_def split: sum.splits)

lemma reload_loop_receive:
  assumes "rm_registry r = Some reg" "rm_local r = Some srv" "rm_config r = Some cfg"
  shows "\<exists>cur'. reload_loop calls cur r = Ret (cur', r\<lparr>rm_local := Some (snd
    (fold (mesh.receive (mc_dns_answer_ip cfg)) (map (get_current_ns_service reg) calls) (cur, srv)))\<rparr>)"
  using assms
proof (induction calls arbitrary: cur r srv)
  case (Cons call calls)
  let ?st = "mesh.receive (mc_dns_answer_ip cfg) (get_current_ns_service reg call) (cur, srv)"
  obtain next' ch where "do_reload cur call r = Ret ((next', ch), r\<lparr>rm_local := Some (snd ?st)\<rparr>)"
    and "(if ch then next' else cur) = fst ?st"
    using do_reload_receive[OF Cons.prems] by blast
  with Cons.IH[of "r\<lparr>rm_local := Some (snd ?st)\<rparr>" "snd ?st" "fst ?st"] Cons.prems show ?case
    by simp
qed (simp add: assms)

section \<open>The plugin as a whole\<close>

text \<open>Every reply made from a table is well formed.\<close>

lemma mesh_reply_ok:
  assumes "mesh_serve r q qname = Ret (Some m)"
  shows "reply_ok q m"
proof -
  obtain srv n where "local_serve srv q n = Some m"
    using assms by (auto simp: mesh_serve_def Let_def split: if_splits option.splits)
  then show ?thesis
    by (auto simp: local_serve_def lookup_host_def reply_ok_def rr_a_def rr_aaaa_def empty_msg_def Let_def
        split: option.splits if_splits)
qed

interpretation meshproxy: naming_resolver mesh_serve
  by unfold_locales (rule mesh_reply_ok)

text \<open>The last list of services the registry returned, and the host names it stands for.\<close>

definition latest_value :: "services_call list \<Rightarrow> service_key list" where
  "latest_value calls = fold (\<lambda>call cur. case call [] of Inl e \<Rightarrow> cur | Inr value \<Rightarrow> value) calls []"

definition registry_hosts :: "service_key list \<Rightarrow> string set" where
  "registry_hosts ks = (\<lambda>k. to_lower (key_service k @ ''.'' @ key_namespace k @ ''.'')) ` set ks"

lemma service_hosts_fetched:
  assumes "get_current_ns_service reg call = Inr services"
  shows "\<exists>value. call [] = Inr value \<and> service_hosts services = registry_hosts value"
  using get_current_ns_service_set(2)[OF assms]
  by (auto simp: service_hosts_def registry_hosts_def image_image simp del: to_lower_append)

lemma get_current_ns_service_error:
  "get_current_ns_service reg call = Inl e \<longleftrightarrow> call [] = Inl e"
  by (simp add: get_current_ns_service_def split: sum.splits)

lemma service_hosts_latest:
  "service_hosts (mesh.latest (map (get_current_ns_service reg) calls) []) = registry_hosts (latest_value calls)"
proof -
  have "service_hosts (fold (\<lambda>res cur. case res of Inl e \<Rightarrow> cur | Inr s' \<Rightarrow> s')
      (map (get_current_ns_service reg) calls) s) =
    registry_hosts (fold (\<lambda>call cur. case call [] of Inl e \<Rightarrow> cur | Inr value \<Rightarrow> value) calls v)"
    if "service_hosts s = registry_hosts v" for s v
    using that
  proof (induction calls arbitrary: s v)
    case (Cons call calls)
    show ?case
    proof (cases "get_current_ns_service reg call")
      case (Inl e)
      then show ?thesis
        using Cons get_current_ns_service_error[of reg call e] by simp
    next
      case (Inr services)
      then obtain vs where "call [] = Inr vs" "service_hosts services = registry_hosts vs"
        using service_hosts_fetched by blast
      with Cons Inr show ?thesis by simp
    qed
  qed simp
  from this[of "[]" "[]"] show ?thesis
    by (simp add: mesh.latest_def latest_value_def service_hosts_def registry_hosts_def set_keys_def)
qed

lemma mesh_initialize_local:
  assumes "mesh_initialize get c r = (r', None)"
  shows "\<exists>cfg reg. rm_config r' = Some cfg \<and> mc_namespace cfg = ce_namespace c \<and> rm_registry r' = Some reg \<and>
    rm_suffix r' = ce_suffix c \<and>
    rm_local r' = Some (new_local_dns_server (word_of_int (ce_dns_ttl c)) (mc_recursion_available cfg))"
  using assms by (auto simp: mesh_initialize_def Let_def split: sum.splits option.splits)

lemma fresh_server:
  "host_answers (new_local_dns_server ttl ra) = services_denote a []"
  "ttl_ok ttl (new_local_dns_server ttl ra)"
  by (simp_all add: host_answers_def new_local_dns_server_def services_denote_def service_hosts_def
        set_keys_def ttl_ok_def fun_eq_iff)

lemma reloaded_server:
  fixes srv
  assumes "srv = snd (fold (mesh.receive ip) (map (get_current_ns_service reg) calls)
    ([], new_local_dns_server ttl ra))"
  shows "ttl_ok ttl srv \<and> host_answers srv =
    (\<lambda>n. if n \<in> registry_hosts (latest_value calls) then Some ([parse_ip ip], []) else None)"
proof -
  have ok: "\<forall>s. Inr s \<in> set (map (get_current_ns_service reg) calls) \<longrightarrow> gomap_ok s"
    using get_current_ns_service_set(1) by fastforce
  have "host_answers srv = services_denote (parse_ip ip)
      (mesh.latest (map (get_current_ns_service reg) calls) []) \<and> ttl_ok ttl srv"
    unfolding assms
    by (rule mesh.view_latest[OF ok]) (simp_all add: fresh_server)
  then show ?thesis
    by (simp add: services_denote_def service_hosts_latest fun_eq_iff)
qed

lemma mesh_start_state:
  assumes "mesh_initialize get c r = (r0, None)" and "mesh_start calls r0 = Ret (cur, r1)"
  shows "\<exists>cfg srv. rm_config r0 = Some cfg \<and>
    r1 = r0\<lparr>rm_local := Some srv\<rparr> \<and> ttl_ok (word_of_int (ce_dns_ttl c)) srv \<and>
    host_answers srv = (\<lambda>n. if n \<in> registry_hosts (latest_value calls)
      then Some ([parse_ip (mc_dns_answer_ip cfg)], []) else None)"
proof -
  obtain cfg reg where i: "rm_config r0 = Some cfg" "rm_registry r0 = Some reg"
    "rm_local r0 = Some (new_local_dns_server (word_of_int (ce_dns_ttl c)) (mc_recursion_available cfg))"
    using mesh_initialize_local[OF assms(1)] by blast
  define srv where "srv = snd (fold (mesh.receive (mc_dns_answer_ip cfg)) (map (get_current_ns_service reg) calls)
    ([], new_local_dns_server (word_of_int (ce_dns_ttl c)) (mc_recursion_available cfg)))"
  have "reload_loop calls [] r0 = Ret (cur, r1)"
    using assms(2) i(1) by (simp add: mesh_start_def Let_def split: if_splits)
  moreover obtain cur' where "reload_loop calls [] r0 = Ret (cur', r0\<lparr>rm_local := Some srv\<rparr>)"
    using reload_loop_receive[OF i(2,3,1), of calls "[]"] unfolding srv_def by blast
  ultimately show ?thesis
    using i(1) reloaded_server[OF srv_def] by (intro exI[of _ cfg] exI[of _ srv]) simp
qed

lemma mesh_start_serve:
  assumes "mesh_initialize get c r = (r0, None)" and "mesh_start calls r0 = Ret (cur, r1)"
  shows "\<exists>cfg. rm_config r0 = Some cfg \<and>
    mesh_serve r1 q qname = Ret
     (if snd (match_suffix qname (ce_suffix c)) \<and>
         (to_lower qname \<in> registry_hosts (latest_value calls) \<or>
          to_lower (remove_quota qname @ ''.'' @ ce_namespace c @ ''.'') \<in> registry_hosts (latest_value calls))
      then Some (empty_msg\<lparr>m_answer := if q_type q = TypeA then [Some (RR_A
             \<lparr>h_name = q_name q, h_rrtype = TypeA, h_class = ClassINET, h_ttl = word_of_int (ce_dns_ttl c)\<rparr>
             (parse_ip (mc_dns_answer_ip cfg)))] else []\<rparr>)
      else None)"
proof -
  obtain cfg srv where s: "rm_config r0 = Some cfg" "r1 = r0\<lparr>rm_local := Some srv\<rparr>"
    "ttl_ok (word_of_int (ce_dns_ttl c)) srv"
    "host_answers srv = (\<lambda>n. if n \<in> registry_hosts (latest_value calls)
      then Some ([parse_ip (mc_dns_answer_ip cfg)], []) else None)"
    using mesh_start_state[OF assms] by blast
  have "mc_namespace cfg = ce_namespace c" "rm_suffix r0 = ce_suffix c"
    using mesh_initialize_local[OF assms(1)] s(1) by auto
  with s show ?thesis
    by (simp add: mesh_serve_def local_serve_view host_reply_def rr_a_def rr_aaaa_def Let_def
        del: to_lower_append)
qed

text \<open>
  C9. After any sequence of registry answers, failures included, an initialised and started
  plugin answers exactly the names of the last list the registry returned (their case does not matter), or
  such names without their namespace, when this is the configured one and the suffix matches: with one
  A record that holds the configured address, with an empty NOERROR message for any
  other type.
\<close>

theorem mesh_tracks_registry:
  assumes "mesh_initialize get c r = (r0, None)" and "mesh_start calls r0 = Ret (cur, r1)"
  shows "\<exists>cfg. rm_config r0 = Some cfg \<and>
    mesh_serve r1 q qname = Ret
     (if snd (match_suffix qname (ce_suffix c)) \<and>
         (to_lower qname \<in> registry_hosts (latest_value calls) \<or>
          to_lower (remove_quota qname @ ''.'' @ ce_namespace c @ ''.'') \<in> registry_hosts (latest_value calls))
      then Some (empty_msg\<lparr>m_answer := if q_type q = TypeA then [Some (RR_A
             \<lparr>h_name = q_name q, h_rrtype = TypeA, h_class = ClassINET, h_ttl = word_of_int (ce_dns_ttl c)\<rparr>
             (parse_ip (mc_dns_answer_ip cfg)))] else []\<rparr>)
      else None)"
  using assms by (rule mesh_start_serve)

text \<open>
  C17. A query that meets reloads between its two lookups is answered as before them or as after them, but for one case: a
  name that was only known without its namespace before and is only known in full after gets no reply, although both
  tables have one for it.
\<close>

theorem straddling_query:
  assumes "mesh_initialize get c r = (r0, None)" and "mesh_start calls r0 = Ret (cur, r1)"
    and "mesh_start (calls @ later) r0 = Ret (cur', r2)"
  shows "mesh_serve_between r1 r2 q qname \<in> {mesh_serve r1 q qname, mesh_serve r2 q qname} \<or>
    (mesh_serve_between r1 r2 q qname = Ret None \<and>
     to_lower qname \<in> registry_hosts (latest_value (calls @ later)) - registry_hosts (latest_value calls) \<and>
     to_lower (remove_quota qname @ ''.'' @ ce_namespace c @ ''.'') \<in>
       registry_hosts (latest_value calls) - registry_hosts (latest_value (calls @ later)))"
proof -
  obtain cfg srv where s: "rm_config r0 = Some cfg" "r1 = r0\<lparr>rm_local := Some srv\<rparr>"
    "ttl_ok (word_of_int (ce_dns_ttl c)) srv"
    "host_answers srv = (\<lambda>n. if n \<in> registry_hosts (latest_value calls)
      then Some ([parse_ip (mc_dns_answer_ip cfg)], []) else None)"
    using mesh_start_state[OF assms(1,2)] by blast
  obtain srv' where s': "r2 = r0\<lparr>rm_local := Some srv'\<rparr>" "ttl_ok (word_of_int (ce_dns_ttl c)) srv'"
    "host_answers srv' = (\<lambda>n. if n \<in> registry_hosts (latest_value (calls @ later))
      then Some ([parse_ip (mc_dns_answer_ip cfg)], []) else None)"
    using mesh_start_state[OF assms(1,3)] s(1) by auto
  have "mc_namespace cfg = ce_namespace c"
    using mesh_initialize_local[OF assms(1)] s(1) by auto
  with s s' show ?thesis
    by (simp add: mesh_serve_def mesh_serve_between_def local_serve_view Let_def del: to_lower_append)
qed

definition sample_entry :: config_entry where
  "sample_entry = \<lparr>ce_name = ''meshproxy'', ce_suffix = ''.svc'', ce_dns_ttl = 120, ce_enable = True,
     ce_option = Some [(''reload_interval_sec'', OvInt 30), (''dns_answer_ip'', OvStr ''10.4.4.4'')],
     ce_namespace = ''default''\<rparr>"

definition sample_mesh0 :: resolver_mesh where
  "sample_mesh0 = \<lparr>rm_local = None, rm_config = None, rm_registry = None, rm_suffix = [], rm_consumer = False\<rparr>"

definition sample_calls :: "services_call list" where
  "sample_calls = [(\<lambda>b. Inr [\<lparr>key_namespace = ''default'', key_service = ''Web.svc''\<rparr>]),
     (\<lambda>b. Inl (LibError ''timeout'')),
     (\<lambda>b. Inr [\<lparr>key_namespace = ''svc'', key_service = ''db''\<rparr>])]"

lemma sample_initialized:
  "\<exists>r. mesh_initialize None (sample_entry\<lparr>ce_suffix := sfx\<rparr>) sample_mesh0 = (r, None) \<and>
     (\<exists>cfg. rm_config r = Some cfg \<and> mc_reload_interval_sec cfg = 30 \<and> mc_dns_answer_ip cfg = ''10.4.4.4'')"
  by (simp add: mesh_initialize_def sample_entry_def sample_mesh0_def mesh_parse_options_def json_options_def
      mesh_field_def int64_range_def to_lower_def lower_char_def char_eval Let_def)

lemma sample_starts:
  "\<exists>r0. mesh_initialize None (sample_entry\<lparr>ce_suffix := sfx\<rparr>) sample_mesh0 = (r0, None) \<and>
     (\<forall>calls. \<exists>cur r1. mesh_start calls r0 = Ret (cur, r1))"
proof -
  obtain r0 cfg where i: "mesh_initialize None (sample_entry\<lparr>ce_suffix := sfx\<rparr>) sample_mesh0 = (r0, None)"
    and cfg: "rm_config r0 = Some cfg" "mc_reload_interval_sec cfg = 30"
    using sample_initialized by blast
  obtain reg srv where reg: "rm_registry r0 = Some reg" and srv: "rm_local r0 = Some srv"
    using mesh_initialize_local[OF i] by blast
  have "\<exists>cur r1. mesh_start calls r0 = Ret (cur, r1)" for calls
    using reload_loop_receive[OF reg srv cfg(1), of calls "[]"] cfg by (auto simp: mesh_start_def word_sle_eq)
  with i show ?thesis
    by blast
qed

lemma sample_started:
  "\<exists>r0 cur r1. mesh_initialize None (sample_entry\<lparr>ce_suffix := sfx\<rparr>) sample_mesh0 = (r0, None) \<and>
     mesh_start sample_calls r0 = Ret (cur, r1)"
  using sample_starts by blast

lemma sample_hosts: "registry_hosts (latest_value sample_calls) = {''db.svc.''}"
  by (simp add: latest_value_def sample_calls_def registry_hosts_def to_lower_def lower_char_def char_eval)

theorem mesh_tracks_registry_witness:
  "\<exists>r0 cur r1. mesh_initialize None sample_entry sample_mesh0 = (r0, None) \<and>
     mesh_start sample_calls r0 = Ret (cur, r1) \<and>
     mesh_serve r1 \<lparr>q_name = ''DB.svc.'', q_type = TypeAAAA, q_class = ClassINET\<rparr> ''DB.svc.'' = Ret (Some empty_msg) \<and>
     mesh_serve r1 \<lparr>q_name = ''Web.svc.'', q_type = TypeA, q_class = ClassINET\<rparr> ''Web.svc.'' = Ret None"
proof -
  obtain r0 cur r1 where i: "mesh_initialize None sample_entry sample_mesh0 = (r0, None)"
    and st: "mesh_start sample_calls r0 = Ret (cur, r1)"
    using sample_started[of "''.svc''"] by (auto simp: sample_entry_def)
  note hosts = sample_hosts
  have m: "snd (match_suffix ''DB.svc.'' ''.svc'')" "snd (match_suffix ''Web.svc.'' ''.svc'')"
    by (simp_all add: match_suffix_def add_quota_def has_suffix_def Let_def)
  have "mesh_serve r1 \<lparr>q_name = ''DB.svc.'', q_type = TypeAAAA, q_class = ClassINET\<rparr> ''DB.svc.'' = Ret (Some empty_msg)"
    using mesh_tracks_registry[OF i st, of "\<lparr>q_name = ''DB.svc.'', q_type = TypeAAAA, q_class = ClassINET\<rparr>" "''DB.svc.''"]
      m(1) unfolding hosts
    by (auto simp: to_lower_def lower_char_def char_eval sample_entry_def empty_msg_def)
  moreover have "mesh_serve r1 \<lparr>q_name = ''Web.svc.'', q_type = TypeA, q_class = ClassINET\<rparr> ''Web.svc.'' = Ret None"
    using mesh_tracks_registry[OF i st, of "\<lparr>q_name = ''Web.svc.'', q_type = TypeA, q_class = ClassINET\<rparr>" "''Web.svc.''"]
      m(2) unfolding hosts
    by (auto simp: to_lower_def lower_char_def char_eval sample_entry_def remove_quota_def has_suffix_def chop_def)
  ultimately show ?thesis
    using i st by blast
qed

theorem straddling_query_witness:
  "\<exists>r0 cur r1 cur' r2. mesh_initialize None sample_entry sample_mesh0 = (r0, None) \<and>
     mesh_start sample_calls r0 = Ret (cur, r1) \<and>
     mesh_start (sample_calls @ [\<lambda>b. Inl (LibError ''timeout'')]) r0 = Ret (cur', r2) \<and>
     mesh_serve_between r1 r2 \<lparr>q_name = ''db.svc.'', q_type = TypeA, q_class = ClassINET\<rparr> ''db.svc.'' \<in>
       {mesh_serve r1 \<lparr>q_name = ''db.svc.'', q_type = TypeA, q_class = ClassINET\<rparr> ''db.svc.'',
        mesh_serve r2 \<lparr>q_name = ''db.svc.'', q_type = TypeA, q_class = ClassINET\<rparr> ''db.svc.''}"
proof -
  have "sample_entry\<lparr>ce_suffix := ce_suffix sample_entry\<rparr> = sample_entry"
    by simp
  then obtain r0 where i: "mesh_initialize None sample_entry sample_mesh0 = (r0, None)"
    and st: "\<forall>calls. \<exists>cur r1. mesh_start calls r0 = Ret (cur, r1)"
    using sample_starts[of "ce_suffix sample_entry"] by auto
  obtain cur r1 where r1: "mesh_start sample_calls r0 = Ret (cur, r1)"
    using st by blast
  obtain cur' r2 where r2: "mesh_start (sample_calls @ [\<lambda>b. Inl (LibError ''timeout'')]) r0 = Ret (cur', r2)"
    using st by blast
  have "latest_value (sample_calls @ [\<lambda>b. Inl (LibError ''timeout'')]) = latest_value sample_calls"
    by (simp add: latest_value_def)
  with straddling_query[OF i r1 r2] i r1 r2 show ?thesis
    by auto
qed

lemma remove_quota_add: "add_quota s = remove_quota s @ ''.''"
  using chop_has_suffix[of s "''.''"] by (auto simp: add_quota_def remove_quota_def)

lemma match_suffix_remove_quota:
  assumes "snd (match_suffix qname sfx)" and "sfx \<noteq> []"
  shows "\<exists>p. remove_quota qname = p @ remove_quota sfx"
  using assms by (auto simp: match_suffix_def remove_quota_add has_suffix_iff Let_def split: if_splits)

text \<open>
  The configured suffix is only a condition on the name and is not cut off before the name is
  looked up: with a suffix whose text occurs in no host name of the registry, nothing is answered.
\<close>

theorem mesh_suffix_not_stripped:
  assumes "mesh_initialize get c r = (r0, None)" and "mesh_start calls r0 = Ret (cur, r1)"
    and "ce_suffix c \<noteq> []"
    and "\<forall>u v. u @ to_lower (remove_quota (ce_suffix c)) @ v \<notin> registry_hosts (latest_value calls)"
  shows "mesh_serve r1 q qname = Ret None"
proof (cases "snd (match_suffix qname (ce_suffix c))")
  case True
  have absent: "to_lower (remove_quota qname @ t) \<notin> registry_hosts (latest_value calls)" for t
  proof -
    obtain p where p: "remove_quota qname = p @ remove_quota (ce_suffix c)"
      using match_suffix_remove_quota[OF True assms(3)] by blast
    show ?thesis
      using assms(4)[THEN spec, THEN spec, of "to_lower p" "to_lower t"] by (simp add: p)
  qed
  have "qname = remove_quota qname @ [] \<or> qname = remove_quota qname @ ''.''"
    using remove_quota_add[of qname] unfolding add_quota_def by (auto split: if_splits)
  then have "to_lower qname \<notin> registry_hosts (latest_value calls)"
    using absent[of "[]"] absent[of "''.''"] by metis
  with absent show ?thesis
    using mesh_start_serve[OF assms(1,2), of q qname] by (simp del: to_lower_append)
next
  case False
  then show ?thesis
    using mesh_start_serve[OF assms(1,2), of q qname] by (simp del: to_lower_append)
qed

theorem mesh_suffix_not_stripped_witness:
  "\<exists>r0 cur r1. mesh_initialize None (sample_entry\<lparr>ce_suffix := ''.mesh''\<rparr>) sample_mesh0 = (r0, None) \<and>
     mesh_start sample_calls r0 = Ret (cur, r1) \<and>
     mesh_serve r1 \<lparr>q_name = ''db.svc.mesh.'', q_type = TypeA, q_class = ClassINET\<rparr> ''db.svc.mesh.'' = Ret None"
proof -
  let ?c = "sample_entry\<lparr>ce_suffix := ''.mesh''\<rparr>"
  obtain r0 cur r1 where i: "mesh_initialize None ?c sample_mesh0 = (r0, None)"
    and st: "mesh_start sample_calls r0 = Ret (cur, r1)"
    using sample_started by blast
  have hosts: "registry_hosts (latest_value sample_calls) = {''db.svc.''}"
    by (simp add: sample_hosts)
  have "\<forall>u v. u @ to_lower (remove_quota (ce_suffix ?c)) @ v \<notin> registry_hosts (latest_value sample_calls)"
    by (auto simp: hosts remove_quota_def has_suffix_def to_lower_def lower_char_def char_eval
        append_eq_Cons_conv)
  from mesh_suffix_not_stripped[OF i st _ this] i st show ?thesis by auto
qed

text \<open>
  The plugin crashes when it is started, in a goroutine of its own, exactly when the
  reload interval as a 64-bit number of nanoseconds is not positive; otherwise it runs through
  every sequence of registry answers.
\<close>

theorem mesh_start_panics_iff:
  assumes "mesh_initialize get c r = (r0, None)"
  shows "\<exists>cfg. rm_config r0 = Some cfg \<and>
    (if (word_of_int (mc_reload_interval_sec cfg) * 1000000000 :: 64 word) \<le>s 0
     then mesh_start calls r0 = Panic NonPositiveTicker
     else \<exists>cur r1. mesh_start calls r0 = Ret (cur, r1))"
proof -
  obtain cfg reg srv where i: "rm_config r0 = Some cfg" "rm_registry r0 = Some reg" "rm_local r0 = Some srv"
    using mesh_initialize_local[OF assms] by blast
  with reload_loop_receive[OF i(2,3,1), of calls "[]"] show ?thesis
    by (auto simp: mesh_start_def)
qed

theorem mesh_start_panics_iff_witness:
  "\<exists>r0. mesh_initialize None (sample_entry\<lparr>ce_option := Some [(''dns_answer_ip'', OvStr ''10.4.4.4'')]\<rparr>)
      sample_mesh0 = (r0, None) \<and> mesh_start sample_calls r0 = Panic NonPositiveTicker"
proof -
  let ?c = "sample_entry\<lparr>ce_option := Some [(''dns_answer_ip'', OvStr ''10.4.4.4'')]\<rparr>"
  obtain r0 cfg where i: "mesh_initialize None ?c sample_mesh0 = (r0, None)"
    and cfg: "rm_config r0 = Some cfg" "mc_reload_interval_sec cfg = 0"
    by (simp add: mesh_initialize_def sample_entry_def sample_mesh0_def mesh_parse_options_def json_options_def
      mesh_field_def to_lower_def lower_char_def char_eval Let_def)
  from mesh_start_panics_iff[OF i, of sample_calls] cfg i show ?thesis
    by auto
qed

end
