(* ===== verification/Recursor.thy ===== *)
theory Recursor
  imports DnsMsg
begin

text \<open>
  The recursor (\<open>src/internal/resolver/recursor\<close>): queries no plugin answers are sent on to
  upstream name servers. \<open>base.go\<close> makes its configuration from the sidecar's and from
  \<open>/etc/resolv.conf\<close>, \<open>proxy.go\<close> rotates through the upstreams and retries.
\<close>

section \<open>Configuration\<close>

record recurse_config =
  rc_ndots :: int
  rc_search :: "string list"
  rc_timeout :: int
  rc_attempts :: int
  rc_upstream :: "string list"

text \<open>The fields of the library's \<open>dns.ClientConfig\<close> that are read.\<close>

record client_config =
  cc_servers :: "string list"
  cc_search :: "string list"
  cc_ndots :: int
  cc_timeout :: int
  cc_attempts :: int

definition get_bigger :: "int \<Rightarrow> int \<Rightarrow> int" where
  "get_bigger a b = (if a > b then a else b)"

definition need_skip :: "bool \<Rightarrow> string \<Rightarrow> bool" where
  "need_skip bind_localhost name_server =
     (if name_server = ''127.0.0.1'' \<and> bind_localhost then True else False)"

text \<open>The loop carries the receiver's \<open>Upstream\<close> and the set of name servers already merged.\<close>

fun merge_upstream ::
  "bool \<Rightarrow> string list \<Rightarrow> string list \<times> (string \<rightharpoonup> bool) \<Rightarrow> string list \<times> (string \<rightharpoonup> bool)" where
  "merge_upstream bind_localhost [] st = st"
| "merge_upstream bind_localhost (s # ss) (upstream, m) =
     (if m s = None \<and> \<not> need_skip bind_localhost s
      then merge_upstream bind_localhost ss (upstream @ [s @ '':53''], m(s \<mapsto> True))
      else merge_upstream bind_localhost ss (upstream, m))"

definition fill_by_resolv_config :: "client_config \<Rightarrow> recurse_config \<Rightarrow> recurse_config" where
  "fill_by_resolv_config dns r =
     (let r = r\<lparr>rc_ndots := 1\<rparr>;
          r = (if cc_ndots dns > 0 then r\<lparr>rc_ndots := cc_ndots dns\<rparr> else r);
          r = r\<lparr>rc_search := cc_search dns\<rparr>
      in r\<lparr>rc_attempts := get_bigger (cc_attempts dns) (int (length (rc_upstream r)))\<rparr>)"

text \<open>
  \<open>InitRecurseConfig\<close>: whether \<open>/etc/resolv.conf\<close> is a file and what \<open>dns.ClientConfigFromFile\<close>
  makes of it are arguments. \<open>Inr None\<close> is the nil configuration without an error.
\<close>

definition init_recurse_config ::
  "bool \<Rightarrow> go_error + client_config \<Rightarrow> bool \<Rightarrow> int \<Rightarrow> string list \<Rightarrow>
   go_error + recurse_config option" where
  "init_recurse_config is_file from_file bind_localhost timeout name_servers =
     (if \<not> is_file then Inr None
      else (case from_file of
              Inl err \<Rightarrow> Inl err
            | Inr dns \<Rightarrow>
                let config = \<lparr>rc_ndots = 0, rc_search = [], rc_timeout = get_bigger timeout (cc_timeout dns),
                              rc_attempts = 0, rc_upstream = []\<rparr>;
                    (up, m) = merge_upstream bind_localhost name_servers (rc_upstream config, Map.empty);
                    (up, m) = merge_upstream bind_localhost (cc_servers dns) (up, m);
                    config = config\<lparr>rc_upstream := up\<rparr>
                in Inr (Some (fill_by_resolv_config dns config))))"

section \<open>The rotating upstream\<close>

record rotating_upstream =
  ru_servers :: "string list"
  ru_index :: nat

record proxy =
  px_config :: recurse_config
  px_rotate :: rotating_upstream

definition build_proxy :: "recurse_config option \<Rightarrow> proxy option" where
  "build_proxy r =
     (case r of
        None \<Rightarrow> None
      | Some c \<Rightarrow> Some \<lparr>px_config = c, px_rotate = \<lparr>ru_servers = rc_upstream c, ru_index = 0\<rparr>\<rparr>)"

definition rotate_next :: "rotating_upstream \<Rightarrow> (string \<times> rotating_upstream) go" where
  "rotate_next r =
     (if ru_index r < length (ru_servers r)
      then Ret (ru_servers r ! ru_index r, r\<lparr>ru_index := (ru_index r + 1) mod length (ru_servers r)\<rparr>)
      else Panic IndexOutOfRange)"

section \<open>Forwarding a query\<close>

definition expand_query :: "proxy \<Rightarrow> string \<Rightarrow> string list" where
  "expand_query p nm =
     (let ndots = rc_ndots (px_config p); search = rc_search (px_config p) in
      if int (count_char CHR ''.'' nm) < ndots then map (\<lambda>sfx. add_quota (nm @ sfx)) search
      else [nm])"

text \<open>
  \<open>client.Exchange\<close> is the environment: its answer to a request at an upstream, a response that may
  be nil and an error that may be nil, depends on the client and on all the queries sent before.
\<close>

record dns_client =
  cl_net :: string
  cl_timeout :: "64 word"

type_synonym query = "dns_msg \<times> string"
type_synonym exchange =
  "dns_client \<Rightarrow> query list \<Rightarrow> dns_msg \<Rightarrow> string \<Rightarrow> dns_msg option \<times> go_error option"

text \<open>The \<open>switch\<close> on a response: whether it is returned.\<close>

definition returns_response :: "dns_msg option \<Rightarrow> go_error option \<Rightarrow> bool" where
  "returns_response resp err =
     (case resp of
        Some m \<Rightarrow>
          if \<not> (m_rcode m = RcodeSuccess \<or> m_rcode m = RcodeNameError) then False
          else err = None \<or> m_truncated m
      | None \<Rightarrow> err = None)"

definition set_qname :: "string \<Rightarrow> dns_msg \<Rightarrow> dns_msg" where
  "set_qname domain r =
     r\<lparr>m_question := (hd (m_question r))\<lparr>q_name := domain\<rparr> # tl (m_question r)\<rparr>"

text \<open>
  The two loops. The state is the rotating upstream and the queries sent so far; the inner result
  is \<open>Some resp\<close> when the loop returns \<open>resp\<close>, which may be the nil response, \<open>None\<close> when it ends.
\<close>

fun ask_upstreams ::
  "exchange \<Rightarrow> dns_client \<Rightarrow> nat \<Rightarrow> dns_msg \<Rightarrow> rotating_upstream \<times> query list \<Rightarrow>
   dns_msg option option go \<times> rotating_upstream \<times> query list" where
  "ask_upstreams ex client 0 req st = (Ret None, st)"
| "ask_upstreams ex client (Suc attempts) req (ro, sent) =
     (case rotate_next ro of
        Panic p \<Rightarrow> (Panic p, ro, sent)
      | Ret (upstream, ro') \<Rightarrow>
          let (resp, err) = ex client sent req upstream; sent' = sent @ [(req, upstream)] in
          if returns_response resp err then (Ret (Some resp), ro', sent')
          else ask_upstreams ex client attempts req (ro', sent'))"

fun ask_domains ::
  "exchange \<Rightarrow> dns_client \<Rightarrow> nat \<Rightarrow> dns_msg \<Rightarrow> string list \<Rightarrow> rotating_upstream \<times> query list \<Rightarrow>
   dns_msg option option go \<times> rotating_upstream \<times> query list" where
  "ask_domains ex client attempts r [] st = (Ret None, st)"
| "ask_domains ex client attempts r (domain # domains) st =
     (case ask_upstreams ex client attempts (set_qname domain r) st of
        (Ret None, st') \<Rightarrow> ask_domains ex client attempts r domains st'
      | res \<Rightarrow> res)"

definition query_client :: "bool \<Rightarrow> proxy \<Rightarrow> dns_client" where
  "query_client remote_tcp p =
     (let network = (if remote_tcp then TcpProtocol else UdpProtocol) in
      \<lparr>cl_net = network, cl_timeout = word_of_int (rc_timeout (px_config p)) * 1000000000\<rparr>)"

text \<open>
  \<open>HandleDNS\<close>: \<open>remote_tcp\<close> is whether the client's address is a TCP address. The result is the
  response, the proxy after the queries and the queries.
\<close>

definition handle_dns ::
  "exchange \<Rightarrow> bool \<Rightarrow> proxy option \<Rightarrow> dns_msg \<Rightarrow> dns_msg option go \<times> proxy option \<times> query list" where
  "handle_dns ex remote_tcp px r =
     (case px of
        None \<Rightarrow> (Ret None, None, [])
      | Some p \<Rightarrow>
          (case m_question r of
             [] \<Rightarrow> (Panic IndexOutOfRange, Some p, [])
           | q # qs \<Rightarrow>
               let domains = expand_query p (q_name q);
                   client = query_client remote_tcp p;
                   (res, ro, sent) = ask_domains ex client (nat (rc_attempts (px_config p))) r domains
                     (px_rotate p, [])
               in (case res of
                     Ret (Some resp) \<Rightarrow> Ret resp
                   | Ret None \<Rightarrow> Ret None
                   | Panic e \<Rightarrow> Panic e,
                   Some (p\<lparr>px_rotate := ro\<rparr>), sent)))"

section \<open>The upstream list\<close>

lemma merge_upstream_spec:
  "merge_upstream b ss (up, m) = (up', m') \<Longrightarrow>
   up' = up @ map (\<lambda>s. s @ '':53'')
     (filter (\<lambda>s. m s = None) (remdups_first (filter (\<lambda>s. \<not> need_skip b s) ss))) \<and>
   (\<forall>s. m' s = None \<longleftrightarrow> m s = None \<and> (s \<notin> set ss \<or> need_skip b s))"
proof (induction ss arbitrary: up m)
  case (Cons s ss)
  show ?case
  proof (cases "m s = None \<and> \<not> need_skip b s")
    case True
    then have "merge_upstream b ss (up @ [s @ '':53''], m(s \<mapsto> True)) = (up', m')"
      using Cons.prems by simp
    from Cons.IH[OF this] True show ?thesis
      by (auto simp: filter_filter cong: conj_cong)
  next
    case False
    have prem: "merge_upstream b ss (up, m) = (up', m')"
      using Cons.prems False by simp
    have "filter (\<lambda>t. t \<noteq> s \<and> m t = None) (remdups_first (filter (\<lambda>t. \<not> need_skip b t) ss)) =
      filter (\<lambda>t. m t = None) (remdups_first (filter (\<lambda>t. \<not> need_skip b t) ss))"
      by (rule filter_cong) (use False in auto)
    then show ?thesis
      using Cons.IH[OF prem] False by (cases "need_skip b s") (auto simp: filter_filter)
  qed
qed simp

text \<open>
  C36. The upstreams of a configuration are the configured name servers and then those of
  \<open>resolv.conf\<close>, each once, in order, without the loopback address when the sidecar itself binds it, each
  with port 53; every query is tried at least as often as there are upstreams, and at least
  as often as \<open>resolv.conf\<close> says; the timeout is the larger of the two configured.
\<close>

theorem init_recurse_config_upstreams:
  assumes "init_recurse_config is_file from_file b timeout ns = Inr (Some c)"
  shows "\<exists>dns. from_file = Inr dns \<and>
    rc_upstream c = map (\<lambda>s. s @ '':53'')
      (remdups_first (filter (\<lambda>s. \<not> (b \<and> s = ''127.0.0.1'')) (ns @ cc_servers dns))) \<and>
    distinct (rc_upstream c) \<and>
    rc_attempts c = max (cc_attempts dns) (int (length (rc_upstream c))) \<and>
    rc_timeout c = max timeout (cc_timeout dns) \<and> rc_ndots c \<ge> 1 \<and> rc_search c = cc_search dns"
proof -
  obtain dns where dns: "is_file" "from_file = Inr dns"
    using assms by (auto simp: init_recurse_config_def split: if_splits sum.splits)
  obtain up m where um: "merge_upstream b ns ([], Map.empty) = (up, m)" by fastforce
  obtain up' m' where um': "merge_upstream b (cc_servers dns) (up, m) = (up', m')" by fastforce
  have skip: "need_skip b = (\<lambda>s. b \<and> s = ''127.0.0.1'')"
    by (auto simp: need_skip_def fun_eq_iff)
  have up: "up' = map (\<lambda>s. s @ '':53'') (remdups_first (filter (\<lambda>s. \<not> need_skip b s) (ns @ cc_servers dns)))"
    using merge_upstream_spec[OF um] merge_upstream_spec[OF um']
    by (auto simp: remdups_first_append filter_empty_conv intro!: filter_cong)
  have c: "c = fill_by_resolv_config dns \<lparr>rc_ndots = 0, rc_search = [],
      rc_timeout = get_bigger timeout (cc_timeout dns), rc_attempts = 0, rc_upstream = up'\<rparr>"
    using assms dns um um' by (simp add: init_recurse_config_def Let_def)
  have "distinct up'"
    unfolding up by (simp add: distinct_map inj_on_def)
  then show ?thesis
    using dns(2) up by (auto simp: c fill_by_resolv_config_def get_bigger_def skip Let_def max_def)
qed

theorem init_recurse_config_upstreams_witness:
  "\<exists>c. init_recurse_config True (Inr \<lparr>cc_servers = [''127.0.0.1'', ''8.8.8.8''], cc_search = [], cc_ndots = 0,
     cc_timeout = 5, cc_attempts = 2\<rparr>) True 1 [''1.1.1.1'', ''8.8.8.8''] = Inr (Some c) \<and>
     rc_upstream c = [''1.1.1.1:53'', ''8.8.8.8:53''] \<and> rc_attempts c = 2 \<and> rc_timeout c = 5"
proof -
  let ?dns = "\<lparr>cc_servers = [''127.0.0.1'', ''8.8.8.8''], cc_search = [], cc_ndots = 0,
     cc_timeout = 5, cc_attempts = 2\<rparr>"
  obtain c where c: "init_recurse_config True (Inr ?dns) True 1 [''1.1.1.1'', ''8.8.8.8''] = Inr (Some c)"
    by (simp add: init_recurse_config_def need_skip_def Let_def)
  from init_recurse_config_upstreams[OF c] c show ?thesis
    by (intro exI[of _ c]) simp
qed

section \<open>The schedule of queries\<close>

text \<open>
  The reference: the requests in order, each with the upstream whose turn it is, and the first
  response of the schedule that is accepted.
\<close>

definition requests_for :: "dns_msg \<Rightarrow> nat \<Rightarrow> string list \<Rightarrow> dns_msg list" where
  "requests_for r attempts domains = concat (map (\<lambda>d. replicate attempts (set_qname d r)) domains)"

definition turn :: "rotating_upstream \<Rightarrow> nat \<Rightarrow> string" where
  "turn ro k = ru_servers ro ! ((ru_index ro + k) mod length (ru_servers ro))"

definition schedule :: "rotating_upstream \<Rightarrow> dns_msg list \<Rightarrow> query list" where
  "schedule ro reqs = map (\<lambda>k. (reqs ! k, turn ro k)) [0..<length reqs]"

fun first_returned ::
  "exchange \<Rightarrow> dns_client \<Rightarrow> query list \<Rightarrow> query list \<Rightarrow> dns_msg option option \<times> query list" where
  "first_returned ex client [] sent = (None, sent)"
| "first_returned ex client ((req, up) # qs) sent =
     (let (resp, err) = ex client sent req up; sent' = sent @ [(req, up)] in
      if returns_response resp err then (Some resp, sent')
      else first_returned ex client qs sent')"

definition rotate_ok :: "rotating_upstream \<Rightarrow> bool" where
  "rotate_ok ro \<longleftrightarrow> ru_index ro < length (ru_servers ro)"

definition advance :: "nat \<Rightarrow> rotating_upstream \<Rightarrow> rotating_upstream" where
  "advance k ro = ro\<lparr>ru_index := (ru_index ro + k) mod length (ru_servers ro)\<rparr>"

lemma rotate_next_ok:
  "rotate_ok ro \<Longrightarrow> rotate_next ro = Ret (turn ro 0, advance 1 ro)"
  by (simp add: rotate_ok_def rotate_next_def turn_def advance_def)

lemma advance_simps [simp]:
  "rotate_ok ro \<Longrightarrow> advance 0 ro = ro"
  "advance j (advance k ro) = advance (k + j) ro"
  "rotate_ok ro \<Longrightarrow> rotate_ok (advance k ro)"
  "turn (advance k ro) j = turn ro (k + j)"
  "ru_servers (advance k ro) = ru_servers ro"
  by (auto simp: rotate_ok_def advance_def turn_def mod_add_left_eq add.assoc
      intro!: mod_less_divisor dest: gr_implies_not0)

lemma schedule_simps [simp]:
  "schedule ro [] = []"
  "schedule ro (req # reqs) = (req, turn ro 0) # schedule (advance 1 ro) reqs"
  "length (schedule ro reqs) = length reqs"
proof -
  have "[0..<Suc n] = 0 # map Suc [0..<n]" for n
    by (simp add: map_Suc_upt upt_conv_Cons)
  then show "schedule ro (req # reqs) = (req, turn ro 0) # schedule (advance 1 ro) reqs"
    by (simp add: schedule_def comp_def del: upt_Suc)
qed (simp_all add: schedule_def)

lemma schedule_append:
  "rotate_ok ro \<Longrightarrow> schedule ro (as @ bs) = schedule ro as @ schedule (advance (length as) ro) bs"
  by (induction as arbitrary: ro) simp_all

lemma first_returned_append:
  "first_returned ex client (qs @ qs') sent =
     (case first_returned ex client qs sent of
        (None, sent') \<Rightarrow> first_returned ex client qs' sent'
      | res \<Rightarrow> res)"
  by (induction ex client qs sent rule: first_returned.induct) (auto simp: Let_def split: prod.splits)

text \<open>The schedule is followed without gaps, up to the first response that is returned.\<close>

lemma first_returned_prefix:
  "first_returned ex client qs sent = (res, sent') \<Longrightarrow>
   \<exists>k \<le> length qs. sent' = sent @ take k qs \<and> (res = None \<longrightarrow> k = length qs)"
proof (induction ex client qs sent rule: first_returned.induct)
  case (2 ex client req up qs sent)
  obtain resp err where e: "ex client sent req up = (resp, err)" by fastforce
  show ?case
  proof (cases "returns_response resp err")
    case True
    then show ?thesis
      using 2(2) e by (intro exI[of _ 1]) (auto simp: Let_def)
  next
    case False
    with 2(1)[OF e[symmetric] refl refl] 2(2) e obtain k where "k \<le> length qs"
      "sent' = (sent @ [(req, up)]) @ take k qs" "res = None \<longrightarrow> k = length qs"
      by (auto simp: Let_def)
    then show ?thesis
      by (intro exI[of _ "Suc k"]) simp
  qed
qed simp

lemma first_returned_response:
  "first_returned ex client qs sent = (Some resp, sent') \<Longrightarrow>
   \<exists>before req up err. sent' = before @ [(req, up)] \<and> ex client before req up = (resp, err) \<and>
     returns_response resp err"
  by (induction ex client qs sent rule: first_returned.induct)
    (auto simp: Let_def split: prod.splits if_splits)

definition follow ::
  "exchange \<Rightarrow> dns_client \<Rightarrow> dns_msg list \<Rightarrow> rotating_upstream \<times> query list \<Rightarrow>
   dns_msg option option go \<times> rotating_upstream \<times> query list" where
  "follow ex client reqs st =
     (let (res, sent) = first_returned ex client (schedule (fst st) reqs) (snd st) in
      (Ret res, advance (length sent - length (snd st)) (fst st), sent))"

lemma ask_upstreams_follow:
  "rotate_ok (fst st) \<Longrightarrow> ask_upstreams ex client n req st = follow ex client (replicate n req) st"
proof (induction n arbitrary: st)
  case (Suc n)
  obtain ro sent where st: "st = (ro, sent)" by fastforce
  obtain resp err where e: "ex client sent req (turn ro 0) = (resp, err)" by fastforce
  obtain res sent' where f: "first_returned ex client (schedule (advance 1 ro) (replicate n req))
    (sent @ [(req, turn ro 0)]) = (res, sent')" by fastforce
  have "length sent < length sent'"
    using first_returned_prefix[OF f] by auto
  then show ?case
    using Suc rotate_next_ok[of ro] e f by (simp add: st follow_def Let_def Suc_diff_Suc)
qed (simp add: follow_def split: prod.splits)

lemma follow_append:
  assumes "rotate_ok (fst st)"
  shows "follow ex client (as @ bs) st =
    (case follow ex client as st of (Ret None, st') \<Rightarrow> follow ex client bs st' | res \<Rightarrow> res)"
proof -
  obtain ro sent where st: "st = (ro, sent)" by fastforce
  obtain res sent' where f: "first_returned ex client (schedule ro as) sent = (res, sent')" by fastforce
  obtain k where k: "k \<le> length as" "sent' = sent @ take k (schedule ro as)" "res = None \<longrightarrow> k = length as"
    using first_returned_prefix[OF f] by auto
  show ?thesis
  proof (cases res)
    case None
    obtain res2 sent2 where f2: "first_returned ex client (schedule (advance (length as) ro) bs) sent' = (res2, sent2)"
      by fastforce
    have "length sent2 \<ge> length sent'"
      using first_returned_prefix[OF f2] by auto
    then show ?thesis
      using assms None f f2 k by (simp add: st follow_def schedule_append first_returned_append)
  next
    case (Some r)
    then show ?thesis
      using assms f by (simp add: st follow_def schedule_append first_returned_append)
  qed
qed

lemma ask_domains_follow:
  "rotate_ok (fst st) \<Longrightarrow> ask_domains ex client n r ds st = follow ex client (requests_for r n ds) st"
proof (induction ds arbitrary: st)
  case (Cons d ds)
  have ok: "rotate_ok (fst st')" if "follow ex client reqs st = (x, st')" for reqs x st'
    using that Cons.prems by (auto simp: follow_def Let_def split: prod.splits)
  have "requests_for r n (d # ds) = replicate n (set_qname d r) @ requests_for r n ds"
    by (simp add: requests_for_def)
  with Cons ok show ?case
    by (auto simp: ask_upstreams_follow follow_append split: go.splits option.splits prod.splits)
qed (simp add: follow_def requests_for_def split: prod.splits)

section \<open>Properties of a forwarded query\<close>

definition query_schedule :: "proxy \<Rightarrow> dns_msg \<Rightarrow> query list" where
  "query_schedule p r = schedule (px_rotate p)
     (requests_for r (nat (rc_attempts (px_config p))) (expand_query p (q_name (hd (m_question r)))))"

lemma handle_dns_follow:
  assumes "rotate_ok (px_rotate p)" and "m_question r \<noteq> []"
  shows "handle_dns ex tcp (Some p) r =
    (let (res, sent) = first_returned ex (query_client tcp p) (query_schedule p r) [] in
     (Ret (case res of None \<Rightarrow> None | Some resp \<Rightarrow> resp),
      Some (p\<lparr>px_rotate := advance (length sent) (px_rotate p)\<rparr>), sent))"
proof -
  obtain q qs where "m_question r = q # qs"
    using assms(2) by (cases "m_question r") auto
  then show ?thesis
    using assms(1) by (simp add: handle_dns_def ask_domains_follow follow_def query_schedule_def Let_def
        split: prod.splits option.splits)
qed

text \<open>
  C10. A forwarded query walks a fixed schedule: the names of the search list in order, each asked
  \<open>Attempts\<close> times, every query at the upstream whose turn it is in the rotation. It stops at the
  first response that is returned, and when none is, the whole schedule has been asked. The
  rotation goes on where it stopped.
\<close>

theorem handle_dns_schedule:
  assumes "rotate_ok (px_rotate p)" and "m_question r \<noteq> []"
    and "handle_dns ex tcp (Some p) r = (res, p', sent)"
  shows "\<exists>k \<le> length (query_schedule p r). sent = take k (query_schedule p r) \<and>
    p' = Some (p\<lparr>px_rotate := advance k (px_rotate p)\<rparr>) \<and>
    (res = Ret None \<and> k = length (query_schedule p r) \<or>
     (\<exists>resp err. k > 0 \<and> res = Ret resp \<and> returns_response resp err \<and>
        ex (query_client tcp p) (take (k - 1) (query_schedule p r))
          (fst (query_schedule p r ! (k - 1))) (snd (query_schedule p r ! (k - 1))) = (resp, err)))"
proof -
  let ?qs = "query_schedule p r"
  obtain found where f: "first_returned ex (query_client tcp p) ?qs [] = (found, sent)"
    and res: "res = Ret (case found of None \<Rightarrow> None | Some resp \<Rightarrow> resp)"
    and p': "p' = Some (p\<lparr>px_rotate := advance (length sent) (px_rotate p)\<rparr>)"
    using assms(3) unfolding handle_dns_follow[OF assms(1,2)] by (simp add: Let_def split: prod.splits)
  obtain k where k: "k \<le> length ?qs" "sent = take k ?qs" "found = None \<longrightarrow> k = length ?qs"
    using first_returned_prefix[OF f] by auto
  show ?thesis
  proof (cases found)
    case None
    then show ?thesis
      using k res p' by (intro exI[of _ k]) simp
  next
    case (Some resp)
    with f obtain before req up err where b: "sent = before @ [(req, up)]"
      "ex (query_client tcp p) before req up = (resp, err)" "returns_response resp err"
      using first_returned_response by blast
    then show ?thesis
      using k res p' Some take_eq_snoc[of k ?qs before "(req, up)"] by (intro exI[of _ k]) auto
  qed
qed

text \<open>Sample data: two upstreams, a search list and an environment where the first upstream fails.\<close>

definition sample_proxy :: "string list \<Rightarrow> proxy" where
  "sample_proxy ups = \<lparr>px_config = \<lparr>rc_ndots = 2, rc_search = [''prod.''], rc_timeout = 1, rc_attempts = 2,
       rc_upstream = ups\<rparr>,
     px_rotate = \<lparr>ru_servers = ups, ru_index = 0\<rparr>\<rparr>"

definition sample_query :: dns_msg where
  "sample_query = empty_msg\<lparr>m_question := [\<lparr>q_name = ''web.'', q_type = TypeA, q_class = ClassINET\<rparr>]\<rparr>"

definition sample_exchange :: exchange where
  "sample_exchange client sent req up =
     (if up = ''a:53'' then (None, Some (LibError ''i/o timeout'')) else (Some req, None))"

lemmas sample_recursor = sample_proxy_def sample_query_def sample_exchange_def empty_msg_def
  handle_dns_def expand_query_def query_client_def rotate_next_def set_qname_def returns_response_def
  count_char_def

lemma sample_forwarded:
  "handle_dns sample_exchange False (Some (sample_proxy [''a:53'', ''b:53''])) sample_query =
     (Ret (Some (set_qname ''web.prod.'' sample_query)), Some (sample_proxy [''a:53'', ''b:53'']),
      [(set_qname ''web.prod.'' sample_query, ''a:53''), (set_qname ''web.prod.'' sample_query, ''b:53'')])"
  by (simp add: sample_recursor add_quota_def has_suffix_def numeral_2_eq_2)

theorem handle_dns_schedule_witness:
  "\<exists>k \<le> 2. k = length (snd (snd (handle_dns sample_exchange False
     (Some (sample_proxy [''a:53'', ''b:53''])) sample_query))) \<and> 0 < k"
proof -
  let ?p = "sample_proxy [''a:53'', ''b:53'']"
  have ok: "rotate_ok (px_rotate ?p)" "m_question sample_query \<noteq> []"
    by (simp_all add: rotate_ok_def sample_proxy_def sample_query_def)
  have "length (query_schedule ?p sample_query) = 2"
    by (simp add: query_schedule_def requests_for_def sample_proxy_def expand_query_def
        sample_query_def count_char_def)
  with handle_dns_schedule[OF ok sample_forwarded] show ?thesis
    by (auto simp: sample_forwarded)
qed

subsection \<open>Complete fall-back\<close>

text \<open>What \<open>BuildProxy\<close> makes of a configuration and every query keeps.\<close>

definition proxy_ok :: "proxy \<Rightarrow> bool" where
  "proxy_ok p \<longleftrightarrow> ru_servers (px_rotate p) = rc_upstream (px_config p) \<and>
     int (length (rc_upstream (px_config p))) \<le> rc_attempts (px_config p) \<and>
     (rc_upstream (px_config p) \<noteq> [] \<longrightarrow> rotate_ok (px_rotate p))"

lemma init_proxy_ok:
  assumes "init_recurse_config is_file from_file b timeout ns = Inr c" and "build_proxy c = Some p"
  shows "proxy_ok p"
proof -
  obtain d where d: "c = Some d" "p = \<lparr>px_config = d, px_rotate = \<lparr>ru_servers = rc_upstream d, ru_index = 0\<rparr>\<rparr>"
    using assms(2) by (cases c) (auto simp: build_proxy_def)
  have "int (length (rc_upstream d)) \<le> rc_attempts d"
    using assms(1) d(1) by (auto simp: init_recurse_config_def fill_by_resolv_config_def get_bigger_def
        Let_def split: if_splits sum.splits prod.splits)
  then show ?thesis
    by (auto simp: proxy_ok_def rotate_ok_def d(2))
qed

lemma ask_upstreams_empty:
  "ru_servers (fst st) = [] \<Longrightarrow> ask_upstreams ex cl n req st =
     (if n = 0 then Ret None else Panic IndexOutOfRange, st)"
  by (cases n; cases st) (simp_all add: rotate_next_def)

lemma ask_domains_empty:
  "ru_servers (fst st) = [] \<Longrightarrow> ask_domains ex cl n r ds st =
     (if n = 0 \<or> ds = [] then Ret None else Panic IndexOutOfRange, st)"
proof (induction ds)
  case (Cons d ds)
  then show ?case
    by (cases "n = 0") (simp_all add: ask_upstreams_empty)
qed simp

lemma handle_dns_empty:
  assumes "proxy_ok p" and "rc_upstream (px_config p) = []" and "m_question r \<noteq> []"
  shows "handle_dns ex tcp (Some p) r =
    (if rc_attempts (px_config p) \<le> 0 \<or> expand_query p (q_name (hd (m_question r))) = []
     then Ret None else Panic IndexOutOfRange, Some p, [])"
  using assms by (cases "m_question r") (auto simp: handle_dns_def proxy_ok_def ask_domains_empty Let_def)

lemma handle_dns_proxy_ok:
  assumes "proxy_ok p" and "handle_dns ex tcp (Some p) r = (res, Some p', sent)"
  shows "proxy_ok p' \<and> px_config p' = px_config p"
proof (cases "m_question r = [] \<or> rc_upstream (px_config p) = []")
  case True
  then show ?thesis
    using assms handle_dns_empty[OF assms(1), of r ex tcp] by (cases "m_question r = []") (auto simp: handle_dns_def)
next
  case False
  then have "rotate_ok (px_rotate p)"
    using assms(1) by (simp add: proxy_ok_def)
  with False assms show ?thesis
    by (auto simp: handle_dns_follow proxy_ok_def Let_def split: prod.splits)
qed

lemma schedule_all_upstreams:
  assumes "rotate_ok ro" and "length (ru_servers ro) \<le> n" and "u \<in> set (ru_servers ro)"
  shows "(req, u) \<in> set (schedule ro (replicate n req))"
proof -
  let ?len = "length (ru_servers ro)"
  obtain i where i: "i < ?len" "u = ru_servers ro ! i"
    using assms(3) by (auto simp: in_set_conv_nth)
  define k where "k = (i + ?len - ru_index ro) mod ?len"
  have "(ru_index ro + k) mod ?len = i"
    using i(1) assms(1) by (simp add: k_def rotate_ok_def mod_add_right_eq)
  moreover have "k < ?len"
    unfolding k_def by (rule mod_less_divisor) (use i(1) in linarith)
  then have "k < n"
    using assms(2) by simp
  ultimately show ?thesis
    using i(2) by (force simp: schedule_def turn_def)
qed

lemma schedule_all_domains:
  assumes "rotate_ok ro" and "length (ru_servers ro) \<le> n" and "u \<in> set (ru_servers ro)" and "d \<in> set ds"
  shows "(set_qname d r, u) \<in> set (schedule ro (requests_for r n ds))"
  using assms
proof (induction ds arbitrary: ro)
  case (Cons e ds)
  have "requests_for r n (e # ds) = replicate n (set_qname e r) @ requests_for r n ds"
    by (simp add: requests_for_def)
  with Cons schedule_all_upstreams[OF Cons.prems(1-3)] show ?case
    by (cases "d = e") (auto simp: schedule_append)
qed simp

text \<open>
  C11. When the recursor has no reply (and no exchange gave a nil response without an error), it has
  asked every upstream for every name of the expanded query.
\<close>

theorem handle_dns_asks_everyone:
  assumes "proxy_ok p" and "m_question r \<noteq> []"
    and "\<forall>client before req up. ex client before req up \<noteq> (None, None)"
    and "handle_dns ex tcp (Some p) r = (Ret None, p', sent)"
  shows "\<forall>u \<in> set (rc_upstream (px_config p)). \<forall>d \<in> set (expand_query p (q_name (hd (m_question r)))).
    (set_qname d r, u) \<in> set sent"
proof (cases "rc_upstream (px_config p) = []")
  case False
  then have ok: "rotate_ok (px_rotate p)"
    and n: "length (ru_servers (px_rotate p)) \<le> nat (rc_attempts (px_config p))"
    and s: "ru_servers (px_rotate p) = rc_upstream (px_config p)"
    using assms(1) by (auto simp: proxy_ok_def)
  obtain found where f: "first_returned ex (query_client tcp p) (query_schedule p r) [] = (found, sent)"
    and res: "(case found of None \<Rightarrow> None | Some resp \<Rightarrow> resp) = None"
    using assms(4) unfolding handle_dns_follow[OF ok assms(2)] by (auto simp: Let_def split: prod.splits)
  have "found \<noteq> Some None"
    using first_returned_response[of ex "query_client tcp p" _ "[]" None sent] assms(3) f
    by (auto simp: returns_response_def)
  then have "sent = query_schedule p r"
    using first_returned_prefix[OF f] res by (auto split: option.splits)
  then show ?thesis
    using schedule_all_domains[OF ok n] by (simp add: query_schedule_def s)
qed simp

theorem handle_dns_asks_everyone_witness:
  "let ex = (\<lambda>client sent req up. (None, Some (LibError ''i/o timeout'')));
       sent = snd (snd (handle_dns ex True (Some (sample_proxy [''a:53'', ''b:53''])) sample_query))
   in (set_qname ''web.prod.'' sample_query, ''b:53'') \<in> set sent"
proof -
  let ?ex = "(\<lambda>client sent req up. (None, Some (LibError ''i/o timeout''))) :: exchange"
  let ?p = "sample_proxy [''a:53'', ''b:53'']"
  have 1: "proxy_ok ?p" "m_question sample_query \<noteq> []"
    "\<forall>client before req up. ?ex client before req up \<noteq> (None, None)"
    by (simp_all add: proxy_ok_def rotate_ok_def sample_proxy_def sample_query_def)
  obtain p' sent where h: "handle_dns ?ex True (Some ?p) sample_query = (Ret None, p', sent)"
    by (simp add: sample_recursor numeral_2_eq_2)
  have "expand_query ?p (q_name (hd (m_question sample_query))) = [''web.prod.'']"
    by (simp add: sample_proxy_def sample_query_def expand_query_def count_char_def add_quota_def has_suffix_def)
  with handle_dns_asks_everyone[OF 1 h] show ?thesis
    using h by (simp add: sample_proxy_def)
qed

subsection \<open>What is returned, what panics, what is never asked\<close>

text \<open>
  C37. A response the recursor returns came back from the last exchange, its code is NOERROR or
  NXDOMAIN, and the exchange had no error or the response is truncated.
\<close>

theorem handle_dns_response:
  assumes "proxy_ok p" and "handle_dns ex tcp (Some p) r = (Ret (Some m), p', sent)"
  shows "(m_rcode m = RcodeSuccess \<or> m_rcode m = RcodeNameError) \<and>
    (\<exists>before req up err. sent = before @ [(req, up)] \<and> up \<in> set (rc_upstream (px_config p)) \<and>
       ex (query_client tcp p) before req up = (Some m, err) \<and> (err = None \<or> m_truncated m))"
proof -
  have ne1: "m_question r \<noteq> []"
    using assms(2) by (cases "m_question r") (simp_all add: handle_dns_def)
  moreover have "rc_upstream (px_config p) \<noteq> []"
    using assms(2) handle_dns_empty[OF assms(1) _ ne1, of ex tcp] by (auto split: if_splits)
  ultimately have ne: "m_question r \<noteq> []" "rc_upstream (px_config p) \<noteq> []" by simp_all
  then have ok: "rotate_ok (px_rotate p)" "ru_servers (px_rotate p) = rc_upstream (px_config p)"
    using assms(1) by (auto simp: proxy_ok_def)
  have f: "first_returned ex (query_client tcp p) (query_schedule p r) [] = (Some (Some m), sent)"
    using assms(2) unfolding handle_dns_follow[OF ok(1) ne(1)]
    by (auto simp: Let_def split: prod.splits option.splits)
  obtain before req up err where b: "sent = before @ [(req, up)]"
      "ex (query_client tcp p) before req up = (Some m, err)" "returns_response (Some m) err"
    using first_returned_response[OF f] by blast
  have "set sent \<subseteq> set (query_schedule p r)"
    using first_returned_prefix[OF f] by (auto dest: in_set_takeD)
  then have "(req, up) \<in> set (query_schedule p r)"
    using b(1) by auto
  moreover have "ru_servers (px_rotate p) ! (j mod length (ru_servers (px_rotate p))) \<in> set (ru_servers (px_rotate p))" for j
    using ne(2) ok(2) by (intro nth_mem mod_less_divisor) simp
  ultimately have "up \<in> set (rc_upstream (px_config p))"
    using ok(2) by (auto simp: query_schedule_def schedule_def turn_def)
  with b show ?thesis
    by (auto simp: returns_response_def split: if_splits)
qed

theorem handle_dns_response_witness:
  "m_rcode (set_qname ''web.prod.'' sample_query) = 0 \<or> m_rcode (set_qname ''web.prod.'' sample_query) = 3"
proof -
  have "proxy_ok (sample_proxy [''a:53'', ''b:53''])"
    by (simp add: proxy_ok_def rotate_ok_def sample_proxy_def)
  from handle_dns_response[OF this sample_forwarded] show ?thesis by simp
qed

text \<open>
  The recursor panics on a query with a question exactly when it has no upstream and something to ask
  (a positive number of attempts and a non-empty list of names).
\<close>

theorem handle_dns_panics_iff:
  assumes "proxy_ok p" and "m_question r \<noteq> []"
  shows "(\<exists>e. fst (handle_dns ex tcp (Some p) r) = Panic e) \<longleftrightarrow>
    rc_upstream (px_config p) = [] \<and> rc_attempts (px_config p) > 0 \<and>
    expand_query p (q_name (hd (m_question r))) \<noteq> []"
proof (cases "rc_upstream (px_config p) = []")
  case True
  then show ?thesis
    using handle_dns_empty[OF assms(1) True assms(2), of ex tcp] by auto
next
  case False
  then have "rotate_ok (px_rotate p)"
    using assms(1) by (simp add: proxy_ok_def)
  with False show ?thesis
    using handle_dns_follow[OF _ assms(2), of p ex tcp] by (simp add: Let_def split: prod.splits)
qed

text \<open>The witness: a sidecar that binds the loopback address of a host whose only name server it is.\<close>

theorem handle_dns_panics_iff_witness:
  "\<exists>c p. init_recurse_config True (Inr \<lparr>cc_servers = [''127.0.0.1''], cc_search = [], cc_ndots = 0,
       cc_timeout = 5, cc_attempts = 2\<rparr>) True 1 [] = Inr c \<and> build_proxy c = Some p \<and>
     (\<exists>e. fst (handle_dns sample_exchange False (Some p) sample_query) = Panic e)"
proof -
  let ?dns = "\<lparr>cc_servers = [''127.0.0.1''], cc_search = [], cc_ndots = 0, cc_timeout = 5, cc_attempts = 2\<rparr>"
  let ?c = "\<lparr>rc_ndots = 1, rc_search = [], rc_timeout = 5, rc_attempts = 2, rc_upstream = []\<rparr>"
  have c: "init_recurse_config True (Inr ?dns) True 1 [] = Inr (Some ?c)"
    by (simp add: init_recurse_config_def need_skip_def get_bigger_def fill_by_resolv_config_def Let_def)
  obtain p where p: "build_proxy (Some ?c) = Some p" "px_config p = ?c"
    by (simp add: build_proxy_def)
  have "m_question sample_query \<noteq> []" "expand_query p (q_name (hd (m_question sample_query))) \<noteq> []"
    by (simp_all add: sample_query_def expand_query_def p(2) count_char_def)
  then have "\<exists>e. fst (handle_dns sample_exchange False (Some p) sample_query) = Panic e"
    using handle_dns_panics_iff[OF init_proxy_ok[OF c p(1)]] p(2) by simp
  with c p(1) show ?thesis by blast
qed

text \<open>
  A name with fewer dots than \<open>ndots\<close> is only tried below the search domains: no upstream is
  ever asked for the name itself.
\<close>

theorem short_names_only_searched:
  assumes "proxy_ok p" and "m_question r \<noteq> []"
    and "int (count_char CHR ''.'' (q_name (hd (m_question r)))) < rc_ndots (px_config p)"
    and "[] \<notin> set (rc_search (px_config p))"
    and "(req, up) \<in> set (snd (snd (handle_dns ex tcp (Some p) r)))"
  shows "q_name (hd (m_question req)) \<noteq> q_name (hd (m_question r))"
proof -
  have ne: "rc_upstream (px_config p) \<noteq> []"
    using assms(5) handle_dns_empty[OF assms(1) _ assms(2), of ex tcp] by auto
  then have ok: "rotate_ok (px_rotate p)"
    using assms(1) by (simp add: proxy_ok_def)
  have "(req, up) \<in> set (query_schedule p r)"
    using assms(5) unfolding handle_dns_follow[OF ok assms(2)]
    by (auto simp: Let_def dest!: first_returned_prefix in_set_takeD split: prod.splits)
  then have "req \<in> set (requests_for r (nat (rc_attempts (px_config p)))
      (expand_query p (q_name (hd (m_question r)))))"
    by (auto simp: query_schedule_def schedule_def)
  then obtain sfx where "sfx \<in> set (rc_search (px_config p))"
    and q: "q_name (hd (m_question req)) = add_quota (q_name (hd (m_question r)) @ sfx)"
    using assms(3) by (auto simp: requests_for_def expand_query_def set_qname_def)
  then have "length (q_name (hd (m_question r))) < length (q_name (hd (m_question req)))"
    using assms(4) by (cases sfx) (auto simp: add_quota_def)
  then show ?thesis by force
qed

theorem short_names_only_searched_witness:
  "q_name (hd (m_question (set_qname ''web.prod.'' sample_query))) \<noteq> q_name (hd (m_question sample_query))"
  using short_names_only_searched[of "sample_proxy [''a:53'', ''b:53'']" sample_query
      "set_qname ''web.prod.'' sample_query" "''b:53''" sample_exchange False]
  by (simp add: sample_forwarded proxy_ok_def rotate_ok_def) (simp add: sample_proxy_def sample_query_def count_char_def)

end
