(* ===== verification/Resolver.thy ===== *)
theory Resolver
  imports DnsAgent MeshProxy Recursor
begin

text \<open>
  The DNS server of \<open>src/internal/resolver\<close>: the registry of plugins, the construction of the
  server with its plugins (\<open>server.go\<close>) and the handler of a query (\<open>handler.go\<close>).
\<close>

section \<open>The plugin registry\<close>

text \<open>
  The plugins are objects shared by reference: the registry maps a name to the object, everything
  else holds names.
\<close>

datatype plugin = PlugAgent resolver_discovery | PlugMesh resolver_mesh

type_synonym plugin_store = "string \<rightharpoonup> plugin"

primrec plugin_name :: "plugin \<Rightarrow> string" where
  "plugin_name (PlugAgent r) = PluginNameDnsAgent"
| "plugin_name (PlugMesh r) = PluginNameMeshProxy"

definition register :: "plugin \<Rightarrow> plugin_store \<Rightarrow> plugin_store" where
  "register p resolvers = resolvers(plugin_name p \<mapsto> p)"

definition name_resolver :: "string \<Rightarrow> plugin_store \<Rightarrow> plugin option" where
  "name_resolver nm resolvers = resolvers nm"

text \<open>The zero values \<open>&resolverDiscovery{}\<close> and \<open>&resolverMesh{}\<close>, and the two \<open>init\<close> functions.\<close>

definition zero_agent :: resolver_discovery where
  "zero_agent = \<lparr>rd_consumer = None, rd_suffix = [], rd_dns_ttl = 0, rd_config = None, rd_namespace = []\<rparr>"

definition zero_mesh :: resolver_mesh where
  "zero_mesh = \<lparr>rm_local = None, rm_config = None, rm_registry = None, rm_suffix = [], rm_consumer = False\<rparr>"

definition initial_plugins :: plugin_store where
  "initial_plugins = register (PlugMesh zero_mesh) (register (PlugAgent zero_agent) Map.empty)"

text \<open>The calls of the interface \<open>NamingResolver\<close> on a plugin.\<close>

definition plugin_initialize ::
  "go_error + consumer_api \<Rightarrow> config_entry \<Rightarrow> plugin \<Rightarrow> plugin \<times> go_error option" where
  "plugin_initialize get_consumer c p =
     (case p of
        PlugAgent r \<Rightarrow> map_prod PlugAgent id (dnsagent_initialize get_consumer c r)
      | PlugMesh r \<Rightarrow> map_prod PlugMesh id
          (mesh_initialize (case get_consumer of Inl e \<Rightarrow> Some e | Inr api \<Rightarrow> None) c r))"

definition plugin_serve ::
  "dns_lib \<Rightarrow> string \<Rightarrow> plugin \<Rightarrow> question \<Rightarrow> string \<Rightarrow> dns_msg option go" where
  "plugin_serve L server_ns p question qname =
     (case p of
        PlugAgent r \<Rightarrow> dnsagent_serve L server_ns r question qname
      | PlugMesh r \<Rightarrow> mesh_serve r question qname)"

section \<open>Building the server\<close>

record resolver_config =
  rv_bind_ip :: string
  rv_bind_port :: u32
  rv_resolvers :: "config_entry list"

text \<open>
  The loop of \<open>NewServer\<close>. The result is an error or the names of the resolvers, with the registry
  after the calls and the resolvers destroyed on the way.
\<close>

fun init_resolvers ::
  "go_error + consumer_api \<Rightarrow> config_entry list \<Rightarrow> string list \<Rightarrow> plugin_store \<Rightarrow>
   (go_error + string list) \<times> plugin_store \<times> string list" where
  "init_resolvers get_consumer [] naming_resolvers store = (Inr naming_resolvers, store, [])"
| "init_resolvers get_consumer (cfg # cfgs) naming_resolvers store =
     (if \<not> ce_enable cfg then init_resolvers get_consumer cfgs naming_resolvers store
      else (case name_resolver (ce_name cfg) store of
              None \<Rightarrow> (Inl (Errorf ''fail to lookup resolver %s, consider it's not registered'' [ce_name cfg]),
                       store, [])
            | Some handler \<Rightarrow>
                let (handler', err) = plugin_initialize get_consumer cfg handler;
                    store' = store(ce_name cfg \<mapsto> handler') in
                (case err of
                   Some e \<Rightarrow> (Inl e, store', naming_resolvers)
                 | None \<Rightarrow> init_resolvers get_consumer cfgs (naming_resolvers @ [ce_name cfg]) store')))"

text \<open>A handler keeps the resolvers; the proxy is one object shared by both handlers.\<close>

record dns_handler =
  dh_protocol :: string
  dh_resolvers :: "string list"

record dns_server =
  ds_addr :: string
  ds_net :: string
  ds_handler :: dns_handler

record server =
  sv_dns_servers :: "dns_server list"
  sv_resolvers :: "string list"
  sv_destroyed :: bool

definition new_server ::
  "go_error + consumer_api \<Rightarrow> resolver_config \<Rightarrow> recurse_config option \<Rightarrow> plugin_store \<Rightarrow>
   (go_error + server \<times> proxy option) \<times> plugin_store \<times> string list" where
  "new_server get_consumer conf recurse_conf store =
     (case init_resolvers get_consumer (rv_resolvers conf) [] store of
        (Inl e, store', destroyed) \<Rightarrow> (Inl e, store', destroyed)
      | (Inr naming_resolvers, store', destroyed) \<Rightarrow>
          let recurse_proxy = build_proxy recurse_conf;
              addr = rv_bind_ip conf @ '':'' @ nat_str (unat (rv_bind_port conf));
              udp = \<lparr>ds_addr = addr, ds_net = UdpProtocol,
                     ds_handler = \<lparr>dh_protocol = UdpProtocol, dh_resolvers = naming_resolvers\<rparr>\<rparr>;
              tcp = \<lparr>ds_addr = addr, ds_net = TcpProtocol,
                     ds_handler = \<lparr>dh_protocol = TcpProtocol, dh_resolvers = naming_resolvers\<rparr>\<rparr>
          in (Inr (\<lparr>sv_dns_servers = [udp, tcp], sv_resolvers = naming_resolvers, sv_destroyed = False\<rparr>,
                   recurse_proxy), store', destroyed))"

text \<open>\<open>Destroy\<close>, guarded by \<open>sync.Once\<close>: what is shut down, in order.\<close>

datatype server_event = ShutdownDns dns_server | DestroyResolver string

definition server_destroy :: "server \<Rightarrow> server \<times> server_event list" where
  "server_destroy svr =
     (if sv_destroyed svr then (svr, [])
      else (svr\<lparr>sv_destroyed := True\<rparr>,
            map ShutdownDns (sv_dns_servers svr) @ map DestroyResolver (sv_resolvers svr)))"

section \<open>Handling a query\<close>

text \<open>The loop of \<open>Preprocess\<close> over the search domains.\<close>

fun strip_search :: "string list \<Rightarrow> string \<Rightarrow> string" where
  "strip_search [] qname = qname"
| "strip_search (search_name # search) qname =
     (let search_name = (if \<not> has_suffix search_name ''.'' then search_name @ ''.'' else search_name) in
      if has_suffix qname search_name then
        let processed = take (length qname - length search_name) qname in
        if processed = [] then qname else processed
      else strip_search search qname)"

definition preprocess :: "proxy option \<Rightarrow> string \<Rightarrow> string" where
  "preprocess px qname =
     (case px of
        None \<Rightarrow> qname
      | Some p \<Rightarrow>
          if length (rc_search (px_config p)) = 0 then qname
          else strip_search (rc_search (px_config p)) qname)"

definition can_do_resolve :: "u16 \<Rightarrow> bool" where
  "can_do_resolve qtype =
     (if qtype = TypeA then True
      else if qtype = TypeAAAA then True
      else if qtype = TypeSRV then True
      else False)"

text \<open>
  \<open>ServeDNS\<close> up to its deferred function: the messages sent (or a panic), the proxy afterwards and the
  queries sent upstream. \<open>remote_tcp\<close> is whether the client's address is a TCP address.
\<close>

definition serve_dns_body ::
  "dns_lib \<Rightarrow> string \<Rightarrow> exchange \<Rightarrow> plugin_store \<Rightarrow> dns_handler \<Rightarrow> bool \<Rightarrow> proxy option \<Rightarrow> dns_msg \<Rightarrow>
   dns_msg list go \<times> proxy option \<times> query list" where
  "serve_dns_body L server_ns ex store d remote_tcp px req =
     (case m_question req of
        [] \<Rightarrow> (Ret (write_dns_code L (dh_protocol d) req RcodeRefused []), px, [])
      | question # _ \<Rightarrow>
          (case (if can_do_resolve (q_type question)
                 then first_reply (plugin_serve L server_ns) (List.map_filter store (dh_resolvers d)) question
                        (preprocess px (q_name question))
                 else Ret None) of
             Panic e \<Rightarrow> (Panic e, px, [])
           | Ret (Some resp) \<Rightarrow> (Ret (write_dns_response L (dh_protocol d) req resp []), px, [])
           | Ret None \<Rightarrow>
               (case handle_dns ex remote_tcp px req of
                  (Panic e, px', sent) \<Rightarrow> (Panic e, px', sent)
                | (Ret (Some resp), px', sent) \<Rightarrow>
                    (Ret (write_dns_response L (dh_protocol d) req resp []), px', sent)
                | (Ret None, px', sent) \<Rightarrow>
                    (Ret (write_dns_code L (dh_protocol d) req RcodeServerFailure []), px', sent))))"

text \<open>With the deferred \<open>recover\<close>: a panic ends in a log line and no message.\<close>

definition serve_dns ::
  "dns_lib \<Rightarrow> string \<Rightarrow> exchange \<Rightarrow> plugin_store \<Rightarrow> dns_handler \<Rightarrow> bool \<Rightarrow> proxy option \<Rightarrow> dns_msg \<Rightarrow>
   dns_msg list \<times> proxy option \<times> query list" where
  "serve_dns L server_ns ex store d remote_tcp px req =
     (case serve_dns_body L server_ns ex store d remote_tcp px req of
        (Ret sent, px', queries) \<Rightarrow> (sent, px', queries)
      | (Panic e, px', queries) \<Rightarrow> ([], px', queries))"

section \<open>Serving as the plugins promise\<close>

lemma plugin_reply_ok: "plugin_serve L server_ns p q qname = Ret (Some m) \<Longrightarrow> reply_ok q m"
  by (auto simp: plugin_serve_def split: plugin.splits
      intro: dnsagent.serve_reply_ok meshproxy.serve_reply_ok)

interpretation plugins: naming_resolver "plugin_serve L server_ns" for L server_ns
  by unfold_locales (rule plugin_reply_ok)

text \<open>The message a query is answered with, by the three ways through the handler.\<close>

lemma serve_dns_cases:
  assumes "serve_dns L server_ns ex store d tcp px req = (sent, px', queries)"
  obtains
    (panic) e where "fst (serve_dns_body L server_ns ex store d tcp px req) = Panic e" "sent = []"
  | (refused) "m_question req = []" "sent = [code_msg L (dh_protocol d) req RcodeRefused]"
  | (plugin) q qs resp where "m_question req = q # qs" "can_do_resolve (q_type q)"
      "first_reply (plugin_serve L server_ns) (List.map_filter store (dh_resolvers d)) q
         (preprocess px (q_name q)) = Ret (Some resp)"
      "sent = [response_msg L (dh_protocol d) req resp]" "queries = []"
  | (upstream) resp where "m_question req \<noteq> []" "handle_dns ex tcp px req = (Ret (Some resp), px', queries)"
      "sent = [response_msg L (dh_protocol d) req resp]"
  | (failed) "m_question req \<noteq> []" "handle_dns ex tcp px req = (Ret None, px', queries)"
      "sent = [code_msg L (dh_protocol d) req RcodeServerFailure]"
      "can_do_resolve (q_type (hd (m_question req))) \<longrightarrow>
         first_reply (plugin_serve L server_ns) (List.map_filter store (dh_resolvers d))
           (hd (m_question req)) (preprocess px (q_name (hd (m_question req)))) = Ret None"
  using assms
  by (auto simp: serve_dns_def serve_dns_body_def write_dns_code_eq write_dns_response_eq
      split: list.splits go.splits option.splits prod.splits if_splits)

section \<open>Properties of the handler\<close>

text \<open>
  C7. A query is answered with at most one message, and with none only when a panic was recovered.
  The message is the reply to the request: its identifier, its first question; its code is NOERROR, SERVFAIL or,
  exactly for a request without a question, REFUSED.
\<close>

theorem serve_dns_one_reply:
  assumes "set_reply_law L" "truncate_law L"
    and "serve_dns L server_ns ex store d tcp px req = (sent, px', queries)"
  shows "(sent = [] \<and> (\<exists>e. fst (serve_dns_body L server_ns ex store d tcp px req) = Panic e)) \<or>
    (\<exists>m. sent = [m] \<and> m_id m = m_id req \<and> m_response m \<and>
       m_rcode m \<in> {RcodeSuccess, RcodeServerFailure, RcodeRefused} \<and>
       (m_rcode m = RcodeRefused \<longleftrightarrow> m_question req = []) \<and>
       (m_question req \<noteq> [] \<longrightarrow> m_question m = [hd (m_question req)]))"
  using assms(3)
  by (rule serve_dns_cases)
    (simp_all add: code_msg_header[OF assms(1,2)] response_msg_header[OF assms(1,2)])

definition sample_handler :: "string list \<Rightarrow> dns_handler" where
  "sample_handler hs = \<lparr>dh_protocol = UdpProtocol, dh_resolvers = hs\<rparr>"

theorem serve_dns_one_reply_witness:
  "\<exists>m. fst (serve_dns sample_lib ''Polaris'' sample_exchange initial_plugins (sample_handler []) False
     (Some (sample_proxy [''a:53'', ''b:53''])) sample_query) = [m] \<and> m_id m = 0 \<and> m_response m"
proof -
  let ?r = "serve_dns sample_lib ''Polaris'' sample_exchange initial_plugins (sample_handler []) False
     (Some (sample_proxy [''a:53'', ''b:53''])) sample_query"
  have b: "\<exists>sent. fst (serve_dns_body sample_lib ''Polaris'' sample_exchange initial_plugins (sample_handler []) False
     (Some (sample_proxy [''a:53'', ''b:53''])) sample_query) = Ret sent"
  proof -
    have "m_question sample_query = [\<lparr>q_name = ''web.'', q_type = TypeA, q_class = ClassINET\<rparr>]"
      by (simp add: sample_query_def)
    then show ?thesis
      by (simp add: serve_dns_body_def sample_forwarded sample_handler_def map_filter_simps can_do_resolve_def)
  qed
  obtain sent px' queries where r: "?r = (sent, px', queries)" by (cases ?r)
  have "m_id sample_query = 0"
    by (simp add: sample_query_def empty_msg_def)
  with serve_dns_one_reply[OF sample_lib_laws(1,2) r] b show ?thesis
    by (auto simp: r)
qed

text \<open>
  C18. A reply of the plugins goes to the client without any upstream query; it comes from the first
  plugin that has one, every record of its answer section is owned by the name
  asked for and has the type asked for, and it has an OPT record exactly when the request has one.
\<close>

theorem serve_dns_plugin_reply:
  assumes "set_reply_law L" "truncate_law L" and "m_question req = q # qs" and "can_do_resolve (q_type q)"
    and "first_reply (plugin_serve L server_ns) (List.map_filter store (dh_resolvers d)) q
           (preprocess px (q_name q)) = Ret (Some resp)"
  shows "\<exists>m pre p post. serve_dns L server_ns ex store d tcp px req = ([m], px, []) \<and>
    List.map_filter store (dh_resolvers d) = pre @ p # post \<and>
    (\<forall>g \<in> set pre. plugin_serve L server_ns g q (preprocess px (q_name q)) = Ret None) \<and>
    plugin_serve L server_ns p q (preprocess px (q_name q)) = Ret (Some resp) \<and>
    set (m_answer m) \<subseteq> set (m_answer resp) \<and>
    (\<forall>rr. Some rr \<in> set (m_answer m) \<longrightarrow> h_name (rr_hdr rr) = q_name q \<and> h_rrtype (rr_hdr rr) = q_type q) \<and>
    opt_count (m_extra m) = (if lib_is_edns0 L req = None then 0 else 1)"
proof -
  obtain pre p post where p: "List.map_filter store (dh_resolvers d) = pre @ p # post"
    "plugin_serve L server_ns p q (preprocess px (q_name q)) = Ret (Some resp)"
    "\<forall>g \<in> set pre. plugin_serve L server_ns g q (preprocess px (q_name q)) = Ret None"
    using plugins.first_reply_source[OF assms(5)] by blast
  have "m_extra resp = []"
    using plugins.first_reply_ok[OF assms(5)] by (simp add: reply_ok_def)
  then have "opt_count (m_extra (response_msg L (dh_protocol d) req resp)) =
      (if lib_is_edns0 L req = None then 0 else 1)"
    by (simp add: response_msg_header(8)[OF assms(1,2)])
  moreover have "serve_dns L server_ns ex store d tcp px req = ([response_msg L (dh_protocol d) req resp], px, [])"
    using assms(3-5) by (simp add: serve_dns_def serve_dns_body_def write_dns_response_eq)
  ultimately show ?thesis
    using p plugins.written_answers(1)[OF assms(1,2,5)] response_msg_header(7)[OF assms(1,2)] by blast
qed

definition sample_store :: plugin_store where
  "sample_store = initial_plugins(''dnsagent'' \<mapsto> PlugAgent sample_agent)"

definition web_query :: dns_msg where
  "web_query = empty_msg\<lparr>m_id := 9, m_question := [sample_question TypeA ''web.prod.'']\<rparr>"

theorem serve_dns_plugin_reply_witness:
  "\<exists>m. serve_dns sample_lib ''Polaris'' sample_exchange sample_store (sample_handler [''dnsagent'']) False None
      web_query = ([m], None, []) \<and> opt_count (m_extra m) = 0"
proof -
  let ?q = "sample_question TypeA ''web.prod.''"
  have q: "m_question web_query = ?q # []" "can_do_resolve (q_type ?q)"
    by (simp_all add: web_query_def sample_question_def can_do_resolve_def)
  have store: "List.map_filter sample_store (dh_resolvers (sample_handler [''dnsagent''])) = [PlugAgent sample_agent]"
    by (simp add: sample_store_def sample_handler_def map_filter_simps)
  have "\<exists>resp. dnsagent_serve sample_lib ''Polaris'' sample_agent ?q ''web.prod.'' = Ret (Some resp)"
    using serve_instances[OF sample_web_name(1), where r = sample_agent and server_ns = "''Polaris''"
        and api = "\<lambda>req. if ir_service req = ''web'' then Inr [sample_instance] else Inr []"
        and ins = "[sample_instance]" and q = ?q] sample_web_name(2)
    by (simp add: sample_agent_def)
  then obtain resp where resp: "first_reply (plugin_serve sample_lib ''Polaris'')
      (List.map_filter sample_store (dh_resolvers (sample_handler [''dnsagent'']))) ?q
      (preprocess None (q_name ?q)) = Ret (Some resp)"
    unfolding store by (auto simp: plugin_serve_def preprocess_def sample_question_def)
  have "lib_is_edns0 sample_lib web_query = None"
    by (simp add: sample_lib_def web_query_def empty_msg_def)
  with serve_dns_plugin_reply[OF sample_lib_laws(1,2) q resp, of sample_exchange False] show ?thesis
    by auto
qed

text \<open>
  C19. SERVFAIL is the code exactly of the queries nobody answered: no plugin had a reply (or the type is not
  one they serve) and the recursor had none.
\<close>

theorem serve_dns_servfail_iff:
  assumes "set_reply_law L" "truncate_law L" and "m_question req = q # qs"
    and "serve_dns L server_ns ex store d tcp px req = ([m], px', queries)"
  shows "m_rcode m = RcodeServerFailure \<longleftrightarrow>
    (can_do_resolve (q_type q) \<longrightarrow> (\<forall>p \<in> set (List.map_filter store (dh_resolvers d)).
       plugin_serve L server_ns p q (preprocess px (q_name q)) = Ret None)) \<and>
    handle_dns ex tcp px req = (Ret None, px', queries)"
  using assms(4)
proof (rule serve_dns_cases)
  fix q' qs' resp
  assume plugin: "m_question req = q' # qs'" "can_do_resolve (q_type q')"
    "first_reply (plugin_serve L server_ns) (List.map_filter store (dh_resolvers d)) q'
         (preprocess px (q_name q')) = Ret (Some resp)"
    and m: "[m] = [response_msg L (dh_protocol d) req resp]"
  have "q' = q"
    using plugin(1) assms(3) by simp
  then have "\<not> (\<forall>p \<in> set (List.map_filter store (dh_resolvers d)).
       plugin_serve L server_ns p q (preprocess px (q_name q)) = Ret None)"
    using plugin(3) unfolding first_reply_None[symmetric] by simp
  moreover have "m_rcode m = RcodeSuccess"
    using m by (simp add: response_msg_header[OF assms(1,2)])
  ultimately show ?thesis
    using plugin(2) \<open>q' = q\<close> by simp
next
  assume "[m] = [code_msg L (dh_protocol d) req RcodeServerFailure]"
    and h: "handle_dns ex tcp px req = (Ret None, px', queries)"
    and silent: "can_do_resolve (q_type (hd (m_question req))) \<longrightarrow>
         first_reply (plugin_serve L server_ns) (List.map_filter store (dh_resolvers d))
           (hd (m_question req)) (preprocess px (q_name (hd (m_question req)))) = Ret None"
  then have "m_rcode m = RcodeServerFailure"
    by (simp add: code_msg_header[OF assms(1,2)])
  then show ?thesis
    using h silent unfolding first_reply_None assms(3) by simp
qed (use assms(3) in \<open>simp_all add: response_msg_header[OF assms(1,2)]\<close>)

theorem serve_dns_servfail_iff_witness:
  "\<exists>m. serve_dns sample_lib ''Polaris'' sample_exchange initial_plugins (sample_handler []) False None
      web_query = ([m], None, []) \<and> m_rcode m = 2"
proof -
  have r: "serve_dns sample_lib ''Polaris'' sample_exchange initial_plugins (sample_handler []) False None
      web_query = ([code_msg sample_lib UdpProtocol web_query RcodeServerFailure], None, [])"
    by (simp add: serve_dns_def serve_dns_body_def web_query_def sample_handler_def map_filter_simps
        handle_dns_def write_dns_code_eq)
  have "m_question web_query = sample_question TypeA ''web.prod.'' # []"
    by (simp add: web_query_def)
  from serve_dns_servfail_iff[OF sample_lib_laws(1,2) this r] r show ?thesis
    by (auto simp: sample_handler_def map_filter_simps handle_dns_def)
qed

text \<open>
  The code of an upstream response is lost: an NXDOMAIN the recursor returns reaches the client as
  a NOERROR message.
\<close>

theorem upstream_nxdomain_lost:
  assumes "set_reply_law L" "truncate_law L" and "m_question req = q # qs" and "\<not> can_do_resolve (q_type q)"
    and "handle_dns ex tcp px req = (Ret (Some resp), px', queries)" and "m_rcode resp = RcodeNameError"
  shows "\<exists>m. serve_dns L server_ns ex store d tcp px req = ([m], px', queries) \<and>
    m_rcode m = RcodeSuccess \<and> m_authoritative m"
  using assms
  by (intro exI[of _ "response_msg L (dh_protocol d) req resp"])
    (simp add: serve_dns_def serve_dns_body_def write_dns_response_eq response_msg_header)

definition txt_query :: dns_msg where
  "txt_query = empty_msg\<lparr>m_question := [\<lparr>q_name = ''a.b.c.'', q_type = 16, q_class = ClassINET\<rparr>]\<rparr>"

theorem upstream_nxdomain_lost_witness:
  "let ex = (\<lambda>client sent req up. (Some (req\<lparr>m_rcode := 3\<rparr>), None)) in
   \<exists>m px' queries. serve_dns sample_lib ''Polaris'' ex initial_plugins (sample_handler [''dnsagent'']) False
     (Some (sample_proxy [''a:53''])) txt_query = ([m], px', queries) \<and> m_rcode m = 0"
proof -
  let ?ex = "(\<lambda>client sent req up. (Some (req\<lparr>m_rcode := 3\<rparr>), None)) :: exchange"
  have q: "m_question txt_query = \<lparr>q_name = ''a.b.c.'', q_type = 16, q_class = ClassINET\<rparr> # []"
    by (simp add: txt_query_def)
  have t: "\<not> can_do_resolve (q_type \<lparr>q_name = ''a.b.c.'', q_type = 16, q_class = ClassINET\<rparr>)"
    by (simp add: can_do_resolve_def)
  obtain resp px' queries where h: "handle_dns ?ex False (Some (sample_proxy [''a:53''])) txt_query =
      (Ret (Some resp), px', queries)" and c: "m_rcode resp = RcodeNameError"
    by (simp add: txt_query_def sample_recursor numeral_2_eq_2)
  from upstream_nxdomain_lost[OF sample_lib_laws(1,2) q t h c, of "''Polaris''" initial_plugins "sample_handler [''dnsagent'']"]
  show ?thesis by auto
qed

section \<open>Search domains\<close>

lemma strip_search_find:
  "strip_search search q =
    (case find (\<lambda>s. has_suffix q (add_quota s)) search of
       None \<Rightarrow> q
     | Some s \<Rightarrow> if q = add_quota s then q else chop (length (add_quota s)) q)"
proof (induction search)
  case (Cons s search)
  have "strip_search (s # search) q = (if has_suffix q (add_quota s) then
      (if chop (length (add_quota s)) q = [] then q else chop (length (add_quota s)) q)
      else strip_search search q)"
    by (simp only: strip_search.simps add_quota_def Let_def chop_def)
  moreover have "chop (length (add_quota s)) q = [] \<longleftrightarrow> q = add_quota s" if "has_suffix q (add_quota s)"
    using chop_has_suffix[OF that] by (metis append_Nil append_self_conv2)
  ultimately show ?case
    using Cons.IH by simp
qed simp

definition search_domains :: "proxy option \<Rightarrow> string list" where
  "search_domains px = (case px of None \<Rightarrow> [] | Some p \<Rightarrow> rc_search (px_config p))"

text \<open>
  The name the plugins get is never empty: it is the name asked for without the first search domain that
  is a suffix of it, or the name itself if there is none or nothing would be left.
\<close>

theorem preprocess_strips_search:
  assumes "q \<noteq> []"
  shows "preprocess px q \<noteq> [] \<and>
    (case find (\<lambda>s. has_suffix q (add_quota s)) (search_domains px) of
       None \<Rightarrow> preprocess px q = q
     | Some s \<Rightarrow> if q = add_quota s then preprocess px q = q else q = preprocess px q @ add_quota s)"
proof -
  have pre: "preprocess px q = strip_search (search_domains px) q"
    by (auto simp: preprocess_def search_domains_def split: option.splits)
  show ?thesis
  proof (cases "find (\<lambda>s. has_suffix q (add_quota s)) (search_domains px)")
    case None
    then show ?thesis
      using assms by (simp add: pre strip_search_find)
  next
    case (Some s)
    then have "has_suffix q (add_quota s)"
      by (auto simp: find_Some_iff)
    then show ?thesis
      using Some assms chop_has_suffix[of q "add_quota s"] unfolding pre strip_search_find
      by (cases "q = add_quota s") auto
  qed
qed

text \<open>The witness: a domain is cut off wherever its text ends the name, also within a label.\<close>

theorem preprocess_strips_search_witness:
  "''evilprod.'' = preprocess (Some (sample_proxy [])) ''evilprod.'' @ ''prod.''"
  using preprocess_strips_search[of "''evilprod.''" "Some (sample_proxy [])"]
  by (simp add: search_domains_def sample_proxy_def has_suffix_def add_quota_def)

section \<open>Building the server\<close>

text \<open>The names and the entries that count.\<close>

abbreviation enabled :: "config_entry list \<Rightarrow> config_entry list" where
  "enabled cfgs \<equiv> filter ce_enable cfgs"

lemma init_resolvers_names:
  "init_resolvers gc cfgs hs store = (Inr names, store', destroyed) \<Longrightarrow>
   names = hs @ map ce_name (enabled cfgs) \<and> destroyed = []"
  by (induction gc cfgs hs store rule: init_resolvers.induct)
    (auto simp: Let_def split: if_splits option.splits prod.splits)

text \<open>A plugin holds an entry when it is what initialising some plugin with the entry gives.\<close>

definition initialized_with :: "go_error + consumer_api \<Rightarrow> config_entry \<Rightarrow> plugin \<Rightarrow> bool" where
  "initialized_with gc c p' \<longleftrightarrow> (\<exists>p. plugin_initialize gc c p = (p', None))"

lemma init_resolvers_plugins:
  assumes "init_resolvers gc cfgs hs store = (Inr names, store', destroyed)"
  shows "(\<forall>n. n \<notin> ce_name ` set (enabled cfgs) \<longrightarrow> store' n = store n) \<and>
    (\<forall>pre c post. enabled cfgs = pre @ c # post \<longrightarrow> ce_name c \<notin> ce_name ` set post \<longrightarrow>
       (\<exists>p'. store' (ce_name c) = Some p' \<and> initialized_with gc c p'))"
  using assms
proof (induction cfgs arbitrary: hs store)
  case (Cons cfg cfgs)
  show ?case
  proof (cases "ce_enable cfg")
    case False
    with Cons show ?thesis by simp
  next
    case True
    obtain h h' where h: "store (ce_name cfg) = Some h" "plugin_initialize gc cfg h = (h', None)"
      and rest: "init_resolvers gc cfgs (hs @ [ce_name cfg]) (store(ce_name cfg \<mapsto> h')) = (Inr names, store', destroyed)"
      using Cons.prems True by (auto simp: name_resolver_def Let_def split: option.splits prod.splits)
    note IH = Cons.IH[OF rest]
    have frame: "store' n = (store(ce_name cfg \<mapsto> h')) n" if "n \<notin> ce_name ` set (enabled cfgs)" for n
      using IH that by blast
    have "\<exists>p'. store' (ce_name c) = Some p' \<and> initialized_with gc c p'"
      if split: "enabled (cfg # cfgs) = pre @ c # post" and last: "ce_name c \<notin> ce_name ` set post" for pre c post
    proof (cases pre)
      case Nil
      then have "c = cfg" "post = enabled cfgs"
        using split True by simp_all
      then show ?thesis
        using frame[of "ce_name cfg"] last h(2) by (auto simp: initialized_with_def)
    next
      case (Cons d pre')
      then show ?thesis
        using IH split last True by auto
    qed
    with frame True show ?thesis by simp
  qed
qed simp

text \<open>
  C38. A server is built with a UDP and a TCP listener on the configured address, both with the enabled
  resolvers in the configured order; each of these plugins is registered and holds the last enabled entry of
  its name (a name configured twice is one plugin, initialised twice); no plugin is destroyed, and the others
  are untouched.
\<close>

theorem new_server_resolvers:
  assumes "new_server gc conf rconf store = (Inr (svr, px), store', destroyed)"
  shows "destroyed = [] \<and> sv_resolvers svr = map ce_name (enabled (rv_resolvers conf)) \<and>
    map ds_net (sv_dns_servers svr) = [UdpProtocol, TcpProtocol] \<and>
    (\<forall>ds \<in> set (sv_dns_servers svr). dh_resolvers (ds_handler ds) = sv_resolvers svr \<and>
       dh_protocol (ds_handler ds) = ds_net ds) \<and>
    (\<forall>n. n \<notin> set (sv_resolvers svr) \<longrightarrow> store' n = store n) \<and>
    (\<forall>pre c post. enabled (rv_resolvers conf) = pre @ c # post \<longrightarrow> ce_name c \<notin> ce_name ` set post \<longrightarrow>
       (\<exists>p p'. store' (ce_name c) = Some p' \<and> plugin_initialize gc c p = (p', None)))"
proof -
  obtain names where i: "init_resolvers gc (rv_resolvers conf) [] store = (Inr names, store', destroyed)"
    and svr: "sv_resolvers svr = names" "map ds_net (sv_dns_servers svr) = [UdpProtocol, TcpProtocol]"
      "\<forall>ds \<in> set (sv_dns_servers svr). dh_resolvers (ds_handler ds) = names \<and> dh_protocol (ds_handler ds) = ds_net ds"
    using assms by (auto simp: new_server_def Let_def split: prod.splits sum.splits)
  show ?thesis
    using init_resolvers_names[OF i] init_resolvers_plugins[OF i] svr
    by (simp add: initialized_with_def) blast
qed

definition sample_conf :: resolver_config where
  "sample_conf = \<lparr>rv_bind_ip = ''127.0.0.1'', rv_bind_port = 53,
     rv_resolvers = [sample_entry, sample_entry\<lparr>ce_enable := False, ce_name := ''other''\<rparr>,
       sample_entry\<lparr>ce_suffix := ''.''\<rparr>]\<rparr>"

lemma sample_mesh_init:
  "\<exists>r'. mesh_initialize None (sample_entry\<lparr>ce_suffix := sfx\<rparr>) r = (r', None)"
  by (simp add: mesh_initialize_def sample_entry_def mesh_parse_options_def json_options_def
      mesh_field_def int64_range_def to_lower_def lower_char_def char_eval Let_def)

lemma sample_entry_suffix: "sample_entry\<lparr>ce_suffix := ''.svc''\<rparr> = sample_entry"
  by (simp add: sample_entry_def)

theorem new_server_resolvers_witness:
  "\<exists>svr px store'. new_server (Inr (\<lambda>req. Inr [])) sample_conf None initial_plugins = (Inr (svr, px), store', []) \<and>
     sv_resolvers svr = [''meshproxy'', ''meshproxy''] \<and>
     (\<exists>r. store' ''meshproxy'' = Some (PlugMesh r) \<and> rm_suffix r = ''.'')"
proof -
  let ?gc = "Inr (\<lambda>req. Inr []) :: go_error + consumer_api"
  obtain r1 where r1: "mesh_initialize None sample_entry zero_mesh = (r1, None)"
    using sample_mesh_init[of "''.svc''" zero_mesh] by (auto simp: sample_entry_suffix)
  obtain r2 where r2: "mesh_initialize None (sample_entry\<lparr>ce_suffix := ''.''\<rparr>) r1 = (r2, None)"
    using sample_mesh_init by blast
  have e: "ce_enable sample_entry" "ce_name sample_entry = ''meshproxy''"
    by (simp_all add: sample_entry_def)
  obtain svr px store' where n: "new_server ?gc sample_conf None initial_plugins = (Inr (svr, px), store', [])"
    using r1 r2 e by (simp add: new_server_def sample_conf_def name_resolver_def initial_plugins_def register_def
        plugin_initialize_def Let_def)
  have en: "enabled (rv_resolvers sample_conf) = [sample_entry] @ sample_entry\<lparr>ce_suffix := ''.''\<rparr> # []"
    using e by (simp add: sample_conf_def)
  have n2: "ce_name (sample_entry\<lparr>ce_suffix := ''.''\<rparr>) = ''meshproxy''"
    using e by simp
  note all = new_server_resolvers[OF n]
  then have names: "sv_resolvers svr = [''meshproxy'', ''meshproxy'']"
    unfolding en using e n2 by simp
  obtain p p' where p: "store' ''meshproxy'' = Some p'"
    "plugin_initialize ?gc (sample_entry\<lparr>ce_suffix := ''.''\<rparr>) p = (p', None)"
    using all en n2 by (metis empty_iff image_empty list.set(1))
  have "\<exists>r. p' = PlugMesh r \<and> rm_suffix r = ''.''"
  proof (cases p)
    case (PlugMesh r)
    then obtain r' where "mesh_initialize None (sample_entry\<lparr>ce_suffix := ''.''\<rparr>) r = (r', None)" "p' = PlugMesh r'"
      using p(2) by (auto simp: plugin_initialize_def map_prod_def split: prod.splits)
    then show ?thesis
      using mesh_initialize_local by fastforce
  next
    case (PlugAgent r)
    then have "store' ''meshproxy'' = Some p' \<and> (\<exists>a. p' = PlugAgent a)"
      using p by (auto simp: plugin_initialize_def map_prod_def split: prod.splits)
    then show ?thesis
      using n r1 r2 e by (simp add: new_server_def sample_conf_def name_resolver_def initial_plugins_def register_def
        plugin_initialize_def Let_def) auto
  qed
  with n names p(1) show ?thesis by blast
qed

lemma init_resolvers_failure:
  assumes "init_resolvers gc cfgs hs store = (Inl e, store', destroyed)"
  shows "\<exists>pre c post. enabled cfgs = pre @ c # post \<and> (\<forall>b \<in> set pre. store (ce_name b) \<noteq> None) \<and>
    (if store (ce_name c) = None then destroyed = []
     else destroyed = hs @ map ce_name pre \<and> (\<exists>p p'. plugin_initialize gc c p = (p', Some e)))"
  using assms
proof (induction cfgs arbitrary: hs store)
  case (Cons cfg cfgs)
  show ?case
  proof (cases "ce_enable cfg")
    case False
    with Cons show ?thesis by simp
  next
    case True
    show ?thesis
    proof (cases "store (ce_name cfg)")
      case None
      then show ?thesis
        using Cons.prems True by (intro exI[of _ "[]"] exI[of _ cfg] exI[of _ "enabled cfgs"])
          (simp add: name_resolver_def)
    next
      case (Some h)
      obtain h' err where i: "plugin_initialize gc cfg h = (h', err)" by fastforce
      show ?thesis
      proof (cases err)
        case None
        then have "init_resolvers gc cfgs (hs @ [ce_name cfg]) (store(ce_name cfg \<mapsto> h')) = (Inl e, store', destroyed)"
          using Cons.prems True Some i by (simp add: name_resolver_def)
        from Cons.IH[OF this] obtain pre c post where "enabled cfgs = pre @ c # post"
          "\<forall>b \<in> set pre. (store(ce_name cfg \<mapsto> h')) (ce_name b) \<noteq> None"
          "if (store(ce_name cfg \<mapsto> h')) (ce_name c) = None then destroyed = []
           else destroyed = (hs @ [ce_name cfg]) @ map ce_name pre \<and> (\<exists>p p'. plugin_initialize gc c p = (p', Some e))"
          by blast
        then show ?thesis
          using True Some by (intro exI[of _ "cfg # pre"] exI[of _ c] exI[of _ post])
            (auto split: if_splits)
      next
        case (Some err')
        then show ?thesis
          using Cons.prems True \<open>store (ce_name cfg) = Some h\<close> i
          by (intro exI[of _ "[]"] exI[of _ cfg] exI[of _ "enabled cfgs"]) (auto simp: name_resolver_def)
      qed
    qed
  qed
qed simp

text \<open>
  Building the server stops at the first enabled entry that fails. When its plugin refuses to
  be initialised, the plugins initialised before are destroyed, in order; when no plugin has its name, none
  of them is.
\<close>

theorem new_server_failure:
  assumes "new_server gc conf rconf store = (Inl e, store', destroyed)"
  shows "\<exists>pre c post. enabled (rv_resolvers conf) = pre @ c # post \<and>
    (\<forall>b \<in> set pre. store (ce_name b) \<noteq> None) \<and>
    (if store (ce_name c) = None then destroyed = []
     else destroyed = map ce_name pre \<and> (\<exists>p p'. plugin_initialize gc c p = (p', Some e)))"
proof -
  have "init_resolvers gc (rv_resolvers conf) [] store = (Inl e, store', destroyed)"
    using assms by (auto simp: new_server_def Let_def split: prod.splits sum.splits)
  from init_resolvers_failure[OF this] show ?thesis
    unfolding append_Nil .
qed

theorem new_server_failure_witness:
  "\<exists>e store'. new_server (Inr (\<lambda>req. Inr []))
     (sample_conf\<lparr>rv_resolvers := [sample_entry, sample_entry\<lparr>ce_name := ''other''\<rparr>]\<rparr>) None initial_plugins =
       (Inl e, store', [])"
proof -
  let ?gc = "Inr (\<lambda>req. Inr []) :: go_error + consumer_api"
  let ?c = "sample_conf\<lparr>rv_resolvers := [sample_entry, sample_entry\<lparr>ce_name := ''other''\<rparr>]\<rparr>"
  obtain r1 where r1: "mesh_initialize None sample_entry zero_mesh = (r1, None)"
    using sample_mesh_init[of "''.svc''" zero_mesh] by (auto simp: sample_entry_suffix)
  have e: "ce_enable sample_entry" "ce_name sample_entry = ''meshproxy''"
    by (simp_all add: sample_entry_def)
  obtain e store' destroyed where n: "new_server ?gc ?c None initial_plugins = (Inl e, store', destroyed)"
    using r1 e by (simp add: new_server_def name_resolver_def initial_plugins_def register_def
        plugin_initialize_def Let_def)
  obtain pre c post where "enabled [sample_entry, sample_entry\<lparr>ce_name := ''other''\<rparr>] = pre @ c # post"
    "if initial_plugins (ce_name c) = None then destroyed = []
     else destroyed = map ce_name pre \<and> (\<exists>p p'. plugin_initialize ?gc c p = (p', Some e))"
    using new_server_failure[OF n] by auto
  then have "destroyed = []"
    using e by (auto simp: Cons_eq_append_conv initial_plugins_def register_def split: if_splits)
  with n show ?thesis by blast
qed

section \<open>From the registry to the client\<close>

text \<open>
  The way through the whole resolver: with the started mesh plugin (suffix \<open>.\<close>) as the resolver and
  no search domains, an A query for a service of the last list the registry returned, in any case, is
  answered with the configured address, and no upstream is asked.
\<close>

theorem registry_host_reaches_client:
  assumes "mesh_initialize get c r = (r0, None)" and "mesh_start calls r0 = Ret (cur, r1)" and "ce_suffix c = ''.''"
    and "store ''meshproxy'' = Some (PlugMesh r1)" and "dh_resolvers d = [''meshproxy'']"
    and "m_question req = [q]" and "q_type q = TypeA"
    and "k \<in> set (latest_value calls)"
    and "to_lower (q_name q) = to_lower (key_service k @ ''.'' @ key_namespace k @ ''.'')"
  shows "\<exists>cfg. rm_config r0 = Some cfg \<and> serve_dns L server_ns ex store d tcp None req =
    (write_dns_response L (dh_protocol d) req (empty_msg\<lparr>m_answer := [Some (RR_A
       \<lparr>h_name = q_name q, h_rrtype = TypeA, h_class = ClassINET, h_ttl = word_of_int (ce_dns_ttl c)\<rparr>
       (parse_ip (mc_dns_answer_ip cfg)))]\<rparr>) [], None, [])"
proof -
  have "snd (match_suffix (q_name q) ''.'')"
    by (simp add: match_suffix_def add_quota_def Let_def)
  moreover have "to_lower (q_name q) \<in> registry_hosts (latest_value calls)"
    using assms(8,9) by (auto simp: registry_hosts_def simp del: to_lower_append)
  ultimately obtain cfg where "rm_config r0 = Some cfg"
    "mesh_serve r1 q (q_name q) = Ret (Some (empty_msg\<lparr>m_answer := [Some (RR_A
       \<lparr>h_name = q_name q, h_rrtype = TypeA, h_class = ClassINET, h_ttl = word_of_int (ce_dns_ttl c)\<rparr>
       (parse_ip (mc_dns_answer_ip cfg)))]\<rparr>))"
    using mesh_start_serve[OF assms(1,2), of q "q_name q"] assms(3,7) by (auto simp del: to_lower_append)
  then show ?thesis
    using assms(4-7) by (simp add: serve_dns_def serve_dns_body_def map_filter_simps plugin_serve_def
        preprocess_def can_do_resolve_def)
qed

theorem registry_host_reaches_client_witness:
  "\<exists>store m. serve_dns sample_lib ''Polaris'' sample_exchange store (sample_handler [''meshproxy'']) False None
      (empty_msg\<lparr>m_question := [sample_question TypeA ''DB.svc.'']\<rparr>) = ([m], None, []) \<and>
     length (m_answer m) = 1"
proof -
  let ?c = "sample_entry\<lparr>ce_suffix := ''.''\<rparr>"
  let ?q = "sample_question TypeA ''DB.svc.''"
  obtain r0 cur r1 where i: "mesh_initialize None ?c sample_mesh0 = (r0, None)"
    and st: "mesh_start sample_calls r0 = Ret (cur, r1)"
    using sample_started by blast
  let ?store = "[''meshproxy'' \<mapsto> PlugMesh r1]"
  have k: "\<lparr>key_namespace = ''svc'', key_service = ''db''\<rparr> \<in> set (latest_value sample_calls)"
    by (simp add: latest_value_def sample_calls_def)
  have "\<exists>cfg. rm_config r0 = Some cfg \<and> serve_dns sample_lib ''Polaris'' sample_exchange ?store
      (sample_handler [''meshproxy'']) False None (empty_msg\<lparr>m_question := [?q]\<rparr>) =
    (write_dns_response sample_lib (dh_protocol (sample_handler [''meshproxy''])) (empty_msg\<lparr>m_question := [?q]\<rparr>)
      (empty_msg\<lparr>m_answer := [Some (RR_A
       \<lparr>h_name = q_name ?q, h_rrtype = TypeA, h_class = ClassINET, h_ttl = word_of_int (ce_dns_ttl ?c)\<rparr>
       (parse_ip (mc_dns_answer_ip cfg)))]\<rparr>) [], None, [])"
    by (rule registry_host_reaches_client[OF i st _ _ _ _ _ k])
      (simp_all add: sample_question_def sample_handler_def to_lower_def lower_char_def char_eval)
  moreover have "\<exists>m. write_dns_response sample_lib proto (empty_msg\<lparr>m_question := [?q]\<rparr>)
      (empty_msg\<lparr>m_answer := [rr]\<rparr>) [] = [m] \<and> length (m_answer m) = 1" for proto rr
    by (simp add: write_dns_response_def sample_lib_def empty_msg_def Let_def)
  ultimately show ?thesis by metis
qed

end
