(* ===== verification/Log.thy ===== *)
theory Log
  imports GoStrings "HOL-Library.Signed_Division"
begin

text \<open>
  The logging package (\<open>src/pkg/log\<close>): levels and options (\<open>options.go\<close>), scopes and what they emit
  (\<open>scope.go\<close>, \<open>default.go\<close>), and the configuration of the sinks (\<open>config.go\<close>). Encoders, files and the
  global logger are those of the library zap.
\<close>

section \<open>Levels\<close>

datatype level = NoneLevel | FatalLevel | ErrorLevel | WarnLevel | InfoLevel | DebugLevel

fun level_rank :: "level \<Rightarrow> nat" where
  "level_rank NoneLevel = 0"
| "level_rank FatalLevel = 1"
| "level_rank ErrorLevel = 2"
| "level_rank WarnLevel = 3"
| "level_rank InfoLevel = 4"
| "level_rank DebugLevel = 5"

lemma level_rank_inj: "level_rank a = level_rank b \<Longrightarrow> a = b"
  by (cases a; cases b) simp_all

instantiation level :: linorder
begin

definition less_eq_level :: "level \<Rightarrow> level \<Rightarrow> bool" where
  "less_eq_level a b \<longleftrightarrow> level_rank a \<le> level_rank b"

definition less_level :: "level \<Rightarrow> level \<Rightarrow> bool" where
  "less_level a b \<longleftrightarrow> level_rank a < level_rank b"

instance
  by standard (auto simp: less_eq_level_def less_level_def dest: level_rank_inj)

end

primrec level_to_string :: "level \<Rightarrow> string" where
  "level_to_string DebugLevel = ''debug''"
| "level_to_string InfoLevel = ''info''"
| "level_to_string WarnLevel = ''warn''"
| "level_to_string ErrorLevel = ''error''"
| "level_to_string FatalLevel = ''fatal''"
| "level_to_string NoneLevel = ''none''"

definition string_to_level :: "string \<rightharpoonup> level" where
  "string_to_level = [''debug'' \<mapsto> DebugLevel, ''info'' \<mapsto> InfoLevel, ''warn'' \<mapsto> WarnLevel,
     ''error'' \<mapsto> ErrorLevel, ''fatal'' \<mapsto> FatalLevel, ''none'' \<mapsto> NoneLevel]"

lemma string_to_level_to_string [simp]: "string_to_level (level_to_string l) = Some l"
  by (cases l) (simp_all add: string_to_level_def)

lemma string_to_level_Some: "string_to_level s = Some l \<longleftrightarrow> s = level_to_string l"
proof
  assume "string_to_level s = Some l"
  then show "s = level_to_string l"
    by (auto simp: string_to_level_def split: if_splits)
qed simp

section \<open>Options\<close>

record log_options =
  lo_output_paths :: "string list"
  lo_error_output_paths :: "string list"
  lo_rotate_output_path :: string
  lo_error_rotate_output_path :: string
  lo_rotation_max_size :: int
  lo_rotation_max_age :: int
  lo_rotation_max_backups :: int
  lo_json_encoding :: bool
  lo_output_level :: string
  lo_stacktrace_level :: string
  lo_log_caller :: bool

definition default_options :: log_options where
  "default_options = \<lparr>lo_output_paths = [''stdout''], lo_error_output_paths = [''stderr''],
     lo_rotate_output_path = ''logs/polaris-sidecar.log'',
     lo_error_rotate_output_path = ''logs/polaris-sidecar-error.log'',
     lo_rotation_max_size = 100, lo_rotation_max_age = 7, lo_rotation_max_backups = 10,
     lo_json_encoding = False, lo_output_level = level_to_string InfoLevel,
     lo_stacktrace_level = level_to_string NoneLevel, lo_log_caller = False\<rparr>"

definition options_set_output_level :: "string \<Rightarrow> log_options \<Rightarrow> log_options \<times> go_error option" where
  "options_set_output_level lvl o' =
     (if string_to_level lvl = None then (o', Some (Errorf ''invalid log level'' []))
      else (o'\<lparr>lo_output_level := lvl\<rparr>, None))"

text \<open>Reading a missing key gives the zero value, \<open>NoneLevel\<close>.\<close>

definition options_output_level :: "log_options \<Rightarrow> level" where
  "options_output_level o' =
     (case string_to_level (lo_output_level o') of Some l \<Rightarrow> l | None \<Rightarrow> NoneLevel)"

definition options_set_stacktrace_level :: "string \<Rightarrow> log_options \<Rightarrow> log_options \<times> go_error option" where
  "options_set_stacktrace_level lvl o' =
     (if string_to_level lvl = None then (o', Some (Errorf ''invalid stack trace level'' []))
      else (o'\<lparr>lo_stacktrace_level := lvl\<rparr>, None))"

definition options_stacktrace_level :: "log_options \<Rightarrow> level" where
  "options_stacktrace_level o' =
     (case string_to_level (lo_stacktrace_level o') of Some l \<Rightarrow> l | None \<Rightarrow> NoneLevel)"

definition set_default_option :: "log_options \<Rightarrow> log_options" where
  "set_default_option o' =
     (let o' = (if lo_rotation_max_size o' = 0 then o'\<lparr>lo_rotation_max_size := 100\<rparr> else o');
          o' = (if lo_rotation_max_age o' = 0 then o'\<lparr>lo_rotation_max_age := 7\<rparr> else o');
          o' = (if lo_rotation_max_backups o' = 0 then o'\<lparr>lo_rotation_max_backups := 10\<rparr> else o');
          o' = (if lo_output_level o' = [] then o'\<lparr>lo_output_level := level_to_string InfoLevel\<rparr> else o');
          o' = (if lo_stacktrace_level o' = [] then o'\<lparr>lo_stacktrace_level := level_to_string NoneLevel\<rparr> else o')
      in o'\<lparr>lo_log_caller := True\<rparr>)"

section \<open>Sinks and entries\<close>

text \<open>
  An entry with what the program puts into it. A core of zap: which levels it takes and whether
  writing and syncing fail.
\<close>

record log_entry =
  en_message :: string
  en_level :: level
  en_logger :: string
  en_caller :: bool
  en_stack :: bool

record log_core =
  co_enabled :: "level \<Rightarrow> bool"
  co_write :: "log_entry \<Rightarrow> go_error option"
  co_sync :: "go_error option"

text \<open>What emitting does to the world: entries written to cores, a line on the error sink, the end of the process.\<close>

datatype log_event = CoreWrite nat log_entry | ErrorLine go_error | ExitProcess int

text \<open>
  The patch table \<open>updateScopes\<close> installs is determined by its cores. \<open>write\<close>: the enabled cores in
  order, their errors collected, and the end of the process after a fatal entry.
\<close>

definition enabled_cores :: "log_core list \<Rightarrow> log_entry \<Rightarrow> (nat \<times> log_core) list" where
  "enabled_cores cores ent = filter (\<lambda>(i, core). co_enabled core (en_level ent)) (enumerate 0 cores)"

definition multi_error :: "go_error list \<Rightarrow> go_error option" where
  "multi_error es = (if es = [] then None else Some (MultiError es))"

definition patch_write :: "log_core list \<Rightarrow> log_entry \<Rightarrow> log_event list \<times> go_error option" where
  "patch_write cores ent =
     (let ws = enabled_cores cores ent;
          errs = List.map_filter (\<lambda>(i, core). co_write core ent) ws
      in (map (\<lambda>(i, core). CoreWrite i ent) ws @ (if en_level ent = FatalLevel then [ExitProcess 1] else []),
          multi_error errs))"

definition patch_sync :: "log_core list \<Rightarrow> go_error option" where
  "patch_sync cores = multi_error (List.map_filter co_sync cores)"

section \<open>Scopes\<close>

record log_scope =
  sc_name :: string
  sc_name_to_emit :: string
  sc_description :: string
  sc_caller_skip :: int
  sc_output_level :: level
  sc_stack_trace_level :: level
  sc_log_callers :: bool
  sc_pt :: "log_core list option"

type_synonym scope_store = "string \<rightharpoonup> log_scope"

text \<open>The attributes that can be changed at run time; \<open>RegisterScope\<close> stores each of them, so a load never finds nil.\<close>

definition set_output_level :: "level \<Rightarrow> log_scope \<Rightarrow> log_scope" where
  [simp]: "set_output_level l s = s\<lparr>sc_output_level := l\<rparr>"

definition set_stack_trace_level :: "level \<Rightarrow> log_scope \<Rightarrow> log_scope" where
  [simp]: "set_stack_trace_level l s = s\<lparr>sc_stack_trace_level := l\<rparr>"

definition set_log_callers :: "bool \<Rightarrow> log_scope \<Rightarrow> log_scope" where
  [simp]: "set_log_callers b s = s\<lparr>sc_log_callers := b\<rparr>"

definition register_scope ::
  "string \<Rightarrow> string \<Rightarrow> int \<Rightarrow> scope_store \<Rightarrow> (log_scope \<times> scope_store) go" where
  "register_scope nm description caller_skip scopes =
     (if list_ex (\<lambda>c. c \<in> {CHR '':'', CHR '','', CHR ''.''}) nm
      then Panic (ExplicitPanic
        (''scope name '' @ nm @ '' is invalid, it cannot contain colons, commas, or periods''))
      else (case scopes nm of
              Some s \<Rightarrow> Ret (s, scopes)
            | None \<Rightarrow>
                let s = \<lparr>sc_name = nm, sc_name_to_emit = (if nm \<noteq> ''default'' then nm else []),
                         sc_description = description, sc_caller_skip = caller_skip,
                         sc_output_level = InfoLevel, sc_stack_trace_level = NoneLevel,
                         sc_log_callers = False, sc_pt = None\<rparr>
                in Ret (s, scopes(nm \<mapsto> s))))"

definition find_scope :: "string \<Rightarrow> scope_store \<Rightarrow> log_scope option" where
  "find_scope nm scopes = scopes nm"

definition emit :: "log_scope \<Rightarrow> level \<Rightarrow> bool \<Rightarrow> string \<Rightarrow> log_event list" where
  "emit s lvl dump_stack msg =
     (let e = \<lparr>en_message = msg, en_level = lvl, en_logger = sc_name_to_emit s,
               en_caller = sc_log_callers s, en_stack = dump_stack\<rparr>
      in case sc_pt s of
           None \<Rightarrow> []
         | Some cores \<Rightarrow>
             let (events, err) = patch_write cores e in
             if ExitProcess 1 \<in> set events then events
             else events @ (case err of None \<Rightarrow> [] | Some er \<Rightarrow> [ErrorLine er]))"

text \<open>
  The three forms of the logging calls, plain, with arguments, with a template; \<open>fmt.Sprint\<close> and
  \<open>fmt.Sprintf\<close> are arguments. A template without arguments is the message itself.
\<close>

datatype log_call = LogPlain string | LogArgs "string list" | LogFormat string "string list"

fun call_message :: "(string list \<Rightarrow> string) \<Rightarrow> (string \<Rightarrow> string list \<Rightarrow> string) \<Rightarrow> log_call \<Rightarrow> string" where
  "call_message sprint sprintf (LogPlain msg) = msg"
| "call_message sprint sprintf (LogArgs args) = sprint args"
| "call_message sprint sprintf (LogFormat template args) =
     (if length args > 0 then sprintf template args else template)"

text \<open>
  The methods of a scope, at the severity of the method: below the output level nothing is emitted.
  The stack is dumped by the scope's stack trace level: at or above \<open>FatalLevel\<close> for a fatal
  entry, at or above \<open>ErrorLevel\<close> for every other.
\<close>

definition scope_enabled :: "level \<Rightarrow> log_scope \<Rightarrow> bool" where
  "scope_enabled severity s \<longleftrightarrow> sc_output_level s \<ge> severity"

definition scope_stack_from :: "level \<Rightarrow> level" where
  "scope_stack_from severity = (if severity = FatalLevel then FatalLevel else ErrorLevel)"

definition scope_log ::
  "(string list \<Rightarrow> string) \<Rightarrow> (string \<Rightarrow> string list \<Rightarrow> string) \<Rightarrow> level \<Rightarrow> log_scope \<Rightarrow> log_call \<Rightarrow> log_event list" where
  "scope_log sprint sprintf severity s call =
     (if sc_output_level s \<ge> severity
      then emit s severity (sc_stack_trace_level s \<ge> scope_stack_from severity)
             (call_message sprint sprintf call)
      else [])"

text \<open>The functions of the package on the default scope dump the stack from their own severity on.\<close>

definition default_log ::
  "(string list \<Rightarrow> string) \<Rightarrow> (string \<Rightarrow> string list \<Rightarrow> string) \<Rightarrow> level \<Rightarrow> log_scope \<Rightarrow> log_call \<Rightarrow> log_event list" where
  "default_log sprint sprintf severity default_scope call =
     (if sc_output_level default_scope \<ge> severity
      then emit default_scope severity (sc_stack_trace_level default_scope \<ge> severity)
             (call_message sprint sprintf call)
      else [])"

section \<open>Configuring the sinks\<close>

text \<open>
  The environment of the configuration: \<open>url.Parse\<close> (scheme and path), \<open>filepath.Dir\<close>,
  \<open>os.MkdirAll\<close> and \<open>zap.Open\<close>, the last two with the error they end in.
\<close>

record log_env =
  le_parse_url :: "string \<Rightarrow> go_error + string \<times> string"
  le_dir :: "string \<Rightarrow> string"
  le_mkdir :: "string \<Rightarrow> go_error option"
  le_open :: "string list \<Rightarrow> go_error option"

datatype sink_event = MkdirAll string | OpenSink "string list" | CloseErrorSink

fun create_path_if_not_exist :: "log_env \<Rightarrow> string list \<Rightarrow> sink_event list \<times> go_error option" where
  "create_path_if_not_exist E [] = ([], None)"
| "create_path_if_not_exist E (path # paths) =
     (case le_parse_url E path of
        Inl err \<Rightarrow> ([], Some (MultiError [Errorf ''can't parse %q as a URL: %v'' [path], err]))
      | Inr (scheme, upath) \<Rightarrow>
          if (scheme = [] \<or> scheme = ''file'') \<and> upath \<noteq> ''stdout'' \<and> upath \<noteq> ''stderr'' then
            (let dir = le_dir E upath in
             case le_mkdir E dir of
               Some err \<Rightarrow> ([MkdirAll dir], Some (MultiError [Errorf ''can't create %q directory: %v'' [dir], err]))
             | None \<Rightarrow> map_prod ((#) (MkdirAll dir)) id (create_path_if_not_exist E paths))
          else create_path_if_not_exist E paths)"

record rotating_file =
  rf_filename :: string
  rf_max_size :: int
  rf_max_backups :: int
  rf_max_age :: int

datatype log_sink = StdoutSink | PathSink "string list" | RotateSink rotating_file | BothSinks "string list" rotating_file

text \<open>
  What \<open>prepZap\<close> builds: the encoder, the sink of all entries, the rotating file of the errors, if
  any, and the paths of the sink of zap's own errors.
\<close>

record zap_plan =
  zp_json :: bool
  zp_sink :: log_sink
  zp_error_file :: "rotating_file option"
  zp_error_sink :: "string list"

definition rotating :: "string \<Rightarrow> log_options \<Rightarrow> rotating_file option" where
  "rotating path options =
     (if length path > 0 then Some \<lparr>rf_filename = path, rf_max_size = lo_rotation_max_size options,
        rf_max_backups = lo_rotation_max_backups options, rf_max_age = lo_rotation_max_age options\<rparr>
      else None)"

definition choose_sink :: "string list option \<Rightarrow> rotating_file option \<Rightarrow> log_sink" where
  "choose_sink output_sink rotate_sink =
     (case (rotate_sink, output_sink) of
        (Some r, Some ps) \<Rightarrow> BothSinks ps r
      | (Some r, None) \<Rightarrow> RotateSink r
      | (None, Some ps) \<Rightarrow> PathSink ps
      | (None, None) \<Rightarrow> StdoutSink)"

definition open_output_sink :: "log_env \<Rightarrow> log_options \<Rightarrow> sink_event list \<times> (go_error + string list option)" where
  "open_output_sink E options =
     (if length (lo_output_paths options) > 0 then
        (case create_path_if_not_exist E (lo_output_paths options) of
           (ev, Some err) \<Rightarrow> (ev, Inl err)
         | (ev, None) \<Rightarrow>
             (case le_open E (lo_output_paths options) of
                Some err \<Rightarrow> (ev @ [OpenSink (lo_output_paths options), CloseErrorSink], Inl err)
              | None \<Rightarrow> (ev @ [OpenSink (lo_output_paths options)], Inr (Some (lo_output_paths options)))))
      else ([], Inr None))"

definition prep_zap :: "log_env \<Rightarrow> log_options \<Rightarrow> sink_event list \<times> (go_error + zap_plan)" where
  "prep_zap E options =
     (let rotate_sink = rotating (lo_rotate_output_path options) options in
      case create_path_if_not_exist E (lo_error_output_paths options) of
        (ev, Some err) \<Rightarrow> (ev, Inl err)
      | (ev, None) \<Rightarrow>
          let ev = ev @ [OpenSink (lo_error_output_paths options)] in
          (case le_open E (lo_error_output_paths options) of
             Some err \<Rightarrow> (ev, Inl err)
           | None \<Rightarrow>
               (case open_output_sink E options of
                  (ev', Inl err) \<Rightarrow> (ev @ ev', Inl err)
                | (ev', Inr output_sink) \<Rightarrow>
                    (ev @ ev', Inr \<lparr>zp_json = lo_json_encoding options,
                       zp_sink = choose_sink output_sink rotate_sink,
                       zp_error_file = rotating (lo_error_rotate_output_path options) options,
                       zp_error_sink = lo_error_output_paths options\<rparr>))))"

text \<open>The capturing core of \<open>prepZap\<close> asks the default scope.\<close>

definition capture_enabled :: "log_scope \<Rightarrow> level \<Rightarrow> bool" where
  "capture_enabled default_scope lvl =
     (if lvl = FatalLevel then scope_enabled FatalLevel default_scope
      else if lvl = ErrorLevel then scope_enabled ErrorLevel default_scope
      else if lvl = WarnLevel then scope_enabled WarnLevel default_scope
      else if lvl = InfoLevel then scope_enabled InfoLevel default_scope
      else scope_enabled DebugLevel default_scope)"

definition update_scopes ::
  "string \<Rightarrow> log_options \<Rightarrow> log_core list \<Rightarrow> scope_store \<Rightarrow> scope_store \<times> go_error option" where
  "update_scopes type_name options cores scopes =
     (case find_scope type_name scopes of
        None \<Rightarrow> (scopes, Some (Errorf ''unknown logger name '%s' specified'' [type_name]))
      | Some scope \<Rightarrow>
          (case string_to_level (lo_output_level options) of
             None \<Rightarrow> (scopes, Some (Errorf ''unknown outPutLevel '%s' specified'' [lo_output_level options]))
           | Some output_level \<Rightarrow>
               let scope = set_output_level output_level scope in
               (case string_to_level (lo_stacktrace_level options) of
                  None \<Rightarrow> (scopes(type_name \<mapsto> scope),
                           Some (Errorf ''unknown stackTraceLevel '%s' specified'' [lo_stacktrace_level options]))
                | Some stack_level \<Rightarrow>
                    let scope = set_stack_trace_level stack_level scope;
                        scope = scope\<lparr>sc_pt := Some cores\<rparr>;
                        scope = set_log_callers (lo_log_caller options) scope
                    in (scopes(type_name \<mapsto> scope), None))))"

text \<open>
  \<open>Configure\<close>: the scopes, the options (changed through the pointer), what happened to the sinks, the error,
  and the options of the global logger (caller, stack trace level). The cores zap makes of a plan are an
  argument.
\<close>

text \<open>\<open>levelToZap\<close>, with the numbers of zap's levels.\<close>

fun level_to_zap :: "level \<Rightarrow> int" where
  "level_to_zap DebugLevel = - 1"
| "level_to_zap InfoLevel = 0"
| "level_to_zap WarnLevel = 1"
| "level_to_zap ErrorLevel = 2"
| "level_to_zap FatalLevel = 5"
| "level_to_zap NoneLevel = 100"

record log_result =
  lr_scopes :: scope_store
  lr_options :: log_options
  lr_events :: "sink_event list"
  lr_error :: "go_error option"
  lr_global :: "(bool \<times> level option) option"

definition configure ::
  "log_env \<Rightarrow> (zap_plan \<Rightarrow> log_core list) \<Rightarrow> log_options \<Rightarrow> scope_store \<Rightarrow> log_result" where
  "configure E new_cores options scopes =
     (let options = set_default_option options in
      case prep_zap E options of
        (ev, Inl err) \<Rightarrow> \<lparr>lr_scopes = scopes, lr_options = options, lr_events = ev, lr_error = Some err, lr_global = None\<rparr>
      | (ev, Inr plan) \<Rightarrow>
          (case update_scopes ''default'' options (new_cores plan) scopes of
             (scopes', Some err) \<Rightarrow>
               \<lparr>lr_scopes = scopes', lr_options = options, lr_events = ev, lr_error = Some err, lr_global = None\<rparr>
           | (scopes', None) \<Rightarrow>
               let add_caller = (case scopes' ''default'' of Some s \<Rightarrow> sc_log_callers s | None \<Rightarrow> False);
                   l = (case scopes' ''default'' of Some s \<Rightarrow> sc_stack_trace_level s | None \<Rightarrow> NoneLevel)
               in \<lparr>lr_scopes = scopes', lr_options = options, lr_events = ev, lr_error = None,
                   lr_global = Some (add_caller, if l \<noteq> NoneLevel then Some l else None)\<rparr>))"

text \<open>
  The package's \<open>init\<close>: the default scope, registered when the package's variables are initialised, and a first
  configuration whose error is ignored.
\<close>

definition default_scopes :: scope_store where
  "default_scopes =
     (case register_scope ''default'' ''Unscoped logging messages.'' 0 Map.empty of
        Ret (s, scopes) \<Rightarrow> scopes
      | Panic p \<Rightarrow> Map.empty)"

definition log_init :: "log_env \<Rightarrow> (zap_plan \<Rightarrow> log_core list) \<Rightarrow> scope_store" where
  "log_init E new_cores = lr_scopes (configure E new_cores default_options default_scopes)"

text \<open>\<open>Sync\<close> of the package: the patch table of the default scope, which is nil before the first configuration that succeeds.\<close>

definition log_sync :: "scope_store \<Rightarrow> go_error option go" where
  "log_sync scopes =
     (case scopes ''default'' of
        None \<Rightarrow> Panic NilDereference
      | Some s \<Rightarrow> (case sc_pt s of None \<Rightarrow> Panic NilDereference | Some cores \<Rightarrow> Ret (patch_sync cores)))"

section \<open>Time stamps\<close>

text \<open>The fields \<open>t.Date()\<close>, \<open>t.Clock()\<close> and \<open>t.Nanosecond()\<close> give.\<close>

record time_fields =
  tm_year :: int
  tm_month :: int
  tm_day :: int
  tm_hour :: int
  tm_minute :: int
  tm_second :: int
  tm_nanosecond :: int

text \<open>\<open>byte(n) + '0'\<close>, with the wrap-around of bytes.\<close>

definition digit_byte :: "int \<Rightarrow> char" where
  "digit_byte n = char_of (unat (word_of_int n + 48 :: byte))"

definition format_date :: "time_fields \<Rightarrow> string" where
  "format_date t =
     (let year = tm_year t; micros = tm_nanosecond t sdiv 1000 in
      [digit_byte ((year sdiv 1000) smod 10), digit_byte ((year sdiv 100) smod 10),
       digit_byte ((year sdiv 10) smod 10), digit_byte (year smod 10), CHR ''-'',
       digit_byte (tm_month t sdiv 10), digit_byte (tm_month t smod 10), CHR ''-'',
       digit_byte (tm_day t sdiv 10), digit_byte (tm_day t smod 10), CHR ''T'',
       digit_byte (tm_hour t sdiv 10), digit_byte (tm_hour t smod 10), CHR '':'',
       digit_byte (tm_minute t sdiv 10), digit_byte (tm_minute t smod 10), CHR '':'',
       digit_byte (tm_second t sdiv 10), digit_byte (tm_second t smod 10), CHR ''.'',
       digit_byte ((micros sdiv 100000) smod 10), digit_byte ((micros sdiv 10000) smod 10),
       digit_byte ((micros sdiv 1000) smod 10), digit_byte ((micros sdiv 100) smod 10),
       digit_byte ((micros sdiv 10) smod 10), digit_byte (micros smod 10), CHR ''Z''])"

section \<open>Properties\<close>

lemma set_default_option_valid:
  "lo_log_caller (set_default_option o')"
  "lo_output_level (set_default_option o') = (if lo_output_level o' = [] then ''info'' else lo_output_level o')"
  "lo_stacktrace_level (set_default_option o') =
     (if lo_stacktrace_level o' = [] then ''none'' else lo_stacktrace_level o')"
  by (simp_all add: set_default_option_def Let_def)

lemma update_scopes_ok:
  assumes "update_scopes nm options cores scopes = (scopes', None)"
  shows "\<exists>s. scopes' nm = Some s \<and> string_to_level (lo_output_level options) = Some (sc_output_level s) \<and>
    string_to_level (lo_stacktrace_level options) = Some (sc_stack_trace_level s) \<and>
    sc_pt s = Some cores \<and> sc_log_callers s = lo_log_caller options"
  using assms by (auto simp: update_scopes_def Let_def split: option.splits)

lemma level_to_zap_antimono: "level_to_zap a \<le> level_to_zap b \<longleftrightarrow> b \<le> a"
  by (cases a; cases b) (simp_all add: less_eq_level_def)

text \<open>Once a configuration has succeeded, \<open>Sync\<close> returns.\<close>

lemma configure_then_sync:
  assumes "lr_error (configure E new_cores options scopes) = None"
  shows "\<exists>plan. log_sync (lr_scopes (configure E new_cores options scopes)) = Ret (patch_sync (new_cores plan))"
proof -
  let ?o = "set_default_option options"
  obtain ev plan where p: "prep_zap E ?o = (ev, Inr plan)"
    using assms by (cases "prep_zap E ?o"; cases "snd (prep_zap E ?o)") (auto simp: configure_def Let_def)
  obtain scopes' where u: "update_scopes ''default'' ?o (new_cores plan) scopes = (scopes', None)"
    using assms by (cases "update_scopes ''default'' ?o (new_cores plan) scopes";
        cases "snd (update_scopes ''default'' ?o (new_cores plan) scopes)") (auto simp: configure_def Let_def p)
  show ?thesis
    using update_scopes_ok[OF u] by (auto simp: configure_def Let_def p u log_sync_def)
qed

text \<open>Before it, when the default sinks cannot be opened, \<open>Sync\<close> dereferences nil.\<close>

lemma sync_without_configuration:
  assumes "lr_error (configure E new_cores default_options default_scopes) = Some err"
  shows "log_sync (log_init E new_cores) = Panic NilDereference"
proof -
  let ?o = "set_default_option default_options"
  have d: "default_scopes ''default'' \<noteq> None" "map_option sc_pt (default_scopes ''default'') = Some None"
    by (simp_all add: default_scopes_def register_scope_def Let_def)
  obtain ev res where p: "prep_zap E ?o = (ev, res)" by fastforce
  have "string_to_level (lo_output_level ?o) = Some InfoLevel" "string_to_level (lo_stacktrace_level ?o) = Some NoneLevel"
    by (simp_all add: set_default_option_valid default_options_def string_to_level_Some)
  then have "snd (update_scopes ''default'' ?o cores default_scopes) = None" for cores
    using d by (auto simp: update_scopes_def find_scope_def Let_def)
  then have u: "update_scopes ''default'' ?o cores default_scopes =
      (fst (update_scopes ''default'' ?o cores default_scopes), None)" for cores
    by (metis prod.collapse)
  have "res = Inl err"
  proof (cases res)
    case (Inr plan)
    with assms u[of "new_cores plan"] show ?thesis
      by (simp add: configure_def Let_def p split: prod.splits)
  qed (use assms in \<open>simp add: configure_def Let_def p\<close>)
  then show ?thesis
    using d by (auto simp: log_init_def log_sync_def configure_def Let_def p)
qed

text \<open>What an entry does to the cores, and when it ends the process.\<close>

lemma emit_writes:
  assumes "sc_pt s = Some cores"
  shows "CoreWrite i ent \<in> set (emit s severity dump_stack msg) \<longleftrightarrow>
      i < length cores \<and> co_enabled (cores ! i) severity \<and>
      ent = \<lparr>en_message = msg, en_level = severity, en_logger = sc_name_to_emit s, en_caller = sc_log_callers s,
        en_stack = dump_stack\<rparr>"
    and "ExitProcess code \<in> set (emit s severity dump_stack msg) \<longleftrightarrow> severity = FatalLevel \<and> code = 1"
  using assms
  by (auto simp: emit_def patch_write_def enabled_cores_def in_set_enumerate_eq Let_def image_iff split: option.splits)


definition sample_log_env :: log_env where
  "sample_log_env = \<lparr>le_parse_url = (\<lambda>s. Inr ([], s)), le_dir = (\<lambda>s. ''logs''), le_mkdir = (\<lambda>s. None),
     le_open = (\<lambda>ps. None)\<rparr>"

definition sample_scopes :: scope_store where
  "sample_scopes = [''default'' \<mapsto> \<lparr>sc_name = ''default'', sc_name_to_emit = [], sc_description = [], sc_caller_skip = 0,
     sc_output_level = InfoLevel, sc_stack_trace_level = NoneLevel, sc_log_callers = False, sc_pt = None\<rparr>]"

definition sample_core :: log_core where
  "sample_core = \<lparr>co_enabled = (\<lambda>l. True), co_write = (\<lambda>e. None), co_sync = None\<rparr>"


text \<open>The value of a field of a time stamp, read back.\<close>

definition read_field :: "string \<Rightarrow> nat \<Rightarrow> nat \<Rightarrow> nat option" where
  "read_field s from' len = nat_of_digits 0 (take len (drop from' s))"

definition valid_time :: "time_fields \<Rightarrow> bool" where
  "valid_time t \<longleftrightarrow> 0 \<le> tm_year t \<and> tm_year t < 10000 \<and> 1 \<le> tm_month t \<and> tm_month t \<le> 12 \<and>
     1 \<le> tm_day t \<and> tm_day t \<le> 31 \<and> 0 \<le> tm_hour t \<and> tm_hour t < 24 \<and> 0 \<le> tm_minute t \<and> tm_minute t < 60 \<and>
     0 \<le> tm_second t \<and> tm_second t < 60 \<and> 0 \<le> tm_nanosecond t \<and> tm_nanosecond t < 1000000000"

lemma digit_byte_digit:
  assumes "0 \<le> n" "n < 10"
  shows "digit_val (digit_byte n) = Some (nat n)"
proof -
  obtain k where k: "n = int k" "k < 10"
    using assms by (metis nonneg_int_cases of_nat_less_numeral_iff)
  have "word_of_int n + 48 = (of_nat (48 + k) :: byte)"
    by (simp add: k)
  then have "unat (word_of_int n + 48 :: byte) = 48 + k"
    using k(2) by (simp only: unat_of_nat) simp
  then show ?thesis
    using k by (simp only: digit_byte_def digit_val_digit) simp
qed

lemma sdiv_smod_nonneg:
  "0 \<le> (a::int) \<Longrightarrow> 0 < b \<Longrightarrow> a sdiv b = a div b" "0 \<le> (a::int) \<Longrightarrow> 0 < b \<Longrightarrow> a smod b = a mod b"
  by (auto simp: signed_divide_int_def signed_modulo_int_def sgn_if minus_div_mult_eq_mod)

lemma sdiv_nonneg: "0 \<le> (a::int) \<Longrightarrow> 0 < b \<Longrightarrow> 0 \<le> a sdiv b"
  by (simp add: sdiv_smod_nonneg pos_imp_zdiv_nonneg_iff)

lemma sdiv_sdiv: "0 \<le> (a::int) \<Longrightarrow> 0 < b \<Longrightarrow> 0 < c \<Longrightarrow> a sdiv b sdiv c = a sdiv (b * c)"
  by (simp add: sdiv_smod_nonneg pos_imp_zdiv_nonneg_iff zdiv_zmult2_eq)

lemma next_digit:
  assumes "0 \<le> n" and "nat_of_digits a ds = Some (nat (n sdiv 10))"
  shows "nat_of_digits a (ds @ [digit_byte (n smod 10)]) = Some (nat n)"
proof -
  have "digit_val (digit_byte (n mod 10)) = Some (nat (n mod 10))"
    by (simp add: digit_byte_digit)
  moreover have "10 * nat (n div 10) + nat (n mod 10) = nat n"
    using assms(1) by (simp add: nat_div_distrib nat_mod_distrib)
  ultimately show ?thesis
    using assms by (simp add: sdiv_smod_nonneg nat_of_digits_append)
qed

lemma small_digit: "0 \<le> n \<Longrightarrow> n < 10 \<Longrightarrow> nat_of_digits 0 [digit_byte n] = Some (nat n)"
  by (simp add: digit_byte_digit)

lemma smod_small: "0 \<le> (n::int) \<Longrightarrow> n < 10 \<Longrightarrow> n smod 10 = n"
  by (simp add: sdiv_smod_nonneg)

lemma two_digits:
  assumes "0 \<le> n" "n < 100"
  shows "nat_of_digits 0 [digit_byte (n sdiv 10), digit_byte (n smod 10)] = Some (nat n)"
  using next_digit[OF assms(1) small_digit[OF sdiv_nonneg]] assms
  by (simp add: sdiv_smod_nonneg(1))

lemma four_digits:
  assumes "0 \<le> n" "n < 10000"
  shows "nat_of_digits 0 [digit_byte ((n sdiv 1000) smod 10), digit_byte ((n sdiv 100) smod 10),
    digit_byte ((n sdiv 10) smod 10), digit_byte (n smod 10)] = Some (nat n)"
proof -
  have pos: "0 \<le> n sdiv 10" "0 \<le> n sdiv 100" "0 \<le> n sdiv 1000"
    using assms(1) by (simp_all add: sdiv_nonneg)
  have "n sdiv 1000 < 10"
    using assms by (simp add: sdiv_smod_nonneg(1))
  then have 1: "nat_of_digits 0 [digit_byte ((n sdiv 1000) smod 10)] = Some (nat (n sdiv 1000))"
    using pos(3) by (simp only: smod_small small_digit)
  have 2: "nat_of_digits 0 ([digit_byte ((n sdiv 1000) smod 10)] @ [digit_byte ((n sdiv 100) smod 10)]) =
      Some (nat (n sdiv 100))"
    using pos(2) by (rule next_digit) (use 1 assms(1) in \<open>simp only: sdiv_sdiv, simp\<close>)
  have 3: "nat_of_digits 0 (([digit_byte ((n sdiv 1000) smod 10)] @ [digit_byte ((n sdiv 100) smod 10)]) @
      [digit_byte ((n sdiv 10) smod 10)]) = Some (nat (n sdiv 10))"
    using pos(1) by (rule next_digit) (use 2 assms(1) in \<open>simp only: sdiv_sdiv, simp\<close>)
  show ?thesis
    using next_digit[OF assms(1) 3] by simp
qed

lemma six_digits:
  assumes "0 \<le> n" "n < 1000000"
  shows "nat_of_digits 0 [digit_byte ((n sdiv 100000) smod 10), digit_byte ((n sdiv 10000) smod 10),
    digit_byte ((n sdiv 1000) smod 10), digit_byte ((n sdiv 100) smod 10),
    digit_byte ((n sdiv 10) smod 10), digit_byte (n smod 10)] = Some (nat n)"
proof -
  have pos: "0 \<le> n sdiv 10" "0 \<le> n sdiv 100"
    using assms(1) by (simp_all add: sdiv_nonneg)
  have "n sdiv 100 < 10000"
    using assms by (simp add: sdiv_smod_nonneg(1))
  from four_digits[OF pos(2) this]
  have 1: "nat_of_digits 0 [digit_byte ((n sdiv 100000) smod 10), digit_byte ((n sdiv 10000) smod 10),
    digit_byte ((n sdiv 1000) smod 10), digit_byte ((n sdiv 100) smod 10)] = Some (nat (n sdiv 100))"
    using assms(1) by (simp only: sdiv_sdiv) simp
  have 2: "nat_of_digits 0 ([digit_byte ((n sdiv 100000) smod 10), digit_byte ((n sdiv 10000) smod 10),
    digit_byte ((n sdiv 1000) smod 10), digit_byte ((n sdiv 100) smod 10)] @ [digit_byte ((n sdiv 10) smod 10)]) =
      Some (nat (n sdiv 10))"
    using pos(1) by (rule next_digit) (use 1 assms(1) in \<open>simp only: sdiv_sdiv, simp\<close>)
  show ?thesis
    using next_digit[OF assms(1) 2] by simp
qed

text \<open>
  A time stamp has 27 characters, and its digits read back as the fields of the time: year to second, and
  the microseconds.
\<close>

theorem format_date_reads_back:
  assumes "valid_time t"
  shows "length (format_date t) = 27 \<and> read_field (format_date t) 0 4 = Some (nat (tm_year t)) \<and>
    read_field (format_date t) 5 2 = Some (nat (tm_month t)) \<and> read_field (format_date t) 8 2 = Some (nat (tm_day t)) \<and>
    read_field (format_date t) 11 2 = Some (nat (tm_hour t)) \<and> read_field (format_date t) 14 2 = Some (nat (tm_minute t)) \<and>
    read_field (format_date t) 17 2 = Some (nat (tm_second t)) \<and>
    read_field (format_date t) 20 6 = Some (nat (tm_nanosecond t div 1000))"
proof -
  have 1: "0 \<le> tm_nanosecond t sdiv 1000" "tm_nanosecond t sdiv 1000 < 1000000"
    "tm_nanosecond t sdiv 1000 = tm_nanosecond t div 1000"
    using assms by (auto simp: valid_time_def sdiv_smod_nonneg)
  have 2: "length (format_date t) = 27"
    by (simp add: format_date_def Let_def)
  show ?thesis
    using assms four_digits[of "tm_year t"] two_digits[of "tm_month t"] two_digits[of "tm_day t"]
      two_digits[of "tm_hour t"] two_digits[of "tm_minute t"] two_digits[of "tm_second t"] six_digits[OF 1(1,2)] 2
    unfolding valid_time_def read_field_def 1(3)[symmetric]
    by (simp add: format_date_def Let_def del: nat_of_digits.simps)
qed

theorem format_date_reads_back_witness:
  "read_field (format_date \<lparr>tm_year = 2024, tm_month = 2, tm_day = 29, tm_hour = 23, tm_minute = 5, tm_second = 9,
     tm_nanosecond = 123456789\<rparr>) 20 6 = Some 123456"
  using format_date_reads_back[of "\<lparr>tm_year = 2024, tm_month = 2, tm_day = 29, tm_hour = 23, tm_minute = 5,
     tm_second = 9, tm_nanosecond = 123456789\<rparr>"]
  by (simp add: valid_time_def)

text \<open>
  The methods of a scope and the functions of the package follow different rules for the stack: they differ
  exactly for a stack trace level from \<open>error\<close> up to below the severity, where the methods dump the stack.
\<close>

theorem stack_dump_rules_differ:
  assumes "FatalLevel \<le> severity" and "severity \<le> sc_output_level s"
  shows "\<exists>b b'. scope_log sprint sprintf severity s call = emit s severity b (call_message sprint sprintf call) \<and>
    default_log sprint sprintf severity s call = emit s severity b' (call_message sprint sprintf call) \<and>
    (b \<noteq> b' \<longleftrightarrow> ErrorLevel \<le> sc_stack_trace_level s \<and> sc_stack_trace_level s < severity)"
proof -
  have "(sc_stack_trace_level s \<ge> scope_stack_from severity) \<noteq> (sc_stack_trace_level s \<ge> severity) \<longleftrightarrow>
    ErrorLevel \<le> sc_stack_trace_level s \<and> sc_stack_trace_level s < severity"
    using assms(1) by (cases severity; cases "sc_stack_trace_level s")
      (simp_all add: scope_stack_from_def less_eq_level_def less_level_def)
  then show ?thesis
    using assms(2) by (intro exI[of _ "sc_stack_trace_level s \<ge> scope_stack_from severity"]
        exI[of _ "sc_stack_trace_level s \<ge> severity"]) (simp add: scope_log_def default_log_def)
qed

text \<open>The witness: with the stack trace level \<open>error\<close> a warning of the scope carries a stack, one of the package none.\<close>

theorem stack_dump_rules_differ_witness:
  "\<exists>b b'. scope_log concat (\<lambda>t args. t) WarnLevel
       ((the (sample_scopes ''default''))\<lparr>sc_stack_trace_level := ErrorLevel\<rparr>) (LogPlain ''m'') =
     emit ((the (sample_scopes ''default''))\<lparr>sc_stack_trace_level := ErrorLevel\<rparr>) WarnLevel b ''m'' \<and> b \<noteq> b'"
  using stack_dump_rules_differ[of WarnLevel "(the (sample_scopes ''default''))\<lparr>sc_stack_trace_level := ErrorLevel\<rparr>"
      concat "\<lambda>t args. t" "LogPlain ''m''"]
  by (auto simp: sample_scopes_def less_eq_level_def less_level_def)

end
