(* ===== verification/Config.thy ===== *)
theory Config
  imports Resolver Log
begin

text \<open>
  The configuration (\<open>src/internal/bootstrap/config\<close>): defaults, the YAML file, the environment and the
  command line merged in this order (\<open>base.go\<close>, \<open>config.go\<close>), its verification (\<open>verify.go\<close>),
  and what is built from it. A pointer to a section is \<open>None\<close> where Go has nil, which a YAML
  null makes of it.
\<close>

section \<open>The configuration\<close>

text \<open>The SDK's location configuration, as far as the code sets it.\<close>

record location_provider =
  lp_type :: string
  lp_options :: "(string, opt_val) gomap"

record polaris_section =
  pc_addresses :: "string list"
  pc_location :: "location_provider list option"
  pc_nearby_match_level :: string

record recurse_section =
  rs_enable :: bool
  rs_timeout_sec :: int
  rs_name_servers :: "string list"

record metrics_section =
  ms_enable :: bool
  ms_port :: int
  ms_type :: string
  ms_interval :: "64 word"
  ms_address :: string

record tls_info =
  ti_cert_file :: string
  ti_key_file :: string

record rls_config =
  rl_enable :: bool
  rl_network :: string
  rl_address :: string
  rl_bind_port :: u32
  rl_tls_info :: "tls_info option"

record mtls_section =
  mt_enable :: bool
  mt_ca_server :: string

record mesh_section =
  me_metrics :: "metrics_section option"
  me_rate_limit :: "rls_config option"
  me_mtls :: "mtls_section option"

record debug_section =
  db_enable :: bool
  db_port :: "32 word"

record sidecar_config =
  sd_namespace :: string
  sd_polaris :: "polaris_section option"
  sd_bind :: string
  sd_port :: int
  sd_logger :: "log_options option"
  sd_recurse :: "recurse_section option"
  sd_resolvers :: "config_entry option list"
  sd_mesh :: "mesh_section option"
  sd_debugger :: "debug_section option"
  sd_dns_enabled :: bool
  sd_mesh_enabled :: bool

record boot_config =
  bc_bind :: string
  bc_port :: int
  bc_log_level :: string
  bc_recurse_enabled :: string
  bc_dnsagent_enabled :: string
  bc_dnsagent_route_labels :: string
  bc_meshproxy_enabled :: string

definition default_sidecar_config :: sidecar_config where
  "default_sidecar_config = \<lparr>
     sd_namespace = ''default'',
     sd_polaris = Some \<lparr>pc_addresses = [''127.0.0.1:8091''], pc_location = None, pc_nearby_match_level = []\<rparr>,
     sd_bind = ''0.0.0.0'',
     sd_port = 53,
     sd_logger = Some \<lparr>lo_output_paths = [''stdout''], lo_error_output_paths = [''stderr''],
       lo_rotate_output_path = ''logs/polaris-sidecar.log'',
       lo_error_rotate_output_path = ''logs/polaris-sidecar-error.log'',
       lo_rotation_max_size = 100, lo_rotation_max_age = 7, lo_rotation_max_backups = 100,
       lo_json_encoding = False, lo_output_level = ''info'', lo_stacktrace_level = [], lo_log_caller = False\<rparr>,
     sd_recurse = Some \<lparr>rs_enable = False, rs_timeout_sec = 1, rs_name_servers = []\<rparr>,
     sd_resolvers =
       [Some \<lparr>ce_name = PluginNameDnsAgent, ce_suffix = ''.'', ce_dns_ttl = 10, ce_enable = True, ce_option = None,
         ce_namespace = []\<rparr>,
        Some \<lparr>ce_name = PluginNameMeshProxy, ce_suffix = ''.'', ce_dns_ttl = 120, ce_enable = False,
         ce_option = Some [(''reload_interval_sec'', OvInt 30), (''dns_answer_ip'', OvStr ''10.4.4.4'')],
         ce_namespace = []\<rparr>],
     sd_mesh = Some \<lparr>
       me_metrics = Some \<lparr>ms_enable = False, ms_port = 15985, ms_type = [], ms_interval = 0, ms_address = []\<rparr>,
       me_rate_limit = Some \<lparr>rl_enable = False, rl_network = ''unix'',
         rl_address = ''/tmp/polaris-sidecar/ratelimit/rls.sock'', rl_bind_port = 0, rl_tls_info = None\<rparr>,
       me_mtls = Some \<lparr>mt_enable = False, mt_ca_server = ''https://polaris-security.polaris-system.svc:8888''\<rparr>\<rparr>,
     sd_debugger = Some \<lparr>db_enable = True, db_port = 50000\<rparr>,
     sd_dns_enabled = False, sd_mesh_enabled = False\<rparr>"

section \<open>The file\<close>

text \<open>\<open>os.ExpandEnv\<close>, on the environment as a function (an unset variable is empty).\<close>

type_synonym env = "string \<Rightarrow> string"

definition shell_special :: "char \<Rightarrow> bool" where
  "shell_special c \<longleftrightarrow> c \<in> set ''*#$@!?-0123456789''"

definition alpha_num :: "char \<Rightarrow> bool" where
  "alpha_num c \<longleftrightarrow> c = CHR ''_'' \<or> (let n = of_char c :: nat in
     48 \<le> n \<and> n \<le> 57 \<or> 97 \<le> n \<and> n \<le> 122 \<or> 65 \<le> n \<and> n \<le> 90)"

text \<open>The name after a dollar character and the number of characters it takes.\<close>

definition shell_name :: "string \<Rightarrow> string \<times> nat" where
  "shell_name s =
     (case s of
        [] \<Rightarrow> ([], 0)
      | c # cs \<Rightarrow>
          (if c = CHR ''{'' then
             (if length s > 2 \<and> shell_special (s ! 1) \<and> s ! 2 = CHR ''}'' then ([s ! 1], 3)
              else (case index_of CHR ''}'' cs of
                      None \<Rightarrow> ([], 1)
                    | Some 0 \<Rightarrow> ([], 2)
                    | Some i \<Rightarrow> (take i cs, i + 2)))
           else if shell_special c then ([c], 1)
           else (takeWhile alpha_num s, length (takeWhile alpha_num s))))"

function expand_env :: "env \<Rightarrow> string \<Rightarrow> string" where
  "expand_env E [] = []"
| "expand_env E (c # cs) =
     (if c = CHR ''$'' \<and> cs \<noteq> [] then
        (case shell_name cs of (nm, w) \<Rightarrow>
           (if nm = [] \<and> w > 0 then [] else if nm = [] then [c] else E nm) @ expand_env E (drop w cs))
      else c # expand_env E cs)"
  by pat_completeness auto

termination
  by (relation "measure (length \<circ> snd)") auto

text \<open>
  \<open>utils.ReadFile\<close>: the content of a file, \<open>Inr None\<close> if the path is not a file; then YAML decoding
  into the configuration, which is the argument \<open>decode\<close>.
\<close>

definition read_file :: "bool \<Rightarrow> go_error + string \<Rightarrow> go_error + string option" where
  "read_file is_file content =
     (if \<not> is_file then Inr None
      else (case content of Inl err \<Rightarrow> Inl err | Inr buf \<Rightarrow> Inr (Some buf)))"

definition parse_yaml_content ::
  "env \<Rightarrow> (string \<Rightarrow> sidecar_config \<Rightarrow> go_error + sidecar_config) \<Rightarrow> string \<Rightarrow> sidecar_config \<Rightarrow>
   go_error + sidecar_config" where
  "parse_yaml_content E decode content s =
     (let data = expand_env E content in
      case decode data s of
        Inl err \<Rightarrow> Inl (MultiError [Errorf ''parse yaml %s error:%s'' [content], err])
      | Inr s' \<Rightarrow> Inr s')"

definition merge_file_config ::
  "env \<Rightarrow> (string \<Rightarrow> sidecar_config \<Rightarrow> go_error + sidecar_config) \<Rightarrow> go_error + string option \<Rightarrow>
   sidecar_config \<Rightarrow> go_error + sidecar_config" where
  "merge_file_config E decode file s =
     (case file of
        Inl err \<Rightarrow> Inl err
      | Inr None \<Rightarrow> Inr s
      | Inr (Some buf) \<Rightarrow> parse_yaml_content E decode buf s)"

section \<open>The environment\<close>

text \<open>The names of the variables (\<open>src/pkg/constants/env.go\<close>).\<close>

definition EnvPolarisAddress :: string where "EnvPolarisAddress = ''POLARIS_ADDRESS''"

definition EnvSidecarBind :: string where "EnvSidecarBind = ''SIDECAR_BIND''"

definition EnvSidecarPort :: string where "EnvSidecarPort = ''SIDECAR_PORT''"

definition EnvSidecarNamespace :: string where "EnvSidecarNamespace = ''SIDECAR_NAMESPACE''"

definition EnvSidecarRegion :: string where "EnvSidecarRegion = ''SIDECAR_REGION''"

definition EnvSidecarZone :: string where "EnvSidecarZone = ''SIDECAR_ZONE''"

definition EnvSidecarCampus :: string where "EnvSidecarCampus = ''SIDECAR_CAMPUS''"

definition EnvSidecarNearbyMatchLevel :: string where "EnvSidecarNearbyMatchLevel = ''SIDECAR_NEARBY_MATCH_LEVEL''"

definition EnvSidecarRecurseEnable :: string where "EnvSidecarRecurseEnable = ''SIDECAR_RECURSE_ENABLE''"

definition EnvSidecarRecurseTimeout :: string where "EnvSidecarRecurseTimeout = ''SIDECAR_RECURSE_TIMEOUT''"

definition EnvSidecarLogRotateOutputPath :: string where "EnvSidecarLogRotateOutputPath = ''SIDECAR_LOG_ROTATE_OUTPUT_PATH''"

definition EnvSidecarLogErrorRotateOutputPath :: string where "EnvSidecarLogErrorRotateOutputPath = ''SIDECAR_LOG_ERROR_ROTATE_OUTPUT_PATH''"

definition EnvSidecarLogRotationMaxSize :: string where "EnvSidecarLogRotationMaxSize = ''SIDECAR_LOG_ROTATION_MAX_SIZE''"

definition EnvSidecarLogRotationMaxBackups :: string where "EnvSidecarLogRotationMaxBackups = ''SIDECAR_LOG_ROTATION_MAX_BACKUPS''"

definition EnvSidecarLogRotationMaxAge :: string where "EnvSidecarLogRotationMaxAge = ''SIDECAR_LOG_ROTATION_MAX_AGE''"

definition EnvSidecarLogLevel :: string where "EnvSidecarLogLevel = ''SIDECAR_LOG_LEVEL''"

definition EnvSidecarDnsTtl :: string where "EnvSidecarDnsTtl = ''SIDECAR_DNS_TTL''"

definition EnvSidecarDnsEnable :: string where "EnvSidecarDnsEnable = ''SIDECAR_DNS_ENABLE''"

definition EnvSidecarDnsSuffix :: string where "EnvSidecarDnsSuffix = ''SIDECAR_DNS_SUFFIX''"

definition EnvSidecarDnsRouteLabels :: string where "EnvSidecarDnsRouteLabels = ''SIDECAR_DNS_ROUTE_LABELS''"

definition EnvSidecarMeshTtl :: string where "EnvSidecarMeshTtl = ''SIDECAR_MESH_TTL''"

definition EnvSidecarMeshEnable :: string where "EnvSidecarMeshEnable = ''SIDECAR_MESH_ENABLE''"

definition EnvSidecarMeshReloadInterval :: string where "EnvSidecarMeshReloadInterval = ''SIDECAR_MESH_RELOAD_INTERVAL''"

definition EnvSidecarMeshAnswerIp :: string where "EnvSidecarMeshAnswerIp = ''SIDECAR_MESH_ANSWER_IP''"

definition EnvSidecarMtlsEnable :: string where "EnvSidecarMtlsEnable = ''SIDECAR_MTLS_ENABLE''"

definition EnvSidecarMtlsCAServer :: string where "EnvSidecarMtlsCAServer = ''SIDECAR_MTLS_CA_SERVER''"

definition EnvSidecarRLSEnable :: string where "EnvSidecarRLSEnable = ''SIDECAR_RLS_ENABLE''"

definition EnvSidecarMetricEnable :: string where "EnvSidecarMetricEnable = ''SIDECAR_METRIC_ENABLE''"

definition EnvSidecarMetricListenPort :: string where "EnvSidecarMetricListenPort = ''SIDECAR_METRIC_LISTEN_PORT''"

definition get_env_string :: "env \<Rightarrow> string \<Rightarrow> string \<Rightarrow> string" where
  "get_env_string E nm default_value =
     (let v = E nm in if length v > 0 then v else default_value)"

definition get_env_strings :: "env \<Rightarrow> string \<Rightarrow> string list \<Rightarrow> string list" where
  "get_env_strings E nm default_values =
     (let v = E nm in if length v > 0 then split_on CHR '','' v else default_values)"

definition get_env_int :: "env \<Rightarrow> string \<Rightarrow> int \<Rightarrow> int" where
  "get_env_int E nm default_value =
     (let v = E nm in
      if length v > 0 then (case atoi v of Inl err \<Rightarrow> default_value | Inr i \<Rightarrow> i) else default_value)"

definition get_env_bool :: "env \<Rightarrow> string \<Rightarrow> bool \<Rightarrow> bool" where
  "get_env_bool E nm default_value =
     (let v = E nm in
      if length v > 0 then (case parse_bool v of Inl err \<Rightarrow> default_value | Inr b \<Rightarrow> b) else default_value)"

fun replace_provider :: "location_provider \<Rightarrow> location_provider list \<Rightarrow> location_provider list" where
  "replace_provider p [] = [p]"
| "replace_provider p (q # qs) = (if lp_type q = lp_type p then p # qs else q # replace_provider p qs)"

definition set_location_config :: "location_provider \<Rightarrow> polaris_section \<Rightarrow> polaris_section" where
  "set_location_config provider p =
     (let providers = (case pc_location p of None \<Rightarrow> [] | Some ps \<Rightarrow> ps) in
      p\<lparr>pc_location := Some (replace_provider provider providers)\<rparr>)"

text \<open>The SDK's constant \<open>sdkloc.Local\<close> is the argument \<open>local_type\<close>.\<close>

definition merge_location_env :: "env \<Rightarrow> string \<Rightarrow> polaris_section \<Rightarrow> polaris_section" where
  "merge_location_env E local_type p =
     (let region = get_env_string E EnvSidecarRegion [];
          zone = get_env_string E EnvSidecarZone [];
          campus = get_env_string E EnvSidecarCampus [] in
      if region = [] \<and> zone = [] \<and> campus = [] then p
      else set_location_config \<lparr>lp_type = local_type,
        lp_options = [(''region'', OvStr region), (''zone'', OvStr zone), (''campus'', OvStr campus)]\<rparr> p)"

text \<open>The write \<open>resolverConf.Option[key] = v\<close>, a panic on the nil map.\<close>

definition put_option :: "string \<Rightarrow> opt_val \<Rightarrow> config_entry \<Rightarrow> config_entry go" where
  "put_option key v c =
     (case ce_option c of
        None \<Rightarrow> Panic NilMapWrite
      | Some opts \<Rightarrow> Ret (c\<lparr>ce_option := Some (gomap_put key v opts)\<rparr>))"

definition merge_resolver_env :: "env \<Rightarrow> string \<Rightarrow> config_entry \<Rightarrow> config_entry go" where
  "merge_resolver_env E namespace c =
     (let c = c\<lparr>ce_namespace := namespace\<rparr> in
      if ce_name c = PluginNameDnsAgent then
        let c = c\<lparr>ce_dns_ttl := get_env_int E EnvSidecarDnsTtl (ce_dns_ttl c)\<rparr>;
            c = c\<lparr>ce_enable := get_env_bool E EnvSidecarDnsEnable (ce_enable c)\<rparr>;
            c = c\<lparr>ce_suffix := get_env_string E EnvSidecarDnsSuffix (ce_suffix c)\<rparr>;
            route_labels = get_env_string E EnvSidecarDnsRouteLabels []
        in if length route_labels > 0
           then put_option ''route_labels'' (OvStr route_labels) (c\<lparr>ce_option := Some []\<rparr>)
           else Ret c
      else if ce_name c = PluginNameMeshProxy then
        let c = c\<lparr>ce_dns_ttl := get_env_int E EnvSidecarMeshTtl (ce_dns_ttl c)\<rparr>;
            c = c\<lparr>ce_enable := get_env_bool E EnvSidecarMeshEnable (ce_enable c)\<rparr>;
            reload_interval_sec = get_env_int E EnvSidecarMeshReloadInterval 0;
            dns_answer_ip = get_env_string E EnvSidecarMeshAnswerIp []
        in go_bind (if reload_interval_sec > 0
                    then put_option ''reload_interval_sec'' (OvInt reload_interval_sec) c else Ret c)
             (\<lambda>c. if length dns_answer_ip > 0
                  then put_option ''dns_answer_ip'' (OvStr dns_answer_ip) c else Ret c)
      else Ret c)"

fun merge_resolvers_env :: "env \<Rightarrow> string \<Rightarrow> config_entry option list \<Rightarrow> config_entry option list go" where
  "merge_resolvers_env E namespace [] = Ret []"
| "merge_resolvers_env E namespace (None # cs) = Panic NilDereference"
| "merge_resolvers_env E namespace (Some c # cs) =
     go_bind (merge_resolver_env E namespace c) (\<lambda>c'.
       go_bind (merge_resolvers_env E namespace cs) (\<lambda>cs'. Ret (Some c' # cs')))"

definition merge_logger_env :: "env \<Rightarrow> log_options \<Rightarrow> log_options" where
  "merge_logger_env E l = l\<lparr>
     lo_rotate_output_path := get_env_string E EnvSidecarLogRotateOutputPath (lo_rotate_output_path l),
     lo_error_rotate_output_path :=
       get_env_string E EnvSidecarLogErrorRotateOutputPath (lo_error_rotate_output_path l),
     lo_rotation_max_size := get_env_int E EnvSidecarLogRotationMaxSize (lo_rotation_max_size l),
     lo_rotation_max_backups := get_env_int E EnvSidecarLogRotationMaxBackups (lo_rotation_max_backups l),
     lo_rotation_max_age := get_env_int E EnvSidecarLogRotationMaxAge (lo_rotation_max_age l),
     lo_output_level := get_env_string E EnvSidecarLogLevel (lo_output_level l)\<rparr>"

definition merge_mesh_env :: "env \<Rightarrow> mesh_section \<Rightarrow> mesh_section go" where
  "merge_mesh_env E m =
     (case (me_mtls m, me_rate_limit m, me_metrics m) of
        (Some t, Some r, Some x) \<Rightarrow>
          Ret (m\<lparr>
            me_mtls := Some \<lparr>mt_enable = get_env_bool E EnvSidecarMtlsEnable (mt_enable t),
              mt_ca_server = get_env_string E EnvSidecarMtlsCAServer (mt_ca_server t)\<rparr>,
            me_rate_limit := Some (r\<lparr>rl_enable := get_env_bool E EnvSidecarRLSEnable (rl_enable r)\<rparr>),
            me_metrics := Some (x\<lparr>ms_enable := get_env_bool E EnvSidecarMetricEnable (ms_enable x),
              ms_port := get_env_int E EnvSidecarMetricListenPort (ms_port x)\<rparr>)\<rparr>)
      | _ \<Rightarrow> Panic NilDereference)"

text \<open>\<open>mergeEnv\<close>; a panic ends the process start, so the configuration it leaves is not observed.\<close>

definition merge_env :: "env \<Rightarrow> string \<Rightarrow> sidecar_config \<Rightarrow> sidecar_config go" where
  "merge_env E local_type s =
     (let bind = get_env_string E EnvSidecarBind (sd_bind s);
          port = get_env_int E EnvSidecarPort (sd_port s);
          namespace = get_env_string E EnvSidecarNamespace (sd_namespace s) in
      case (sd_polaris s, sd_recurse s, sd_logger s) of
        (Some p, Some r, Some l) \<Rightarrow>
          let p = p\<lparr>pc_addresses := get_env_strings E EnvPolarisAddress (pc_addresses p)\<rparr>;
              p = p\<lparr>pc_nearby_match_level :=
                     get_env_string E EnvSidecarNearbyMatchLevel (pc_nearby_match_level p)\<rparr>;
              p = merge_location_env E local_type p;
              r = r\<lparr>rs_enable := get_env_bool E EnvSidecarRecurseEnable (rs_enable r),
                    rs_timeout_sec := get_env_int E EnvSidecarRecurseTimeout (rs_timeout_sec r)\<rparr>;
              l = merge_logger_env E l
          in go_bind (merge_resolvers_env E namespace (sd_resolvers s)) (\<lambda>resolvers.
               (case sd_mesh s of
                  None \<Rightarrow> Panic NilDereference
                | Some m \<Rightarrow>
                    go_bind (merge_mesh_env E m) (\<lambda>m'.
                      Ret (s\<lparr>sd_bind := bind, sd_port := port, sd_namespace := namespace,
                             sd_polaris := Some p, sd_recurse := Some r, sd_logger := Some l,
                             sd_resolvers := resolvers, sd_mesh := Some m'\<rparr>))))
      | _ \<Rightarrow> Panic NilDereference)"

section \<open>The command line\<close>

definition msg_recurse :: string where "msg_recurse = ''fail to parse recurse-enabled value to boolean, err: %v''"

definition msg_dnsagent :: string where "msg_dnsagent = ''fail to parse resolver-dnsAgent-enabled value to boolean, err: %v''"

definition msg_meshproxy :: string where "msg_meshproxy = ''fail to parse resolver-meshproxy-enabled value to boolean, err: %v''"

text \<open>
  \<open>strconv.ParseBool\<close> gives false with an error. The errors are collected; the state is the
  configuration and the errors so far.
\<close>

definition parse_bool_into :: "string \<Rightarrow> string \<Rightarrow> bool \<times> go_error list" where
  "parse_bool_into message v =
     (case parse_bool v of
        Inl err \<Rightarrow> (False, [MultiError [Errorf message [], err]])
      | Inr b \<Rightarrow> (b, []))"

definition merge_resolver_boot :: "boot_config \<Rightarrow> config_entry \<Rightarrow> config_entry \<times> go_error list" where
  "merge_resolver_boot config c =
     (if ce_name c = PluginNameDnsAgent then
        let (c, errs) =
              (if length (bc_dnsagent_enabled config) > 0 then
                 (let (b, errs) = parse_bool_into
                        msg_dnsagent (bc_dnsagent_enabled config)
                  in (c\<lparr>ce_enable := b\<rparr>, errs))
               else (c, []));
            c = (if length (bc_dnsagent_route_labels config) > 0 then
                   (case parse_labels (bc_dnsagent_route_labels config) of
                      None \<Rightarrow> c
                    | Some labels \<Rightarrow>
                        if length labels > 0 then
                          (let opts = (case ce_option c of None \<Rightarrow> [] | Some os \<Rightarrow> os) in
                           c\<lparr>ce_option := Some (gomap_put ''route_labels''
                               (OvObj (map (\<lambda>(k, v). (k, OvStr v)) labels)) opts)\<rparr>)
                        else c)
                 else c)
        in (c, errs)
      else if ce_name c = PluginNameMeshProxy then
        (if length (bc_meshproxy_enabled config) > 0 then
           (let (b, errs) = parse_bool_into
                  msg_meshproxy (bc_meshproxy_enabled config)
            in (c\<lparr>ce_enable := b\<rparr>, errs))
         else (c, []))
      else (c, []))"

fun merge_resolvers_boot :: "boot_config \<Rightarrow> config_entry option list \<Rightarrow> (config_entry option list \<times> go_error list) go" where
  "merge_resolvers_boot config [] = Ret ([], [])"
| "merge_resolvers_boot config (None # cs) = Panic NilDereference"
| "merge_resolvers_boot config (Some c # cs) =
     (let (c', errs) = merge_resolver_boot config c in
      go_bind (merge_resolvers_boot config cs) (\<lambda>(cs', errs'). Ret (Some c' # cs', errs @ errs')))"

text \<open>The parts of \<open>mergeBootConfig\<close>: address and port, the log level, recursion, the resolvers.\<close>

definition merge_boot_address :: "boot_config \<Rightarrow> sidecar_config \<Rightarrow> sidecar_config" where
  "merge_boot_address config s =
     (let s = (if length (bc_bind config) > 0 then s\<lparr>sd_bind := bc_bind config\<rparr> else s) in
      if bc_port config > 0 then s\<lparr>sd_port := bc_port config\<rparr> else s)"

definition set_log_level :: "string \<Rightarrow> sidecar_config \<Rightarrow> sidecar_config go" where
  "set_log_level lvl s =
     (case sd_logger s of
        None \<Rightarrow> Panic NilDereference
      | Some l \<Rightarrow> Ret (s\<lparr>sd_logger := Some (l\<lparr>lo_output_level := lvl\<rparr>)\<rparr>))"

definition merge_boot_recurse :: "boot_config \<Rightarrow> sidecar_config \<Rightarrow> (sidecar_config \<times> go_error list) go" where
  "merge_boot_recurse config s =
     (if length (bc_recurse_enabled config) > 0 then
        (case sd_recurse s of
           None \<Rightarrow> Panic NilDereference
         | Some r \<Rightarrow>
             let (b, errs) = parse_bool_into msg_recurse (bc_recurse_enabled config)
             in Ret (s\<lparr>sd_recurse := Some (r\<lparr>rs_enable := b\<rparr>)\<rparr>, errs))
      else Ret (s, []))"

definition merge_boot_resolvers :: "boot_config \<Rightarrow> sidecar_config \<Rightarrow> (sidecar_config \<times> go_error list) go" where
  "merge_boot_resolvers config s =
     (if length (bc_dnsagent_enabled config) > 0 \<or> length (bc_dnsagent_route_labels config) > 0
      then go_bind (merge_resolvers_boot config (sd_resolvers s))
             (\<lambda>(resolvers, errs). Ret (s\<lparr>sd_resolvers := resolvers\<rparr>, errs))
      else Ret (s, []))"

definition merge_boot_config :: "boot_config \<Rightarrow> sidecar_config \<Rightarrow> (sidecar_config \<times> go_error option) go" where
  "merge_boot_config config s =
     go_bind (if length (bc_log_level config) > 0
              then set_log_level (bc_log_level config) (merge_boot_address config s)
              else Ret (merge_boot_address config s)) (\<lambda>s.
       go_bind (merge_boot_recurse config s) (\<lambda>(s, errs).
         go_bind (set_log_level (bc_log_level config) s) (\<lambda>s.
           go_bind (merge_boot_resolvers config s) (\<lambda>(s, errs').
             Ret (s, multi_error (errs @ errs'))))))"

section \<open>Verification\<close>

text \<open>\<open>verify\<close>: the errors of each test in order, and the flags it sets.\<close>

definition match_level_known :: "string \<Rightarrow> bool" where
  "match_level_known lvl \<longleftrightarrow> lvl \<in> {''region'', ''zone'', ''campus''}"

definition log_level_known :: "string \<Rightarrow> bool" where
  "log_level_known lvl \<longleftrightarrow> lvl \<in> {''debug'', ''info'', ''warn'', ''error'', ''fatal''}"

lemmas level_tables = match_level_known_def log_level_known_def

definition verify_logger :: "log_options \<Rightarrow> go_error list" where
  "verify_logger l =
     (if lo_output_level l \<noteq> [] \<and> \<not> log_level_known (lo_output_level l)
      then [Errorf ''logger.output-level should be one of debug, info, warn, error, fatal'' []] else []) @
     (if lo_rotation_max_age l < 0 \<or> lo_rotation_max_backups l < 0 \<or> lo_rotation_max_size l < 0
      then [Errorf ''logger.rotation-max-age, logger.rotation-max-backups, logger.rotation-max-size should be greater than 0'' []]
      else [])"

definition verify_entry :: "nat \<Rightarrow> config_entry \<Rightarrow> go_error list" where
  "verify_entry idx c =
     (if length (ce_name c) = 0 then [Errorf ''resolver %d config name is empty'' [nat_str idx]] else []) @
     (if ce_dns_ttl c < 0
      then [Errorf ''resolver %d config dnsttl should greater or equals to 0'' [nat_str idx]] else [])"

definition entry_flags :: "config_entry \<Rightarrow> bool \<times> bool \<Rightarrow> bool \<times> bool" where
  "entry_flags c flags =
     (if ce_enable c then
        (if ce_name c = PluginNameDnsAgent then (True, snd flags)
         else if ce_name c = PluginNameMeshProxy then (fst flags, True)
         else flags)
      else flags)"

fun verify_resolvers :: "nat \<Rightarrow> config_entry option list \<Rightarrow> bool \<times> bool \<Rightarrow> (go_error list \<times> bool \<times> bool) go" where
  "verify_resolvers idx [] flags = Ret ([], flags)"
| "verify_resolvers idx (None # cs) flags = Panic NilDereference"
| "verify_resolvers idx (Some c # cs) flags =
     go_bind (verify_resolvers (idx + 1) cs (entry_flags c flags)) (\<lambda>(errs', flags').
       Ret (verify_entry idx c @ errs', flags'))"

definition verify :: "sidecar_config \<Rightarrow> (sidecar_config \<times> go_error option) go" where
  "verify s =
     (case (sd_logger s, sd_polaris s, sd_recurse s) of
        (Some l, Some p, Some r) \<Rightarrow>
          let errs = verify_logger l @
                (if pc_nearby_match_level p \<noteq> [] \<and> \<not> match_level_known (pc_nearby_match_level p)
                 then [Errorf ''polaris.nearby-match-level should be one of region, zone, campus'' []] else []) @
                (if length (sd_bind s) = 0 then [Errorf ''host should not empty'' []] else []) @
                (if sd_port s \<le> 0 then [Errorf ''port should greater than 0'' []] else []) @
                (if rs_timeout_sec r \<le> 0 then [Errorf ''recurse.timeout should greater than 0'' []] else []) @
                (if length (sd_resolvers s) = 0
                 then [Errorf ''you should at least config one resolver'' []] else [])
          in go_bind (verify_resolvers 0 (sd_resolvers s) (sd_dns_enabled s, sd_mesh_enabled s))
               (\<lambda>(errs', dns_enabled, mesh_enabled).
                  Ret (s\<lparr>sd_dns_enabled := dns_enabled, sd_mesh_enabled := mesh_enabled\<rparr>,
                       multi_error (errs @ errs' @
                         (if \<not> dns_enabled \<and> \<not> mesh_enabled
                          then [Errorf ''you should at least enable one resolver'' []] else []))))
      | _ \<Rightarrow> Panic NilDereference)"

definition init_config ::
  "env \<Rightarrow> string \<Rightarrow> (string \<Rightarrow> sidecar_config \<Rightarrow> go_error + sidecar_config) \<Rightarrow> go_error + string option \<Rightarrow>
   boot_config \<Rightarrow> (go_error + sidecar_config) go" where
  "init_config E local_type decode file boot =
     (case merge_file_config E decode file default_sidecar_config of
        Inl err \<Rightarrow> Ret (Inl err)
      | Inr s \<Rightarrow>
          go_bind (merge_env E local_type s) (\<lambda>s.
            go_bind (merge_boot_config boot s) (\<lambda>(s, err).
              (case err of
                 Some e \<Rightarrow> Ret (Inl e)
               | None \<Rightarrow>
                   go_bind (verify s) (\<lambda>(s, err).
                     Ret (case err of Some e \<Rightarrow> Inl e | None \<Rightarrow> Inr s))))))"

section \<open>What is built from the configuration\<close>

definition is_mesh_metrics_enabled :: "sidecar_config \<Rightarrow> bool" where
  "is_mesh_metrics_enabled s \<longleftrightarrow> sd_mesh_enabled s \<and>
     (case sd_mesh s of None \<Rightarrow> False
      | Some m \<Rightarrow> (case me_metrics m of None \<Rightarrow> False | Some x \<Rightarrow> ms_enable x))"

definition is_mesh_mtls_enabled :: "sidecar_config \<Rightarrow> bool" where
  "is_mesh_mtls_enabled s \<longleftrightarrow> sd_mesh_enabled s \<and>
     (case sd_mesh s of None \<Rightarrow> False
      | Some m \<Rightarrow> (case me_mtls m of None \<Rightarrow> False | Some x \<Rightarrow> mt_enable x))"

definition is_debug_enabled :: "sidecar_config \<Rightarrow> bool" where
  "is_debug_enabled s \<longleftrightarrow> (case sd_debugger s of None \<Rightarrow> False | Some d \<Rightarrow> db_enable d)"

definition is_mesh_ratelimit_enabled :: "sidecar_config \<Rightarrow> bool" where
  "is_mesh_ratelimit_enabled s \<longleftrightarrow> sd_mesh_enabled s \<and>
     (case sd_mesh s of None \<Rightarrow> False
      | Some m \<Rightarrow> (case me_rate_limit m of None \<Rightarrow> False | Some x \<Rightarrow> rl_enable x))"

definition bind_localhost :: "sidecar_config \<Rightarrow> bool" where
  "bind_localhost s = (let bind_ip = parse_ip (sd_bind s) in is_loopback bind_ip \<or> is_unspecified bind_ip)"

text \<open>
  \<open>InitDnsResolver\<close>: the recursor's configuration and the server; the arguments are those of
  \<^const>\<open>init_recurse_config\<close> and \<^const>\<open>new_server\<close>. Entries are non-nil after \<^const>\<open>merge_env\<close>.
\<close>

definition init_dns_resolver ::
  "bool \<Rightarrow> go_error + client_config \<Rightarrow> go_error + consumer_api \<Rightarrow> plugin_store \<Rightarrow> sidecar_config \<Rightarrow>
   ((go_error + server \<times> proxy option) \<times> plugin_store \<times> string list) go" where
  "init_dns_resolver is_file from_file get_consumer store s =
     (case those (sd_resolvers s) of
        None \<Rightarrow> Panic NilDereference
      | Some entries \<Rightarrow>
          let resolve_config = \<lparr>rv_bind_ip = sd_bind s, rv_bind_port = word_of_int (sd_port s),
                                rv_resolvers = entries\<rparr> in
          (case sd_recurse s of
             None \<Rightarrow> Panic NilDereference
           | Some r \<Rightarrow>
               (case (if rs_enable r
                      then init_recurse_config is_file from_file (bind_localhost s) (rs_timeout_sec r)
                             (rs_name_servers r)
                      else Inr None) of
                  Inl err \<Rightarrow> Ret (Inl err, store, [])
                | Inr recurse_conf \<Rightarrow> Ret (new_server get_consumer resolve_config recurse_conf store))))"

text \<open>\<open>InitMeshRatelimit\<close>: the configuration handed to \<open>rls.New\<close>; \<open>None\<close> when not enabled.\<close>

definition init_mesh_ratelimit :: "sidecar_config \<Rightarrow> rls_config option" where
  "init_mesh_ratelimit s =
     (if \<not> is_mesh_ratelimit_enabled s then None
      else (case sd_mesh s of
              None \<Rightarrow> None
            | Some m \<Rightarrow>
                (case me_rate_limit m of
                   None \<Rightarrow> None
                 | Some r \<Rightarrow>
                     let conf = \<lparr>rl_enable = False, rl_network = to_lower (rl_network r), rl_address = [],
                                 rl_bind_port = 0, rl_tls_info = rl_tls_info r\<rparr> in
                     Some (if rl_network conf = TcpProtocol
                           then conf\<lparr>rl_address := sd_bind s @ '':'' @ nat_str (unat (rl_bind_port r))\<rparr>
                           else conf))))"

text \<open>\<open>InitMeshMetrics\<close>: namespace and port of the metrics server. \<open>InitMeshMtls\<close>: the address of the CA.\<close>

definition init_mesh_metrics :: "sidecar_config \<Rightarrow> (string \<times> int) option" where
  "init_mesh_metrics s =
     (if \<not> is_mesh_metrics_enabled s then None
      else (case sd_mesh s of
              None \<Rightarrow> None
            | Some m \<Rightarrow> map_option (\<lambda>x. (sd_namespace s, ms_port x)) (me_metrics m)))"

definition init_mesh_mtls :: "sidecar_config \<Rightarrow> string option" where
  "init_mesh_mtls s =
     (if \<not> is_mesh_mtls_enabled s then None
      else (case sd_mesh s of None \<Rightarrow> None | Some m \<Rightarrow> map_option mt_ca_server (me_mtls m)))"

text \<open>\<open>InitPolarisApi\<close>: what is handed to \<open>polaris.InitPolarisContext\<close> (\<open>src/pkg/polaris/config.go\<close>).\<close>

record polaris_metrics =
  pm_port :: int
  pm_type :: string
  pm_ip :: string
  pm_interval :: "64 word"
  pm_address :: string

record polaris_api_config =
  pa_addresses :: "string list"
  pa_metrics :: "polaris_metrics option"
  pa_location :: "location_provider list option"
  pa_nearby_match_level :: string

definition polaris_api_conf :: "sidecar_config \<Rightarrow> polaris_api_config go" where
  "polaris_api_conf s =
     (case sd_polaris s of
        None \<Rightarrow> Panic NilDereference
      | Some p \<Rightarrow>
          let conf = \<lparr>pa_addresses = pc_addresses p, pa_metrics = None, pa_location = pc_location p,
                      pa_nearby_match_level = pc_nearby_match_level p\<rparr> in
          Ret (if is_mesh_metrics_enabled s then
                 (case sd_mesh s of
                    None \<Rightarrow> conf
                  | Some m \<Rightarrow> conf\<lparr>pa_metrics := map_option (\<lambda>x. \<lparr>pm_port = ms_port x, pm_type = ms_type x,
                      pm_ip = sd_bind s, pm_interval = ms_interval x, pm_address = ms_address x\<rparr>) (me_metrics m)\<rparr>)
               else conf))"

section \<open>Lemmas\<close>

lemma multi_error_None [simp]: "multi_error es = None \<longleftrightarrow> es = []"
  by (simp add: multi_error_def)

definition has_enabled :: "config_entry option list \<Rightarrow> string \<Rightarrow> bool" where
  "has_enabled cs nm \<longleftrightarrow> (\<exists>c. Some c \<in> set cs \<and> ce_enable c \<and> ce_name c = nm)"

lemma has_enabled_simps [simp]:
  "\<not> has_enabled [] nm"
  "has_enabled (Some c # cs) nm \<longleftrightarrow> ce_enable c \<and> ce_name c = nm \<or> has_enabled cs nm"
  by (auto simp: has_enabled_def)

lemma entry_flags_simps [simp]:
  "fst (entry_flags c flags) \<longleftrightarrow> fst flags \<or> ce_enable c \<and> ce_name c = PluginNameDnsAgent"
  "snd (entry_flags c flags) \<longleftrightarrow> snd flags \<or> ce_enable c \<and> ce_name c = PluginNameMeshProxy"
  by (auto simp: entry_flags_def)

lemma verify_entry_Nil [simp]: "verify_entry idx c = [] \<longleftrightarrow> ce_name c \<noteq> [] \<and> 0 \<le> ce_dns_ttl c"
  by (simp add: verify_entry_def not_less)

lemma verify_resolvers_spec:
  "verify_resolvers idx cs flags = Ret (errs, flags') \<Longrightarrow>
   None \<notin> set cs \<and>
   (fst flags' \<longleftrightarrow> fst flags \<or> has_enabled cs PluginNameDnsAgent) \<and>
   (snd flags' \<longleftrightarrow> snd flags \<or> has_enabled cs PluginNameMeshProxy) \<and>
   (errs = [] \<longleftrightarrow> (\<forall>c. Some c \<in> set cs \<longrightarrow> ce_name c \<noteq> [] \<and> 0 \<le> ce_dns_ttl c))"
proof (induction idx cs flags arbitrary: errs rule: verify_resolvers.induct)
  case (3 idx c cs flags)
  obtain errs' where r: "verify_resolvers (idx + 1) cs (entry_flags c flags) = Ret (errs', flags')"
    and errs: "errs = verify_entry idx c @ errs'"
    using 3(2) by (auto simp: go_bind_Ret_iff)
  show ?case
    using 3(1)[OF r] unfolding errs by auto
qed auto

lemma init_config_stages:
  assumes "init_config E lt decode file boot = Ret (Inr s)"
  obtains s1 s2 s3 where "merge_file_config E decode file default_sidecar_config = Inr s1"
    "merge_env E lt s1 = Ret s2" "merge_boot_config boot s2 = Ret (s3, None)" "verify s3 = Ret (s, None)"
proof -
  obtain s1 where s1: "merge_file_config E decode file default_sidecar_config = Inr s1"
    using assms unfolding init_config_def by (cases "merge_file_config E decode file default_sidecar_config") simp_all
  obtain s2 where s2: "merge_env E lt s1 = Ret s2"
    using assms s1 unfolding init_config_def by (cases "merge_env E lt s1") simp_all
  obtain s3 err where s3: "merge_boot_config boot s2 = Ret (s3, err)"
    using assms s1 s2 unfolding init_config_def by (cases "merge_boot_config boot s2") auto
  have err: "err = None"
    using assms s1 s2 s3 unfolding init_config_def by (cases err) simp_all
  obtain s4 err' where s4: "verify s3 = Ret (s4, err')"
    using assms s1 s2 s3 err unfolding init_config_def by (cases "verify s3") auto
  have "err' = None \<and> s4 = s"
    using assms s1 s2 s3 s4 err unfolding init_config_def by (cases err') simp_all
  with s1 s2 s3 s4 err show ?thesis
    using that by blast
qed

text \<open>What a verified configuration satisfies.\<close>

definition config_ok :: "sidecar_config \<Rightarrow> bool" where
  "config_ok s \<longleftrightarrow> sd_bind s \<noteq> [] \<and> 0 < sd_port s \<and> sd_resolvers s \<noteq> [] \<and> None \<notin> set (sd_resolvers s) \<and>
     (\<forall>c. Some c \<in> set (sd_resolvers s) \<longrightarrow> ce_name c \<noteq> [] \<and> 0 \<le> ce_dns_ttl c) \<and>
     (\<exists>l. sd_logger s = Some l \<and> verify_logger l = []) \<and>
     (\<exists>p. sd_polaris s = Some p \<and> pc_nearby_match_level p \<in> {[], ''region'', ''zone'', ''campus''}) \<and>
     (\<exists>r. sd_recurse s = Some r \<and> 0 < rs_timeout_sec r) \<and>
     (sd_dns_enabled s \<or> sd_mesh_enabled s) \<and>
     (sd_dns_enabled s \<longleftrightarrow> has_enabled (sd_resolvers s) PluginNameDnsAgent) \<and>
     (sd_mesh_enabled s \<longleftrightarrow> has_enabled (sd_resolvers s) PluginNameMeshProxy)"

lemma verify_ok:
  assumes "verify s = Ret (s', None)" and "\<not> sd_dns_enabled s" "\<not> sd_mesh_enabled s"
  shows "config_ok s' \<and> (\<exists>d m. s' = s\<lparr>sd_dns_enabled := d, sd_mesh_enabled := m\<rparr>)"
proof -
  obtain l p r where ptrs: "sd_logger s = Some l" "sd_polaris s = Some p" "sd_recurse s = Some r"
    using assms(1) unfolding verify_def
    by (cases "sd_logger s"; cases "sd_polaris s"; cases "sd_recurse s") simp_all
  obtain errs' d' m' where v: "verify_resolvers 0 (sd_resolvers s) (False, False) = Ret (errs', d', m')"
    using assms unfolding verify_def ptrs
    by (cases "verify_resolvers 0 (sd_resolvers s) (False, False)") auto
  have s': "s' = s\<lparr>sd_dns_enabled := d', sd_mesh_enabled := m'\<rparr>"
    using assms unfolding verify_def ptrs by (simp add: v Let_def)
  have errs: "errs' = []" "d' \<or> m'" "verify_logger l = []" "sd_bind s \<noteq> []" "0 < sd_port s" "0 < rs_timeout_sec r"
      "sd_resolvers s \<noteq> []" "pc_nearby_match_level p \<in> {[], ''region'', ''zone'', ''campus''}"
    using assms unfolding verify_def ptrs by (simp_all add: v match_level_known_def Let_def split: if_splits)
  show ?thesis
    using verify_resolvers_spec[OF v] errs ptrs unfolding config_ok_def s' by auto
qed

lemma verify_frame:
  assumes "verify s = Ret (s', err)"
  shows "\<exists>d m. s' = s\<lparr>sd_dns_enabled := d, sd_mesh_enabled := m\<rparr>"
proof -
  obtain l p r where ptrs: "sd_logger s = Some l" "sd_polaris s = Some p" "sd_recurse s = Some r"
    using assms(1) unfolding verify_def
    by (cases "sd_logger s"; cases "sd_polaris s"; cases "sd_recurse s") simp_all
  obtain errs' d' m' where v: "verify_resolvers 0 (sd_resolvers s) (sd_dns_enabled s, sd_mesh_enabled s) = Ret (errs', d', m')"
    using assms unfolding verify_def ptrs
    by (cases "verify_resolvers 0 (sd_resolvers s) (sd_dns_enabled s, sd_mesh_enabled s)") auto
  have "s' = s\<lparr>sd_dns_enabled := d', sd_mesh_enabled := m'\<rparr>"
    using assms unfolding verify_def ptrs by (simp add: v Let_def)
  then show ?thesis by blast
qed

text \<open>The decoder leaves the fields tagged \<open>yaml:"-"\<close> alone.\<close>

definition yaml_law :: "(string \<Rightarrow> sidecar_config \<Rightarrow> go_error + sidecar_config) \<Rightarrow> bool" where
  "yaml_law decode \<longleftrightarrow> (\<forall>d s s'. decode d s = Inr s' \<longrightarrow>
     sd_dns_enabled s' = sd_dns_enabled s \<and> sd_mesh_enabled s' = sd_mesh_enabled s)"

lemma merge_file_flags:
  assumes "yaml_law decode" and "merge_file_config E decode file s = Inr s'"
  shows "sd_dns_enabled s' = sd_dns_enabled s \<and> sd_mesh_enabled s' = sd_mesh_enabled s"
proof -
  have "s' = s \<or> (\<exists>buf. decode (expand_env E buf) s = Inr s')"
  proof (cases "file")
    case (Inr content)
    show ?thesis
    proof (cases content)
      case (Some buf)
      then show ?thesis
        using assms(2) Inr by (cases "decode (expand_env E buf) s")
          (auto simp: merge_file_config_def parse_yaml_content_def)
    qed (use assms(2) Inr in \<open>simp add: merge_file_config_def\<close>)
  qed (use assms(2) in \<open>simp add: merge_file_config_def\<close>)
  then show ?thesis
    using assms(1) unfolding yaml_law_def by metis
qed

lemma merge_env_result:
  assumes "merge_env E lt s = Ret s'"
  shows "\<exists>p l r m resolvers. sd_logger s = Some l \<and> sd_recurse s = Some r \<and> sd_mesh s \<noteq> None \<and>
    merge_resolvers_env E (get_env_string E EnvSidecarNamespace (sd_namespace s)) (sd_resolvers s) = Ret resolvers \<and>
    s' = s\<lparr>sd_bind := get_env_string E EnvSidecarBind (sd_bind s),
        sd_port := get_env_int E EnvSidecarPort (sd_port s),
        sd_namespace := get_env_string E EnvSidecarNamespace (sd_namespace s),
        sd_polaris := Some p,
        sd_recurse := Some (r\<lparr>rs_enable := get_env_bool E EnvSidecarRecurseEnable (rs_enable r),
          rs_timeout_sec := get_env_int E EnvSidecarRecurseTimeout (rs_timeout_sec r)\<rparr>),
        sd_logger := Some (merge_logger_env E l), sd_resolvers := resolvers, sd_mesh := Some m\<rparr>"
proof -
  obtain p r l where ptrs: "sd_polaris s = Some p" "sd_recurse s = Some r" "sd_logger s = Some l"
    using assms unfolding merge_env_def Let_def
    by (cases "sd_polaris s"; cases "sd_recurse s"; cases "sd_logger s") simp_all
  obtain resolvers where res: "merge_resolvers_env E (get_env_string E EnvSidecarNamespace (sd_namespace s))
      (sd_resolvers s) = Ret resolvers"
    using assms unfolding merge_env_def Let_def ptrs
    by (cases "merge_resolvers_env E (get_env_string E EnvSidecarNamespace (sd_namespace s)) (sd_resolvers s)") simp_all
  obtain m where m: "sd_mesh s = Some m"
    using assms unfolding merge_env_def Let_def ptrs by (cases "sd_mesh s") (simp_all add: res)
  obtain m' where m': "merge_mesh_env E m = Ret m'"
    using assms unfolding merge_env_def Let_def ptrs by (cases "merge_mesh_env E m") (simp_all add: res m)
  show ?thesis
    using assms unfolding merge_env_def Let_def ptrs by (auto simp: res m m')
qed

text \<open>The part of a configuration the command line leaves alone.\<close>

definition boot_frame :: "sidecar_config \<Rightarrow> sidecar_config \<Rightarrow> bool" where
  "boot_frame s s' \<longleftrightarrow> sd_dns_enabled s' = sd_dns_enabled s \<and> sd_mesh_enabled s' = sd_mesh_enabled s \<and>
     sd_namespace s' = sd_namespace s \<and> sd_mesh s' = sd_mesh s \<and> sd_polaris s' = sd_polaris s"

text \<open>The stages of the command line: address, level, recursion, level again, resolvers.\<close>

lemma set_log_level_Ret:
  "set_log_level lvl s = Ret s' \<Longrightarrow> \<exists>l. sd_logger s = Some l \<and> s' = s\<lparr>sd_logger := Some (l\<lparr>lo_output_level := lvl\<rparr>)\<rparr>"
  by (cases "sd_logger s") (auto simp: set_log_level_def)

lemma merge_boot_stages:
  assumes "merge_boot_config boot s = Ret (s', err)"
  obtains x l s2 s3 errs errs' where
    "merge_boot_recurse boot ((merge_boot_address boot s)\<lparr>sd_logger := x\<rparr>) = Ret (s2, errs)"
    "s3 = s2\<lparr>sd_logger := Some (l\<lparr>lo_output_level := bc_log_level boot\<rparr>)\<rparr>"
    "merge_boot_resolvers boot s3 = Ret (s', errs')" "err = multi_error (errs @ errs')"
proof -
  let ?lvl = "if length (bc_log_level boot) > 0 then set_log_level (bc_log_level boot) (merge_boot_address boot s)
         else Ret (merge_boot_address boot s)"
  obtain s1 where 1: "?lvl = Ret s1"
    using assms unfolding merge_boot_config_def by (cases ?lvl) simp_all
  obtain s2 errs where 2: "merge_boot_recurse boot s1 = Ret (s2, errs)"
    using assms unfolding merge_boot_config_def 1 by (cases "merge_boot_recurse boot s1") auto
  obtain s3 where 3: "set_log_level (bc_log_level boot) s2 = Ret s3"
    using assms unfolding merge_boot_config_def 1 by (cases "set_log_level (bc_log_level boot) s2") (simp_all add: 2)
  obtain errs' where 4: "merge_boot_resolvers boot s3 = Ret (s', errs')" "err = multi_error (errs @ errs')"
    using assms unfolding merge_boot_config_def 1 by (cases "merge_boot_resolvers boot s3") (auto simp: 2 3)
  have "\<exists>x. s1 = (merge_boot_address boot s)\<lparr>sd_logger := x\<rparr>"
  proof (cases "length (bc_log_level boot) > 0")
    case True
    then show ?thesis
      using 1 set_log_level_Ret[of "bc_log_level boot" "merge_boot_address boot s" s1] by auto
  next
    case False
    then show ?thesis
      using 1 by (intro exI[of _ "sd_logger s1"]) simp
  qed
  then obtain x where "s1 = (merge_boot_address boot s)\<lparr>sd_logger := x\<rparr>" ..
  moreover obtain l where "s3 = s2\<lparr>sd_logger := Some (l\<lparr>lo_output_level := bc_log_level boot\<rparr>)\<rparr>"
    using set_log_level_Ret[OF 3] by blast
  ultimately show ?thesis
    using that 2 4 by blast
qed

lemma merge_boot_recurse_Ret:
  assumes "merge_boot_recurse boot s = Ret (s', errs)"
  shows "\<exists>x. s' = s\<lparr>sd_recurse := x\<rparr> \<and> (bc_recurse_enabled boot = [] \<longrightarrow> x = sd_recurse s) \<and>
    (bc_recurse_enabled boot \<noteq> [] \<and> errs = [] \<longrightarrow> (\<exists>b r. parse_bool (bc_recurse_enabled boot) = Inr b \<and> sd_recurse s = Some r \<and>
       x = Some (r\<lparr>rs_enable := b\<rparr>)))"
proof (cases "bc_recurse_enabled boot = []")
  case True
  with assms show ?thesis
    by (intro exI[of _ "sd_recurse s"]) (simp add: merge_boot_recurse_def)
next
  case False
  with assms show ?thesis
    by (auto simp: merge_boot_recurse_def parse_bool_into_def split: option.splits sum.splits)
qed

lemma merge_boot_result:
  assumes "merge_boot_config boot s = Ret (s', err)"
  shows "sd_bind s' = (if bc_bind boot \<noteq> [] then bc_bind boot else sd_bind s) \<and>
    sd_port s' = (if bc_port boot > 0 then bc_port boot else sd_port s) \<and>
    (\<exists>l. sd_logger s' = Some l \<and> lo_output_level l = bc_log_level boot) \<and> boot_frame s s' \<and>
    (bc_dnsagent_enabled boot = [] \<longrightarrow> bc_dnsagent_route_labels boot = [] \<longrightarrow> sd_resolvers s' = sd_resolvers s)"
proof -
  obtain x l s2 s3 errs errs' where st: "merge_boot_recurse boot ((merge_boot_address boot s)\<lparr>sd_logger := x\<rparr>) = Ret (s2, errs)"
    "s3 = s2\<lparr>sd_logger := Some (l\<lparr>lo_output_level := bc_log_level boot\<rparr>)\<rparr>" "merge_boot_resolvers boot s3 = Ret (s', errs')"
    using merge_boot_stages[OF assms] .
  obtain r where r: "s2 = (merge_boot_address boot s)\<lparr>sd_logger := x, sd_recurse := r\<rparr>"
    using merge_boot_recurse_Ret[OF st(1)] by auto
  have "(\<exists>rs. s' = s3\<lparr>sd_resolvers := rs\<rparr>) \<and>
    (bc_dnsagent_enabled boot = [] \<longrightarrow> bc_dnsagent_route_labels boot = [] \<longrightarrow> s' = s3)"
  proof (cases "length (bc_dnsagent_enabled boot) > 0 \<or> length (bc_dnsagent_route_labels boot) > 0")
    case True
    then show ?thesis
      using st(3) unfolding merge_boot_resolvers_def
      by (cases "merge_resolvers_boot boot (sd_resolvers s3)") auto
  next
    case False
    then have "s' = s3"
      using st(3) by (simp add: merge_boot_resolvers_def)
    then show ?thesis
      by (auto intro: exI[of _ "sd_resolvers s3"])
  qed
  then obtain rs where d: "s' = s3\<lparr>sd_resolvers := rs\<rparr>"
    "bc_dnsagent_enabled boot = [] \<longrightarrow> bc_dnsagent_route_labels boot = [] \<longrightarrow> s' = s3" by blast
  have "bc_dnsagent_enabled boot = [] \<longrightarrow> bc_dnsagent_route_labels boot = [] \<longrightarrow> sd_resolvers s' = sd_resolvers s"
    using d(2) by (auto simp: st(2) r merge_boot_address_def Let_def)
  then show ?thesis
    by (simp add: d(1) st(2) r merge_boot_address_def boot_frame_def Let_def)
qed

text \<open>
  What the flags ask of a resolver entry: \<open>agent_on\<close>, \<open>labels\<close> and \<open>mesh_on\<close> are the values of the two flags of dnsagent
  and of the one of meshproxy, empty when not given.
\<close>

definition entry_from_flags :: "string \<Rightarrow> string \<Rightarrow> string \<Rightarrow> config_entry \<Rightarrow> config_entry \<Rightarrow> bool" where
  "entry_from_flags agent_on labels mesh_on c c' \<longleftrightarrow>
     (let on = (if ce_name c = PluginNameDnsAgent then agent_on
                else if ce_name c = PluginNameMeshProxy then mesh_on else []) in
      if on = [] then ce_enable c' = ce_enable c else parse_bool on = Inr (ce_enable c')) \<and>
     ce_option c' = (case parse_labels labels of
         Some (l # ls) \<Rightarrow>
           if ce_name c = PluginNameDnsAgent
           then Some (gomap_put ''route_labels'' (OvObj (map (\<lambda>(k, v). (k, OvStr v)) (l # ls)))
             (case ce_option c of None \<Rightarrow> [] | Some opts \<Rightarrow> opts))
           else ce_option c
       | _ \<Rightarrow> ce_option c) \<and>
     c' = c\<lparr>ce_enable := ce_enable c', ce_option := ce_option c'\<rparr>"

lemma parse_labels_Nil [simp]: "parse_labels [] = None"
  by (simp add: parse_labels_def)

lemma merge_resolver_boot_flags:
  assumes "merge_resolver_boot boot c = (c', [])"
  shows "entry_from_flags (bc_dnsagent_enabled boot) (bc_dnsagent_route_labels boot) (bc_meshproxy_enabled boot) c c'"
proof -
  consider "ce_name c = PluginNameDnsAgent" | "ce_name c = PluginNameMeshProxy"
    | "ce_name c \<noteq> PluginNameDnsAgent" "ce_name c \<noteq> PluginNameMeshProxy" by blast
  then show ?thesis
  proof cases
    case 1
    with assms show ?thesis
      by (cases "bc_dnsagent_enabled boot = []"; cases "bc_dnsagent_route_labels boot = []")
        (auto simp: merge_resolver_boot_def entry_from_flags_def parse_bool_into_def Let_def
          split: sum.splits option.splits list.splits if_splits)
  next
    case 2
    with assms show ?thesis
      by (cases "bc_meshproxy_enabled boot = []")
        (auto simp: merge_resolver_boot_def entry_from_flags_def parse_bool_into_def Let_def
          split: sum.splits option.splits list.splits)
  next
    case 3
    with assms show ?thesis
      by (auto simp: merge_resolver_boot_def entry_from_flags_def Let_def split: option.splits list.splits)
  qed
qed

definition entries_from_flags ::
  "string \<Rightarrow> string \<Rightarrow> string \<Rightarrow> config_entry option list \<Rightarrow> config_entry option list \<Rightarrow> bool" where
  "entries_from_flags agent_on labels mesh_on =
     list_all2 (\<lambda>o' o''. \<exists>c c'. o' = Some c \<and> o'' = Some c' \<and> entry_from_flags agent_on labels mesh_on c c')"

lemma merge_resolvers_boot_flags:
  "merge_resolvers_boot boot cs = Ret (cs', []) \<Longrightarrow>
     entries_from_flags (bc_dnsagent_enabled boot) (bc_dnsagent_route_labels boot) (bc_meshproxy_enabled boot) cs cs'"
proof (induction cs arbitrary: cs')
  case (Cons o' cs)
  then obtain c where c: "o' = Some c"
    by (cases o') auto
  obtain c' errs where m: "merge_resolver_boot boot c = (c', errs)" by fastforce
  obtain cs1 where "merge_resolvers_boot boot cs = Ret (cs1, [])" "errs = []" "cs' = Some c' # cs1"
    using Cons.prems by (auto simp: c m go_bind_Ret_iff)
  with Cons.IH[of cs1] merge_resolver_boot_flags[of boot c c'] m show ?case
    by (auto simp: entries_from_flags_def c)
qed (simp add: entries_from_flags_def)

lemma multi_error_None_iff [simp]: "multi_error es = None \<longleftrightarrow> es = []"
  by (simp add: multi_error_def)

lemma merge_boot_accepted:
  assumes "merge_boot_config boot s = Ret (s', None)"
  shows "(if bc_recurse_enabled boot = [] then sd_recurse s' = sd_recurse s
      else \<exists>b r. parse_bool (bc_recurse_enabled boot) = Inr b \<and> sd_recurse s = Some r \<and> sd_recurse s' = Some (r\<lparr>rs_enable := b\<rparr>)) \<and>
    (if bc_dnsagent_enabled boot = [] \<and> bc_dnsagent_route_labels boot = [] then sd_resolvers s' = sd_resolvers s
      else entries_from_flags (bc_dnsagent_enabled boot) (bc_dnsagent_route_labels boot) (bc_meshproxy_enabled boot)
        (sd_resolvers s) (sd_resolvers s'))"
proof -
  obtain x l s2 s3 errs errs' where st: "merge_boot_recurse boot ((merge_boot_address boot s)\<lparr>sd_logger := x\<rparr>) = Ret (s2, errs)"
    "s3 = s2\<lparr>sd_logger := Some (l\<lparr>lo_output_level := bc_log_level boot\<rparr>)\<rparr>" "merge_boot_resolvers boot s3 = Ret (s', errs')"
    "None = multi_error (errs @ errs')"
    using merge_boot_stages[OF assms] .
  then have errs: "errs = []" "errs' = []"
    by (simp_all add: eq_commute[of None])
  have same: "sd_recurse (merge_boot_address boot s) = sd_recurse s" "sd_resolvers (merge_boot_address boot s) = sd_resolvers s"
    by (simp_all add: merge_boot_address_def Let_def)
  obtain r where r: "s2 = (merge_boot_address boot s)\<lparr>sd_logger := x, sd_recurse := r\<rparr>"
    "bc_recurse_enabled boot = [] \<longrightarrow> r = sd_recurse s"
    "bc_recurse_enabled boot \<noteq> [] \<longrightarrow> (\<exists>b q. parse_bool (bc_recurse_enabled boot) = Inr b \<and> sd_recurse s = Some q \<and>
       r = Some (q\<lparr>rs_enable := b\<rparr>))"
    using merge_boot_recurse_Ret[OF st(1)] errs(1) same(1) by auto
  have s3: "sd_recurse s3 = r" "sd_resolvers s3 = sd_resolvers s"
    by (simp_all add: st(2) r(1) same(2))
  have res: "sd_recurse s' = sd_recurse s3 \<and>
    (if bc_dnsagent_enabled boot = [] \<and> bc_dnsagent_route_labels boot = [] then sd_resolvers s' = sd_resolvers s3
     else merge_resolvers_boot boot (sd_resolvers s3) = Ret (sd_resolvers s', []))"
    using st(3) errs(2) by (auto simp: merge_boot_resolvers_def go_bind_Ret_iff split: if_splits)
  then show ?thesis
    using r(2,3) s3 merge_resolvers_boot_flags[of boot "sd_resolvers s" "sd_resolvers s'"] by (auto split: if_splits)
qed

section \<open>Properties\<close>

text \<open>
  C21. A configuration that is accepted is sound: bind address, port, timeout, TTLs, level names and
  sections are as verified, no resolver entry is nil, at least one known plugin is enabled, and the two flags say
  exactly which.
\<close>

theorem init_config_sound:
  assumes "yaml_law decode" and "init_config E lt decode config_file boot = Ret (Inr s)"
  shows "config_ok s"
proof -
  obtain s1 s2 s3 where st: "merge_file_config E decode config_file default_sidecar_config = Inr s1"
    "merge_env E lt s1 = Ret s2" "merge_boot_config boot s2 = Ret (s3, None)" "verify s3 = Ret (s, None)"
    using init_config_stages[OF assms(2)] .
  have "\<not> sd_dns_enabled s1 \<and> \<not> sd_mesh_enabled s1"
    using merge_file_flags[OF assms(1) st(1)] by (simp add: default_sidecar_config_def)
  moreover have "sd_dns_enabled s2 = sd_dns_enabled s1 \<and> sd_mesh_enabled s2 = sd_mesh_enabled s1"
    using merge_env_result[OF st(2)] by auto
  moreover have "boot_frame s2 s3"
    using merge_boot_result[OF st(3)] by simp
  ultimately show ?thesis
    using verify_ok[OF st(4)] by (simp add: boot_frame_def)
qed

definition empty_boot :: boot_config where
  "empty_boot = \<lparr>bc_bind = [], bc_port = 0, bc_log_level = [], bc_recurse_enabled = [], bc_dnsagent_enabled = [],
     bc_dnsagent_route_labels = [], bc_meshproxy_enabled = []\<rparr>"

definition no_env :: env where
  "no_env = (\<lambda>nm. [])"

lemma get_env_unset [simp]:
  "E nm = [] \<Longrightarrow> get_env_string E nm d = d" "E nm = [] \<Longrightarrow> get_env_strings E nm ds = ds"
  "E nm = [] \<Longrightarrow> get_env_int E nm i = i" "E nm = [] \<Longrightarrow> get_env_bool E nm b = b"
  by (simp_all add: get_env_string_def get_env_strings_def get_env_int_def get_env_bool_def)

lemma no_env [simp]: "no_env nm = []"
  by (simp add: no_env_def)

lemma default_config_accepted:
  "\<exists>s. init_config no_env ''local'' (\<lambda>d s. Inr s) (Inr None) empty_boot = Ret (Inr s)"
  by (simp add: init_config_def merge_file_config_def merge_env_def merge_location_env_def merge_mesh_env_def
      merge_resolver_env_def merge_boot_config_def merge_boot_address_def set_log_level_def merge_boot_recurse_def
      merge_boot_resolvers_def verify_def verify_logger_def level_tables verify_entry_def entry_flags_def merge_logger_env_def
      default_sidecar_config_def empty_boot_def multi_error_def Let_def)

theorem init_config_sound_witness:
  "\<exists>s. init_config no_env ''local'' (\<lambda>d s. Inr s) (Inr None) empty_boot = Ret (Inr s) \<and> config_ok s"
proof -
  obtain s where s: "init_config no_env ''local'' (\<lambda>d s. Inr s) (Inr None) empty_boot = Ret (Inr s)"
    using default_config_accepted by blast
  have "yaml_law (\<lambda>d s. Inr s)"
    by (simp add: yaml_law_def)
  from init_config_sound[OF this s] s show ?thesis by blast
qed

text \<open>
  C23. For the address and the port the command line wins over the environment, the environment over the file, the file
  over the default; a number the environment gives that does not parse counts as not given.
\<close>

theorem init_config_precedence:
  assumes "init_config E lt decode config_file boot = Ret (Inr s)"
  shows "\<exists>s1. merge_file_config E decode config_file default_sidecar_config = Inr s1 \<and>
    sd_bind s = (if bc_bind boot \<noteq> [] then bc_bind boot
                 else if E EnvSidecarBind \<noteq> [] then E EnvSidecarBind else sd_bind s1) \<and>
    sd_port s = (if bc_port boot > 0 then bc_port boot
                 else case atoi (E EnvSidecarPort) of Inr p \<Rightarrow> p | Inl e \<Rightarrow> sd_port s1) \<and>
    sd_namespace s = (if E EnvSidecarNamespace \<noteq> [] then E EnvSidecarNamespace else sd_namespace s1)"
proof -
  obtain s1 s2 s3 where st: "merge_file_config E decode config_file default_sidecar_config = Inr s1"
    "merge_env E lt s1 = Ret s2" "merge_boot_config boot s2 = Ret (s3, None)" "verify s3 = Ret (s, None)"
    using init_config_stages[OF assms] .
  have env: "sd_bind s2 = get_env_string E EnvSidecarBind (sd_bind s1)"
    "sd_port s2 = get_env_int E EnvSidecarPort (sd_port s1)"
    "sd_namespace s2 = get_env_string E EnvSidecarNamespace (sd_namespace s1)"
    using merge_env_result[OF st(2)] by auto
  have ver: "sd_bind s = sd_bind s3" "sd_port s = sd_port s3" "sd_namespace s = sd_namespace s3"
    using verify_frame[OF st(4)] by auto
  have "atoi [] = Inl (LibError ''strconv.Atoi'')"
    by (simp add: atoi_def)
  then have "get_env_int E EnvSidecarPort (sd_port s1) =
      (case atoi (E EnvSidecarPort) of Inr p \<Rightarrow> p | Inl e \<Rightarrow> sd_port s1)"
    by (cases "E EnvSidecarPort = []") (simp_all add: get_env_int_def Let_def)
  then show ?thesis
    using st(1) merge_boot_result[OF st(3)] env ver by (auto simp: get_env_string_def boot_frame_def)
qed

text \<open>
  The log level is the exception: the merged configuration has the level of the command line, even
  when none is given there, whatever the file and the environment say.
\<close>

theorem log_level_only_from_command_line:
  assumes "init_config E lt decode config_file boot = Ret (Inr s)"
  shows "\<exists>l. sd_logger s = Some l \<and> lo_output_level l = bc_log_level boot"
proof -
  obtain s1 s2 s3 where st: "merge_file_config E decode config_file default_sidecar_config = Inr s1"
    "merge_env E lt s1 = Ret s2" "merge_boot_config boot s2 = Ret (s3, None)" "verify s3 = Ret (s, None)"
    using init_config_stages[OF assms] .
  show ?thesis
    using merge_boot_result[OF st(3)] verify_frame[OF st(4)] by auto
qed

definition debug_env :: env where
  "debug_env nm = (if nm = EnvSidecarLogLevel then ''debug'' else if nm = EnvSidecarBind then ''10.0.0.1''
     else if nm = EnvSidecarPort then ''5353x'' else [])"

lemma debug_env_bool_int:
  "get_env_bool debug_env nm b = b" "get_env_int debug_env nm i = i"
proof -
  have "parse_bool (debug_env nm) = Inl (LibError ''strconv.ParseBool'')" if "debug_env nm \<noteq> []"
    using that by (auto simp: debug_env_def parse_bool_def split: if_splits)
  then show "get_env_bool debug_env nm b = b"
    by (simp add: get_env_bool_def Let_def)
  have "atoi (debug_env nm) = Inl (LibError ''strconv.Atoi'')" if "debug_env nm \<noteq> []"
    using that by (auto simp: debug_env_def atoi_def digit_val_def char_eval split: if_splits)
  then show "get_env_int debug_env nm i = i"
    by (simp add: get_env_int_def Let_def)
qed

lemma debug_config_accepted:
  "\<exists>s. init_config debug_env ''local'' (\<lambda>d s. Inr s) (Inr None) empty_boot = Ret (Inr s)"
proof -
  have unset: "debug_env EnvSidecarNamespace = []"
    "debug_env EnvPolarisAddress = []"
    "debug_env EnvSidecarNearbyMatchLevel = []"
    "debug_env EnvSidecarRegion = []"
    "debug_env EnvSidecarZone = []"
    "debug_env EnvSidecarCampus = []"
    "debug_env EnvSidecarDnsSuffix = []"
    "debug_env EnvSidecarDnsRouteLabels = []"
    "debug_env EnvSidecarMeshAnswerIp = []"
    "debug_env EnvSidecarMtlsCAServer = []"
    "debug_env EnvSidecarLogRotateOutputPath = []"
    "debug_env EnvSidecarLogErrorRotateOutputPath = []"
    by (simp_all add: debug_env_def EnvSidecarNamespace_def EnvPolarisAddress_def EnvSidecarNearbyMatchLevel_def EnvSidecarRegion_def EnvSidecarZone_def EnvSidecarCampus_def EnvSidecarDnsSuffix_def EnvSidecarDnsRouteLabels_def EnvSidecarMeshAnswerIp_def EnvSidecarMtlsCAServer_def EnvSidecarLogRotateOutputPath_def EnvSidecarLogErrorRotateOutputPath_def
        EnvSidecarLogLevel_def EnvSidecarBind_def EnvSidecarPort_def)
  have bind: "get_env_string debug_env EnvSidecarBind d = ''10.0.0.1''" for d
    by (simp add: get_env_string_def debug_env_def EnvSidecarBind_def EnvSidecarLogLevel_def)
  show ?thesis
    by (simp add: init_config_def merge_file_config_def merge_env_def merge_location_env_def merge_mesh_env_def
      merge_resolver_env_def merge_boot_config_def merge_boot_address_def set_log_level_def merge_boot_recurse_def
      merge_boot_resolvers_def verify_def verify_logger_def level_tables verify_entry_def entry_flags_def merge_logger_env_def
      default_sidecar_config_def empty_boot_def multi_error_def debug_env_bool_int unset bind Let_def)
qed

theorem init_config_precedence_witness:
  "\<exists>s. init_config debug_env ''local'' (\<lambda>d s. Inr s) (Inr None) empty_boot = Ret (Inr s) \<and>
     sd_bind s = ''10.0.0.1'' \<and> sd_port s = 53"
proof -
  obtain s where s: "init_config debug_env ''local'' (\<lambda>d s. Inr s) (Inr None) empty_boot = Ret (Inr s)"
    using debug_config_accepted by blast
  have e: "debug_env EnvSidecarBind = ''10.0.0.1''" "atoi (debug_env EnvSidecarPort) = Inl (LibError ''strconv.Atoi'')"
    by (simp_all add: debug_env_def EnvSidecarBind_def EnvSidecarLogLevel_def EnvSidecarPort_def atoi_def
        digit_val_def char_eval)
  from init_config_precedence[OF s] s show ?thesis
    by (auto simp: e merge_file_config_def default_sidecar_config_def empty_boot_def)
qed

text \<open>The witness: the environment asks for debug messages, the level becomes empty, which the logger takes as \<open>info\<close>.\<close>

theorem log_level_only_from_command_line_witness:
  "\<exists>s l. init_config debug_env ''local'' (\<lambda>d s. Inr s) (Inr None) empty_boot = Ret (Inr s) \<and>
     debug_env EnvSidecarLogLevel = ''debug'' \<and> sd_logger s = Some l \<and>
     lo_output_level (set_default_option l) = ''info''"
proof -
  obtain s where s: "init_config debug_env ''local'' (\<lambda>d s. Inr s) (Inr None) empty_boot = Ret (Inr s)"
    using debug_config_accepted by blast
  obtain l where "sd_logger s = Some l" "lo_output_level l = []"
    using log_level_only_from_command_line[OF s] by (auto simp: empty_boot_def)
  then show ?thesis
    using s by (auto simp: debug_env_def set_default_option_valid)
qed

text \<open>
  The flag of the mesh plugin has no effect unless one of the two flags of the DNS plugin is given too.
\<close>

theorem meshproxy_flag_ignored:
  assumes "bc_dnsagent_enabled boot = []" and "bc_dnsagent_route_labels boot = []"
  shows "init_config E lt decode config_file (boot\<lparr>bc_meshproxy_enabled := v\<rparr>) =
    init_config E lt decode config_file boot"
proof -
  have "merge_boot_address (boot\<lparr>bc_meshproxy_enabled := v\<rparr>) = merge_boot_address boot"
    by (simp add: fun_eq_iff merge_boot_address_def)
  moreover have "merge_boot_recurse (boot\<lparr>bc_meshproxy_enabled := v\<rparr>) s = merge_boot_recurse boot s" for s
    by (cases "sd_recurse s") (simp_all add: merge_boot_recurse_def)
  then have "merge_boot_recurse (boot\<lparr>bc_meshproxy_enabled := v\<rparr>) = merge_boot_recurse boot" ..
  moreover have "merge_boot_resolvers (boot\<lparr>bc_meshproxy_enabled := v\<rparr>) = merge_boot_resolvers boot"
    using assms by (simp add: fun_eq_iff merge_boot_resolvers_def)
  ultimately have eq: "merge_boot_config (boot\<lparr>bc_meshproxy_enabled := v\<rparr>) = merge_boot_config boot"
    by (simp add: fun_eq_iff merge_boot_config_def)
  show ?thesis
    unfolding init_config_def eq ..
qed

theorem meshproxy_flag_ignored_witness:
  "\<exists>s. init_config no_env ''local'' (\<lambda>d s. Inr s) (Inr None) (empty_boot\<lparr>bc_meshproxy_enabled := ''true''\<rparr>) =
     Ret (Inr s)"
  using meshproxy_flag_ignored[of empty_boot no_env "''local''" "\<lambda>d s. Inr s" "Inr None" "''true''"]
    default_config_accepted by (simp add: empty_boot_def)

text \<open>
  Route labels given on the command line reach the DNS plugin as a JSON object where it expects a
  string: with at least one label, the plugin's initialisation fails.
\<close>

theorem route_label_flag_rejected:
  assumes "ce_name c = PluginNameDnsAgent" and "parse_labels (bc_dnsagent_route_labels boot) = Some (l # ls)"
  shows "\<exists>e. snd (dnsagent_initialize get_consumer (fst (merge_resolver_boot boot c)) r) = Some e"
proof -
  let ?v = "OvObj (map (\<lambda>(k, v). (k, OvStr v)) (l # ls))"
  have ne: "bc_dnsagent_route_labels boot \<noteq> []"
    using assms(2) by (auto simp: parse_labels_def)
  obtain opts where opts: "ce_option (fst (merge_resolver_boot boot c)) = Some (gomap_put ''route_labels'' ?v opts)"
    using assms ne
    by (cases "bc_dnsagent_enabled boot = []"; cases "parse_bool_into msg_dnsagent (bc_dnsagent_enabled boot)")
      (auto simp: merge_resolver_boot_def)
  have "to_lower ''route_labels'' = ''route_labels''"
    by (simp add: to_lower_def lower_char_def char_eval)
  then have field: "\<exists>e. dnsagent_field (to_lower ''route_labels'') ?v c' = Inl e" for c'
    by (simp add: dnsagent_field_def)
  have "gomap_get (gomap_put ''route_labels'' ?v opts) ''route_labels'' = Some ?v"
    by simp
  then have "(''route_labels'', ?v) \<in> set (gomap_put ''route_labels'' ?v opts)"
    unfolding gomap_get_def by (rule map_of_SomeD)
  then obtain e where "json_options dnsagent_field (gomap_put ''route_labels'' ?v opts)
      \<lparr>dc_route_labels_map = None, dc_route_labels = []\<rparr> = Inl e"
    using json_options_error[of "''route_labels''" ?v _ dnsagent_field] field by blast
  then have "dnsagent_parse_options (ce_option (fst (merge_resolver_boot boot c))) = Inl e"
    by (simp add: dnsagent_parse_options_def opts Let_def)
  then show ?thesis
    by (simp add: dnsagent_initialize_def)
qed

theorem route_label_flag_rejected_witness:
  "\<exists>e. snd (dnsagent_initialize (Inr (\<lambda>req. Inr []))
     (fst (merge_resolver_boot (empty_boot\<lparr>bc_dnsagent_route_labels := ''env:prod''\<rparr>)
        \<lparr>ce_name = ''dnsagent'', ce_suffix = ''.'', ce_dns_ttl = 10, ce_enable = True, ce_option = None, ce_namespace = []\<rparr>))
     zero_agent) = Some e"
  by (rule route_label_flag_rejected[where l = "(''env'', ''prod'')" and ls = "[]"])
    (simp_all add: empty_boot_def parse_labels_def label_token_def gomap_put_def char_eval)

text \<open>
  A mesh entry without options together with a reload interval or an answer address in the environment
  makes the merge write into a nil map: the start panics.
\<close>

theorem mesh_env_without_options_panics:
  assumes "sd_resolvers s = Some c # cs" and "ce_name c = PluginNameMeshProxy" and "ce_option c = None"
    and "sd_polaris s \<noteq> None" "sd_recurse s \<noteq> None" "sd_logger s \<noteq> None"
    and "atoi (E EnvSidecarMeshReloadInterval) = Inr i" and "i > 0"
  shows "merge_env E lt s = Panic NilMapWrite"
proof -
  have "E EnvSidecarMeshReloadInterval \<noteq> []"
    using assms(7) by (auto simp: atoi_def)
  then have "get_env_int E EnvSidecarMeshReloadInterval 0 = i"
    by (simp add: get_env_int_def assms(7) Let_def)
  then have "merge_resolver_env E ns c = Panic NilMapWrite" for ns
    using assms(2,3,8) by (simp add: merge_resolver_env_def put_option_def Let_def)
  then show ?thesis
    using assms(1,4-6) by (auto simp: merge_env_def Let_def)
qed

theorem mesh_env_without_options_panics_witness:
  "merge_env (\<lambda>nm. if nm = EnvSidecarMeshReloadInterval then ''60'' else []) ''local''
     (default_sidecar_config\<lparr>sd_resolvers := [Some \<lparr>ce_name = ''meshproxy'', ce_suffix = ''.'', ce_dns_ttl = 10,
        ce_enable = True, ce_option = None, ce_namespace = []\<rparr>]\<rparr>) = Panic NilMapWrite"
proof -
  let ?c = "\<lparr>ce_name = ''meshproxy'', ce_suffix = ''.'', ce_dns_ttl = 10,
        ce_enable = True, ce_option = None, ce_namespace = []\<rparr>"
  let ?s = "default_sidecar_config\<lparr>sd_resolvers := [Some ?c]\<rparr>"
  let ?E = "\<lambda>nm. if nm = EnvSidecarMeshReloadInterval then ''60'' else []"
  have "atoi (?E EnvSidecarMeshReloadInterval) = Inr 60"
    by (simp add: atoi_def digit_val_def int64_range_def char_eval)
  moreover have "sd_resolvers ?s = Some ?c # []" "ce_name ?c = PluginNameMeshProxy" "ce_option ?c = None"
    "sd_polaris ?s \<noteq> None" "sd_recurse ?s \<noteq> None" "sd_logger ?s \<noteq> None"
    by (simp_all add: default_sidecar_config_def)
  ultimately show ?thesis
    using mesh_env_without_options_panics[of ?s ?c "[]" ?E 60 "''local''"] by simp
qed

end
