(* ===== verification/Metrics.thy ===== *)
theory Metrics
  imports Complex_Main Config "HOL-Library.Word"
begin

text \<open>
  The metrics server of the mesh (\<open>src/internal/mesh/metrics\<close>): at every tick it reads the clusters
  and the statistics of Envoy and reports the growth of each instance's counters to Polaris. The HTTP
  client, the decoders, the clock and the SDK are arguments.
\<close>

section \<open>What Envoy reports\<close>

text \<open>\<open>stat_object.go\<close>: a field of type \<open>interface{}\<close> is \<open>None\<close> when nil; numbers are floating point, read as the rational they denote.\<close>

datatype any_value = AnyFloat rat | AnyInt int | AnyOther

record cumulative_object =
  cu_cumulative :: "any_value option"
  cu_interval :: "any_value option"

record computed_quantiles =
  cq_name :: string
  cq_values :: "cumulative_object option list"

record histograms =
  hs_computed :: "computed_quantiles option list"
  hs_supported :: "rat list"

record stat =
  st_name :: string
  st_value :: "any_value option"
  st_histograms :: "histograms option"

record stats_object =
  so_stats :: "stat option list"

text \<open>The part of the clusters message of Envoy's administration interface the code reads.\<close>

record socket_address =
  so_address :: string
  so_port :: u32

record host_status =
  ho_address :: "socket_address option option"
  ho_stats :: "(string \<times> 64 word) list"

record cluster_status =
  cl_name :: string
  cl_hosts :: "host_status list"

section \<open>The state of the server\<close>

record metric_key =
  mk_cluster :: string
  mk_host :: string
  mk_port :: u32

record metric_value =
  mv_success :: "64 word"
  mv_error :: "64 word"
  mv_total :: "64 word"
  mv_last_active :: int

definition zero_value :: metric_value where
  "zero_value = \<lparr>mv_success = 0, mv_error = 0, mv_total = 0, mv_last_active = 0\<rparr>"

datatype ret_status = RetSuccess | RetFail

text \<open>The result handed to \<open>UpdateServiceCallResult\<close>; durations are in nanoseconds.\<close>

record call_result =
  cr_status :: ret_status
  cr_namespace :: string
  cr_key :: metric_key
  cr_code :: int
  cr_delay :: "64 word"

datatype report_event = Update call_result | Sleep int

text \<open>
  The SDK answers a call depending on everything that was reported before. The state: the \<open>values\<close>
  map of \<open>Run\<close>, what was done so far, and how often the clock was read.
\<close>

type_synonym sdk = "report_event list \<Rightarrow> call_result \<Rightarrow> go_error option"

record metrics_state =
  mx_values :: "(metric_key, metric_value) gomap"
  mx_events :: "report_event list"
  mx_reads :: nat

definition time_now :: "(nat \<Rightarrow> int) \<Rightarrow> metrics_state \<Rightarrow> int \<times> metrics_state" where
  "time_now clock st = (clock (mx_reads st), st\<lparr>mx_reads := mx_reads st + 1\<rparr>)"

section \<open>Delays\<close>

text \<open>The answer of \<open>http.Get\<close>: an error, or the outcome of reading the body.\<close>

type_synonym http_get = "string \<Rightarrow> go_error + (go_error + string)"

definition stats_url :: string where
  "stats_url = ''http://127.0.0.1:15000/stats?format=json''"

definition get_cluster_stats :: "http_get \<Rightarrow> (string \<Rightarrow> go_error + stats_object) \<Rightarrow> stats_object option" where
  "get_cluster_stats get unmarshal =
     (case get stats_url of
        Inl err \<Rightarrow> None
      | Inr body \<Rightarrow>
          (case body of
             Inl err \<Rightarrow> None
           | Inr text \<Rightarrow> (case unmarshal text of Inl err \<Rightarrow> None | Inr stats_object \<Rightarrow> Some stats_object)))"

text \<open>\<open>clusterRegex\<close>, \<open>^cluster\..+\.upstream_rq_time$\<close>; the dot matches anything but a newline.\<close>

definition cluster_prefix :: string where "cluster_prefix = ''cluster.''"

definition delay_suffix :: string where "delay_suffix = ''.upstream_rq_time''"

definition cluster_regex :: "string \<Rightarrow> bool" where
  "cluster_regex s \<longleftrightarrow> has_prefix s cluster_prefix \<and> has_suffix s delay_suffix \<and>
     length cluster_prefix + length delay_suffix < length s \<and>
     char_of (10 :: nat) \<notin> set (chop (length delay_suffix) (drop (length cluster_prefix) s))"

text \<open>The P50 value of a quantile, its service name, and one step of the inner loop.\<close>

definition delay_name :: "string \<Rightarrow> string option" where
  "delay_name s =
     (case index_of CHR ''.'' s of
        None \<Rightarrow> None
      | Some dot_index \<Rightarrow>
          let svc_name = drop (dot_index + 1) s in
          (case last_index CHR ''.'' svc_name of
             None \<Rightarrow> None
           | Some last_dot_index \<Rightarrow> Some (take last_dot_index svc_name)))"

definition quantile_delay :: "computed_quantiles option \<Rightarrow> (string, rat) gomap \<Rightarrow> (string, rat) gomap go" where
  "quantile_delay q ret =
     (case q of
        None \<Rightarrow> Panic NilDereference
      | Some q \<Rightarrow>
          if \<not> cluster_regex (cq_name q) then Ret ret
          else (case delay_name (cq_name q) of
                  None \<Rightarrow> Ret ret
                | Some svc_name \<Rightarrow>
                    if length (cq_values q) < 3 then Ret ret
                    else (case cq_values q ! 2 of
                            None \<Rightarrow> Panic NilDereference
                          | Some v \<Rightarrow>
                              Ret (case cu_cumulative v of
                                     Some (AnyFloat x) \<Rightarrow> gomap_put svc_name x ret
                                   | Some (AnyInt i) \<Rightarrow> gomap_put svc_name (of_int i) ret
                                   | _ \<Rightarrow> ret))))"

fun quantiles_delay :: "computed_quantiles option list \<Rightarrow> (string, rat) gomap \<Rightarrow> (string, rat) gomap go" where
  "quantiles_delay [] ret = Ret ret"
| "quantiles_delay (q # qs) ret = go_bind (quantile_delay q ret) (quantiles_delay qs)"

fun stats_delay :: "stat option list \<Rightarrow> (string, rat) gomap \<Rightarrow> (string, rat) gomap go" where
  "stats_delay [] ret = Ret ret"
| "stats_delay (None # ss) ret = Panic NilDereference"
| "stats_delay (Some s # ss) ret =
     (case st_histograms s of
        None \<Rightarrow> stats_delay ss ret
      | Some h \<Rightarrow> go_bind (quantiles_delay (hs_computed h) ret) (stats_delay ss))"

definition parse_upstream_delay ::
  "http_get \<Rightarrow> (string \<Rightarrow> go_error + stats_object) \<Rightarrow> (string, rat) gomap go" where
  "parse_upstream_delay get unmarshal =
     (case get_cluster_stats get unmarshal of
        None \<Rightarrow> Ret []
      | Some stats_object \<Rightarrow> stats_delay (so_stats stats_object) [])"

section \<open>Reporting\<close>

text \<open>
  \<open>time.Duration(delay) * time.Millisecond\<close>: truncation towards zero, the smallest integer outside the range
  (as amd64 converts), and multiplication with wrap-around.
\<close>

definition delay_duration :: "rat \<Rightarrow> 64 word" where
  "delay_duration delay =
     (let t = (if delay \<ge> 0 then \<lfloor>delay\<rfloor> else \<lceil>delay\<rceil>) in
      (if int64_range t then word_of_int t else word_of_int (- (2 ^ 63))) * 1000000)"

definition max_retries :: nat where "max_retries = 3"

definition retry_sleep :: "nat \<Rightarrow> int" where
  "retry_sleep attempt =
     (let sleep_time = 2 ^ attempt * 100000000 in if sleep_time > 5000000000 then 5000000000 else sleep_time)"

function report_attempts :: "sdk \<Rightarrow> call_result \<Rightarrow> nat \<Rightarrow> report_event list \<Rightarrow> report_event list" where
  "report_attempts upd res attempt ev =
     (if attempt < max_retries then
        (case upd ev res of
           None \<Rightarrow> ev @ [Update res]
         | Some err \<Rightarrow> report_attempts upd res (attempt + 1) (ev @ [Update res, Sleep (retry_sleep attempt)]))
      else ev)"
  by pat_completeness auto

termination
  by (relation "measure (\<lambda>(upd, res, attempt, ev). max_retries - attempt)") auto

definition report_status ::
  "sdk \<Rightarrow> string \<Rightarrow> metric_key \<Rightarrow> ret_status \<Rightarrow> int \<Rightarrow> rat \<Rightarrow> report_event list \<Rightarrow> report_event list" where
  "report_status upd namespace key status code delay ev =
     report_attempts upd \<lparr>cr_status = status, cr_namespace = namespace, cr_key = key, cr_code = code,
       cr_delay = delay_duration delay\<rparr> 0 ev"

text \<open>The bound of the loops is \<open>int(n)\<close>, negative from \<open>2^63\<close> on.\<close>

definition loop_count :: "64 word \<Rightarrow> nat" where
  "loop_count n = nat (sint n)"

definition report_metrics ::
  "sdk \<Rightarrow> string \<Rightarrow> metric_key \<Rightarrow> metric_value \<Rightarrow> rat \<Rightarrow> report_event list \<Rightarrow> report_event list" where
  "report_metrics upd namespace key sub delay ev =
     (let ev = (report_status upd namespace key RetSuccess 200 delay ^^ loop_count (mv_success sub)) ev
      in (report_status upd namespace key RetFail 500 delay ^^ loop_count (mv_error sub)) ev)"

section \<open>One pass over the clusters\<close>

definition set_counter :: "string \<Rightarrow> 64 word \<Rightarrow> metric_value \<Rightarrow> metric_value" where
  "set_counter nm x v =
     (if nm = ''rq_total'' then v\<lparr>mv_total := x\<rparr>
      else if nm = ''rq_success'' then v\<lparr>mv_success := x\<rparr>
      else if nm = ''rq_error'' then v\<lparr>mv_error := x\<rparr>
      else v)"

fun read_counters :: "(string \<times> 64 word) list \<Rightarrow> metric_value \<Rightarrow> metric_value" where
  "read_counters [] v = v"
| "read_counters ((nm, x) # stats) v = read_counters stats (set_counter nm x v)"

definition growth :: "64 word \<Rightarrow> 64 word \<Rightarrow> 64 word" where
  "growth new old = (if new > old then new - old else 0)"

text \<open>The value to report: all of the first reading of an instance, afterwards the growth.\<close>

definition sub_metric :: "int \<Rightarrow> metric_value \<Rightarrow> metric_value \<Rightarrow> metric_value" where
  "sub_metric now new old =
     \<lparr>mv_success = growth (mv_success new) (mv_success old), mv_error = growth (mv_error new) (mv_error old),
      mv_total = growth (mv_total new) (mv_total old), mv_last_active = now\<rparr>"

definition report_host ::
  "sdk \<Rightarrow> string \<Rightarrow> (nat \<Rightarrow> int) \<Rightarrow> (string, rat) gomap \<Rightarrow> string \<Rightarrow> host_status \<Rightarrow> metrics_state \<Rightarrow> metrics_state" where
  "report_host upd namespace clock delays cluster host st =
     (case ho_address host of
        None \<Rightarrow> st
      | Some None \<Rightarrow> st
      | Some (Some addr) \<Rightarrow>
          let key = \<lparr>mk_cluster = cluster, mk_host = so_address addr, mk_port = so_port addr\<rparr>;
              (now, st) = time_now clock st;
              new = read_counters (ho_stats host) (zero_value\<lparr>mv_last_active := now\<rparr>);
              (sub, st) =
                (case gomap_get (mx_values st) key of
                   None \<Rightarrow> (new, st)
                 | Some old \<Rightarrow> (let (now', st) = time_now clock st in (sub_metric now' new old, st)));
              delay = (case gomap_get delays cluster of None \<Rightarrow> 0 | Some d \<Rightarrow> d)
          in st\<lparr>mx_values := gomap_put key new (mx_values st),
                mx_events := report_metrics upd namespace key sub delay (mx_events st)\<rparr>)"

fun report_hosts ::
  "sdk \<Rightarrow> string \<Rightarrow> (nat \<Rightarrow> int) \<Rightarrow> (string, rat) gomap \<Rightarrow> string \<Rightarrow> host_status list \<Rightarrow> metrics_state \<Rightarrow> metrics_state" where
  "report_hosts upd namespace clock delays cluster [] st = st"
| "report_hosts upd namespace clock delays cluster (h # hs) st =
     report_hosts upd namespace clock delays cluster hs (report_host upd namespace clock delays cluster h st)"

fun report_clusters ::
  "sdk \<Rightarrow> string \<Rightarrow> (nat \<Rightarrow> int) \<Rightarrow> (string, rat) gomap \<Rightarrow> cluster_status list \<Rightarrow> metrics_state \<Rightarrow> metrics_state" where
  "report_clusters upd namespace clock delays [] st = st"
| "report_clusters upd namespace clock delays (c # cs) st =
     report_clusters upd namespace clock delays cs
       (report_hosts upd namespace clock delays (cl_name c) (cl_hosts c) st)"

record metrics_server =
  mxs_port :: int
  mxs_namespace :: string
  mxs_cluster_url :: string

definition cluster_url :: "env \<Rightarrow> metrics_server \<Rightarrow> string" where
  "cluster_url E s =
     (if mxs_cluster_url s = [] then
        (if E ''CLUSTER_METRICS_URL'' = [] then ''http://127.0.0.1:15000'' else E ''CLUSTER_METRICS_URL'')
      else mxs_cluster_url s)"

text \<open>What a tick meets: the HTTP server and the two decoders.\<close>

record envoy =
  ey_get :: http_get
  ey_clusters :: "string \<Rightarrow> go_error + cluster_status list"
  ey_stats :: "string \<Rightarrow> go_error + stats_object"

definition report_metric_by_cluster ::
  "sdk \<Rightarrow> env \<Rightarrow> metrics_server \<Rightarrow> (nat \<Rightarrow> int) \<Rightarrow> envoy \<Rightarrow> metrics_state \<Rightarrow> metrics_state go" where
  "report_metric_by_cluster upd E s clock V st =
     (case ey_get V (cluster_url E s @ ''/clusters?format=json'') of
        Inl err \<Rightarrow> Ret st
      | Inr body \<Rightarrow>
          (case body of
             Inl err \<Rightarrow> Ret st
           | Inr text \<Rightarrow>
               (case ey_clusters V text of
                  Inl err \<Rightarrow> Ret st
                | Inr clusters \<Rightarrow>
                    go_bind (parse_upstream_delay (ey_get V) (ey_stats V)) (\<lambda>delays.
                      Ret (report_clusters upd (mxs_namespace s) clock delays clusters st)))))"

section \<open>The loop\<close>

definition clean_threshold :: nat where "clean_threshold = 10"

definition inactive_duration :: int where "inactive_duration = 5 * 60 * 1000000000"

definition clean_values :: "int \<Rightarrow> (metric_key, metric_value) gomap \<Rightarrow> (metric_key, metric_value) gomap" where
  "clean_values now values = filter (\<lambda>(k, v). \<not> now - mv_last_active v > inactive_duration) values"

definition metrics_tick ::
  "sdk \<Rightarrow> env \<Rightarrow> metrics_server \<Rightarrow> (nat \<Rightarrow> int) \<Rightarrow> envoy \<Rightarrow> nat \<times> metrics_state \<Rightarrow> (nat \<times> metrics_state) go" where
  "metrics_tick upd E s clock V cst =
     (let (clean_counter, st) = cst;
          clean_counter = clean_counter + 1;
          (clean_counter, st) =
            (if clean_counter \<ge> clean_threshold then
               (let (now, st) = time_now clock st
                in (0, st\<lparr>mx_values := clean_values now (mx_values st)\<rparr>))
             else (clean_counter, st))
      in go_bind (report_metric_by_cluster upd E s clock V st) (\<lambda>st. Ret (clean_counter, st)))"

fun metrics_ticks ::
  "sdk \<Rightarrow> env \<Rightarrow> metrics_server \<Rightarrow> (nat \<Rightarrow> int) \<Rightarrow> envoy list \<Rightarrow> nat \<times> metrics_state \<Rightarrow> (nat \<times> metrics_state) go" where
  "metrics_ticks upd E s clock [] cst = Ret cst"
| "metrics_ticks upd E s clock (V # Vs) cst = go_bind (metrics_tick upd E s clock V cst) (metrics_ticks upd E s clock Vs)"

definition metrics_start :: "nat \<times> metrics_state" where
  "metrics_start = (0, \<lparr>mx_values = [], mx_events = [], mx_reads = 0\<rparr>)"

text \<open>\<open>Destroy\<close>, once: whether the consumer is destroyed by this call.\<close>

definition metrics_destroy :: "bool \<Rightarrow> bool \<Rightarrow> bool" where
  "metrics_destroy destroyed has_consumer = (if destroyed then False else has_consumer)"

text \<open>
  \<open>Run\<close>, for the ticks before the stop signal: the error it sends, whether the consumer is destroyed on the way out, and
  the final state of the loop.
\<close>

definition metrics_run ::
  "go_error option \<Rightarrow> sdk \<Rightarrow> env \<Rightarrow> metrics_server option \<Rightarrow> (nat \<Rightarrow> int) \<Rightarrow> envoy list \<Rightarrow>
   (go_error option \<times> bool \<times> (nat \<times> metrics_state)) go" where
  "metrics_run get_consumer upd E srv clock Vs =
     (case srv of
        None \<Rightarrow> Ret (None, False, metrics_start)
      | Some s \<Rightarrow>
          (case get_consumer of
             Some err \<Rightarrow> Ret (Some err, metrics_destroy False False, metrics_start)
           | None \<Rightarrow> go_bind (metrics_ticks upd E s clock Vs metrics_start) (\<lambda>cst. Ret (None, metrics_destroy False True, cst))))"

section \<open>Lemmas: delays\<close>

lemma cluster_prefix_dot: "cluster_prefix = ''cluster'' @ CHR ''.'' # []" "CHR ''.'' \<notin> set ''cluster''"
  by (simp_all add: cluster_prefix_def)

lemma delay_suffix_dot: "delay_suffix = CHR ''.'' # ''upstream_rq_time''" "CHR ''.'' \<notin> set ''upstream_rq_time''"
  by (simp_all add: delay_suffix_def)

lemma cluster_regex_iff:
  "cluster_regex s \<longleftrightarrow> (\<exists>mid. s = cluster_prefix @ mid @ delay_suffix \<and> mid \<noteq> [] \<and> char_of (10 :: nat) \<notin> set mid)"
proof
  assume r: "cluster_regex s"
  then obtain t where t: "s = cluster_prefix @ t"
    by (auto simp: cluster_regex_def has_prefix_iff)
  have len: "length delay_suffix < length t"
    using r by (simp add: cluster_regex_def t)
  obtain p where p: "cluster_prefix @ t = p @ delay_suffix"
    using r by (auto simp: cluster_regex_def has_suffix_iff t)
  define mid where "mid = drop (length cluster_prefix) p"
  have "length cluster_prefix \<le> length p"
    using arg_cong[OF p, of length] len by simp
  then have "t = mid @ delay_suffix"
    using arg_cong[OF p, of "drop (length cluster_prefix)"] by (simp add: mid_def)
  moreover from this len have "mid \<noteq> []"
    by auto
  moreover have "char_of (10 :: nat) \<notin> set mid"
    using r calculation by (simp add: cluster_regex_def t)
  ultimately show "\<exists>mid. s = cluster_prefix @ mid @ delay_suffix \<and> mid \<noteq> [] \<and> char_of (10 :: nat) \<notin> set mid"
    using t by blast
qed (auto simp: cluster_regex_def has_prefix_iff)

lemma delay_name_composed [simp]: "delay_name (cluster_prefix @ mid @ delay_suffix) = Some mid"
proof -
  have "index_of CHR ''.'' (cluster_prefix @ mid @ delay_suffix) = Some 7"
    using index_of_append[of "CHR ''.''" "''cluster''" "mid @ delay_suffix"] by (simp add: cluster_prefix_def)
  moreover have "drop 8 (cluster_prefix @ mid @ delay_suffix) = mid @ delay_suffix"
    by (simp add: cluster_prefix_def)
  moreover have "last_index CHR ''.'' (mid @ delay_suffix) = Some (length mid)"
    using last_index_append[of "CHR ''.''" "''upstream_rq_time''" mid] by (simp add: delay_suffix_def)
  ultimately show ?thesis
    by (simp add: delay_name_def)
qed

section \<open>Lemmas: reporting\<close>

text \<open>The events of \<open>k\<close> refused calls, each followed by its pause.\<close>

definition refused :: "call_result \<Rightarrow> nat \<Rightarrow> report_event list" where
  "refused res k = concat (map (\<lambda>i. [Update res, Sleep (2 ^ i * 100000000)]) [0..<k])"

lemma refused_simps [simp]:
  "refused res 0 = []" "refused res (Suc k) = refused res k @ [Update res, Sleep (2 ^ k * 100000000)]"
  by (simp_all add: refused_def)

lemma retry_sleep_below [simp]: "a < 3 \<Longrightarrow> retry_sleep a = 2 ^ a * 100000000"
  by (auto simp: retry_sleep_def Let_def less_Suc_eq numeral_3_eq_3)

declare report_attempts.simps [simp del]

lemma report_attempts_from:
  assumes "a \<le> 3" and "\<forall>i<a. upd (ev @ refused res i) res \<noteq> None"
  shows "\<exists>k. a \<le> k \<and> k \<le> 3 \<and> (\<forall>i<k. upd (ev @ refused res i) res \<noteq> None) \<and>
    (k < 3 \<longrightarrow> upd (ev @ refused res k) res = None) \<and>
    report_attempts upd res a (ev @ refused res a) = ev @ refused res k @ (if k < 3 then [Update res] else [])"
  using assms
proof (induction "3 - a" arbitrary: a)
  case 0
  then show ?case
    by (intro exI[of _ 3]) (simp add: report_attempts.simps max_retries_def)
next
  case (Suc n)
  then have a: "a < 3" by simp
  show ?case
  proof (cases "upd (ev @ refused res a) res")
    case None
    with a Suc.prems show ?thesis
      by (intro exI[of _ a]) (simp add: report_attempts.simps max_retries_def)
  next
    case (Some err)
    have "\<forall>i<Suc a. upd (ev @ refused res i) res \<noteq> None"
      using Suc.prems(2) Some by (auto simp: less_Suc_eq)
    moreover have "report_attempts upd res a (ev @ refused res a) =
        report_attempts upd res (Suc a) (ev @ refused res (Suc a))"
      using a Some by (subst report_attempts.simps) (simp add: max_retries_def)
    moreover have "n = 3 - Suc a" "Suc a \<le> 3"
      using Suc.hyps(2) a by simp_all
    ultimately obtain k where "Suc a \<le> k" "k \<le> 3" "\<forall>i<k. upd (ev @ refused res i) res \<noteq> None"
      "k < 3 \<longrightarrow> upd (ev @ refused res k) res = None"
      "report_attempts upd res a (ev @ refused res a) = ev @ refused res k @ (if k < 3 then [Update res] else [])"
      using Suc.hyps(1)[of "Suc a"] by metis
    then show ?thesis
      by (intro exI[of _ k]) simp
  qed
qed

text \<open>An SDK that takes every call.\<close>

definition accept :: sdk where
  "accept = (\<lambda>ev res. None)"

lemma report_attempts_accept [simp]: "report_attempts accept res 0 ev = ev @ [Update res]"
  by (simp add: report_attempts.simps max_retries_def accept_def)

definition host_result :: "string \<Rightarrow> metric_key \<Rightarrow> ret_status \<Rightarrow> int \<Rightarrow> rat \<Rightarrow> call_result" where
  "host_result namespace key status code delay = \<lparr>cr_status = status, cr_namespace = namespace, cr_key = key,
     cr_code = code, cr_delay = delay_duration delay\<rparr>"

lemma report_status_accept [simp]:
  "report_status accept namespace key status code delay ev = ev @ [Update (host_result namespace key status code delay)]"
  by (simp add: report_status_def host_result_def)

lemma append_funpow: "((\<lambda>ev. ev @ [x]) ^^ n) ev = ev @ replicate n x"
  by (induction n) (simp_all add: replicate_append_same)

lemma report_metrics_accept:
  "report_metrics accept namespace key sub delay ev =
     ev @ replicate (loop_count (mv_success sub)) (Update (host_result namespace key RetSuccess 200 delay)) @
     replicate (loop_count (mv_error sub)) (Update (host_result namespace key RetFail 500 delay))"
proof -
  have "report_status accept namespace key status code delay = (\<lambda>ev. ev @ [Update (host_result namespace key status code delay)])"
    for status code by (rule ext) simp
  then show ?thesis
    by (simp add: report_metrics_def append_funpow)
qed

text \<open>How many calls with a status were made for an instance.\<close>

definition is_report :: "ret_status \<Rightarrow> metric_key \<Rightarrow> report_event \<Rightarrow> bool" where
  "is_report status key e = (case e of Update res \<Rightarrow> cr_status res = status \<and> cr_key res = key | Sleep d \<Rightarrow> False)"

definition reported :: "ret_status \<Rightarrow> metric_key \<Rightarrow> report_event list \<Rightarrow> nat" where
  "reported status key ev = length (filter (is_report status key) ev)"

definition counter_of :: "ret_status \<Rightarrow> metric_value \<Rightarrow> 64 word" where
  "counter_of status v = (case status of RetSuccess \<Rightarrow> mv_success v | RetFail \<Rightarrow> mv_error v)"

lemma reported_report_metrics:
  "reported status key (report_metrics accept namespace key' sub delay ev) =
     reported status key ev + (if key' = key then loop_count (counter_of status sub) else 0)"
  by (cases status) (simp_all add: report_metrics_accept reported_def is_report_def host_result_def counter_of_def filter_replicate)

section \<open>Lemmas: what a sequence of readings amounts to\<close>

text \<open>The readings of one counter of an instance, in the order of the passes, and the growth they add up to.\<close>

definition host_key :: "string \<Rightarrow> host_status \<Rightarrow> metric_key option" where
  "host_key cluster host = map_option (\<lambda>a. \<lparr>mk_cluster = cluster, mk_host = so_address a, mk_port = so_port a\<rparr>)
     (Option.bind (ho_address host) (\<lambda>a. a))"

definition host_reading :: "ret_status \<Rightarrow> metric_key \<Rightarrow> string \<Rightarrow> host_status \<Rightarrow> 64 word list" where
  "host_reading status key cluster host =
     (if host_key cluster host = Some key then [counter_of status (read_counters (ho_stats host) zero_value)] else [])"

definition cluster_readings :: "ret_status \<Rightarrow> metric_key \<Rightarrow> cluster_status list \<Rightarrow> 64 word list" where
  "cluster_readings status key clusters =
     concat (map (\<lambda>c. concat (map (host_reading status key (cl_name c)) (cl_hosts c))) clusters)"

fun total_growth :: "64 word option \<Rightarrow> 64 word list \<Rightarrow> nat" where
  "total_growth old [] = 0"
| "total_growth old (x # xs) =
     loop_count (case old of None \<Rightarrow> x | Some o' \<Rightarrow> growth x o') + total_growth (Some x) xs"

definition latest_of :: "64 word option \<Rightarrow> 64 word list \<Rightarrow> 64 word option" where
  "latest_of old xs = (if xs = [] then old else Some (List.last xs))"

lemma latest_of_simps [simp]: "latest_of old [] = old" "latest_of old (x # xs) = latest_of (Some x) xs"
  by (simp_all add: latest_of_def)

lemma latest_of_append [simp]: "latest_of old (xs @ ys) = latest_of (latest_of old xs) ys"
  by (simp add: latest_of_def)

lemma total_growth_append: "total_growth old (xs @ ys) = total_growth old xs + total_growth (latest_of old xs) ys"
  by (induction xs arbitrary: old) simp_all

lemma set_counter_last [simp]:
  "set_counter nm x (v\<lparr>mv_last_active := n\<rparr>) = (set_counter nm x v)\<lparr>mv_last_active := n\<rparr>"
proof -
  have "v\<lparr>mv_last_active := n, mv_total := x\<rparr> = v\<lparr>mv_total := x, mv_last_active := n\<rparr>"
    "v\<lparr>mv_last_active := n, mv_success := x\<rparr> = v\<lparr>mv_success := x, mv_last_active := n\<rparr>"
    "v\<lparr>mv_last_active := n, mv_error := x\<rparr> = v\<lparr>mv_error := x, mv_last_active := n\<rparr>"
    by (cases v; simp)+
  then show ?thesis
    by (simp add: set_counter_def)
qed

lemma read_counters_last [simp]:
  "read_counters ss (v\<lparr>mv_last_active := n\<rparr>) = (read_counters ss v)\<lparr>mv_last_active := n\<rparr>"
  by (induction ss v rule: read_counters.induct) simp_all

lemma counter_of_last [simp]: "counter_of status (v\<lparr>mv_last_active := n\<rparr>) = counter_of status v"
  by (cases status) (simp_all add: counter_of_def)

lemma counter_of_sub [simp]:
  "counter_of status (sub_metric now new old) = growth (counter_of status new) (counter_of status old)"
  by (cases status) (simp_all add: counter_of_def sub_metric_def)

definition latest :: "ret_status \<Rightarrow> metric_key \<Rightarrow> metrics_state \<Rightarrow> 64 word option" where
  "latest status key st = map_option (counter_of status) (gomap_get (mx_values st) key)"

lemma report_host_no_key [simp]: "host_key cluster host = None \<Longrightarrow> report_host upd ns clock delays cluster host st = st"
  by (cases "ho_address host"; cases "the (ho_address host)") (auto simp: report_host_def host_key_def)

lemma report_host_result:
  assumes "host_key cluster host = Some key"
  shows "\<exists>sub delay i j. report_host upd ns clock delays cluster host st = st\<lparr>
      mx_reads := j,
      mx_values := gomap_put key ((read_counters (ho_stats host) zero_value)\<lparr>mv_last_active := clock i\<rparr>) (mx_values st),
      mx_events := report_metrics upd ns key sub delay (mx_events st)\<rparr> \<and>
    mx_reads st \<le> i \<and> i < j \<and>
    (\<forall>status. counter_of status sub =
      (case latest status key st of
         None \<Rightarrow> counter_of status (read_counters (ho_stats host) zero_value)
       | Some old \<Rightarrow> growth (counter_of status (read_counters (ho_stats host) zero_value)) old))"
proof -
  obtain a where a: "ho_address host = Some (Some a)"
    "key = \<lparr>mk_cluster = cluster, mk_host = so_address a, mk_port = so_port a\<rparr>"
    using assms by (auto simp: host_key_def bind_eq_Some_conv)
  let ?new = "(read_counters (ho_stats host) zero_value)\<lparr>mv_last_active := clock (mx_reads st)\<rparr>"
  let ?delay = "case gomap_get delays cluster of None \<Rightarrow> 0 | Some d \<Rightarrow> d"
  show ?thesis
  proof (cases "gomap_get (mx_values st) key")
    case None
    then show ?thesis
      by (intro exI[of _ ?new] exI[of _ ?delay] exI[of _ "mx_reads st"] exI[of _ "mx_reads st + 1"])
        (simp add: report_host_def a time_now_def latest_def Let_def)
  next
    case (Some old)
    then show ?thesis
      by (intro exI[of _ "sub_metric (clock (mx_reads st + 1)) ?new old"] exI[of _ ?delay] exI[of _ "mx_reads st"]
          exI[of _ "mx_reads st + 2"])
        (simp add: report_host_def a time_now_def latest_def Let_def)
  qed
qed

lemma report_host_counts:
  "latest status key (report_host accept ns clock delays cluster host st) =
     latest_of (latest status key st) (host_reading status key cluster host)"
  "reported status key (mx_events (report_host accept ns clock delays cluster host st)) =
     reported status key (mx_events st) + total_growth (latest status key st) (host_reading status key cluster host)"
proof -
  have "latest status key (report_host accept ns clock delays cluster host st) =
      latest_of (latest status key st) (host_reading status key cluster host) \<and>
    reported status key (mx_events (report_host accept ns clock delays cluster host st)) =
      reported status key (mx_events st) + total_growth (latest status key st) (host_reading status key cluster host)"
  proof (cases "host_key cluster host")
    case None
    then show ?thesis by (simp add: host_reading_def)
  next
    case (Some k)
    obtain sub delay i j where r: "report_host accept ns clock delays cluster host st = st\<lparr>mx_reads := j,
        mx_values := gomap_put k ((read_counters (ho_stats host) zero_value)\<lparr>mv_last_active := clock i\<rparr>) (mx_values st),
        mx_events := report_metrics accept ns k sub delay (mx_events st)\<rparr>"
      and sub: "\<forall>status. counter_of status sub =
        (case latest status k st of
           None \<Rightarrow> counter_of status (read_counters (ho_stats host) zero_value)
         | Some old \<Rightarrow> growth (counter_of status (read_counters (ho_stats host) zero_value)) old)"
      using report_host_result[OF Some, of accept ns clock delays st] by blast
    show ?thesis
    proof (cases "k = key")
      case True
      then show ?thesis
        by (simp add: r host_reading_def Some reported_report_metrics sub) (simp add: latest_def)
    next
      case False
      then have "gomap_get (mx_values (report_host accept ns clock delays cluster host st)) key =
          gomap_get (mx_values st) key"
        by (simp add: r)
      then have "latest status key (report_host accept ns clock delays cluster host st) = latest status key st"
        by (simp add: latest_def)
      then show ?thesis
        using False by (simp add: r host_reading_def Some reported_report_metrics)
    qed
  qed
  then show "latest status key (report_host accept ns clock delays cluster host st) =
     latest_of (latest status key st) (host_reading status key cluster host)"
  "reported status key (mx_events (report_host accept ns clock delays cluster host st)) =
     reported status key (mx_events st) + total_growth (latest status key st) (host_reading status key cluster host)"
    by auto
qed

lemma report_hosts_counts:
  "latest status key (report_hosts accept ns clock delays cluster hs st) =
     latest_of (latest status key st) (concat (map (host_reading status key cluster) hs)) \<and>
   reported status key (mx_events (report_hosts accept ns clock delays cluster hs st)) =
     reported status key (mx_events st) +
     total_growth (latest status key st) (concat (map (host_reading status key cluster) hs))"
  by (induction hs arbitrary: st) (simp_all add: report_host_counts total_growth_append)

lemma report_clusters_counts:
  "latest status key (report_clusters accept ns clock delays cs st) =
     latest_of (latest status key st) (cluster_readings status key cs) \<and>
   reported status key (mx_events (report_clusters accept ns clock delays cs st)) =
     reported status key (mx_events st) + total_growth (latest status key st) (cluster_readings status key cs)"
  by (induction cs arbitrary: st)
    (simp_all add: report_hosts_counts total_growth_append cluster_readings_def)

text \<open>What a tick reads: nothing when the request, the body or the decoding fails.\<close>

definition tick_clusters :: "env \<Rightarrow> metrics_server \<Rightarrow> envoy \<Rightarrow> cluster_status list" where
  "tick_clusters E s V =
     (case ey_get V (cluster_url E s @ ''/clusters?format=json'') of
        Inr (Inr text) \<Rightarrow> (case ey_clusters V text of Inr clusters \<Rightarrow> clusters | Inl err \<Rightarrow> [])
      | _ \<Rightarrow> [])"

lemma report_metric_by_cluster_result:
  assumes "report_metric_by_cluster upd E s clock V st = Ret st'"
  shows "\<exists>delays. st' = report_clusters upd (mxs_namespace s) clock delays (tick_clusters E s V) st"
proof (cases "ey_get V (cluster_url E s @ ''/clusters?format=json'')")
  case (Inl err)
  with assms show ?thesis by (simp add: report_metric_by_cluster_def tick_clusters_def)
next
  case body: (Inr body)
  show ?thesis
  proof (cases body)
    case (Inl err)
    with assms body show ?thesis by (simp add: report_metric_by_cluster_def tick_clusters_def)
  next
    case (Inr doc)
    show ?thesis
    proof (cases "ey_clusters V doc")
      case (Inl err)
      with assms body Inr show ?thesis by (simp add: report_metric_by_cluster_def tick_clusters_def)
    next
      case clusters: (Inr clusters)
      with assms body Inr show ?thesis
        by (auto simp: report_metric_by_cluster_def tick_clusters_def go_bind_Ret_iff)
    qed
  qed
qed

section \<open>Lemmas: the ticks\<close>

lemma metrics_tick_result:
  assumes "metrics_tick upd E s clock V (c, st) = Ret (c', st')"
  shows "\<exists>delays. c' = (if c + 1 \<ge> 10 then 0 else c + 1) \<and>
    st' = report_clusters upd (mxs_namespace s) clock delays (tick_clusters E s V)
      (if c + 1 \<ge> 10 then st\<lparr>mx_reads := mx_reads st + 1, mx_values := clean_values (clock (mx_reads st)) (mx_values st)\<rparr>
       else st)"
proof (cases "c + 1 \<ge> 10")
  case True
  then have "c' = 0" "report_metric_by_cluster upd E s clock V
      (st\<lparr>mx_reads := mx_reads st + 1, mx_values := clean_values (clock (mx_reads st)) (mx_values st)\<rparr>) = Ret st'"
    using assms by (auto simp: metrics_tick_def clean_threshold_def time_now_def go_bind_Ret_iff)
  then show ?thesis
    using True report_metric_by_cluster_result by fastforce
next
  case False
  then have "c' = c + 1" "report_metric_by_cluster upd E s clock V st = Ret st'"
    using assms by (auto simp: metrics_tick_def clean_threshold_def go_bind_Ret_iff)
  then show ?thesis
    using False report_metric_by_cluster_result by fastforce
qed

lemma metrics_ticks_ConsE:
  assumes "metrics_ticks upd E s clock (V # Vs) cst = Ret r"
  obtains c1 st1 where "metrics_tick upd E s clock V cst = Ret (c1, st1)" "metrics_ticks upd E s clock Vs (c1, st1) = Ret r"
  using assms by (auto simp: go_bind_Ret_iff)

definition tick_readings :: "env \<Rightarrow> metrics_server \<Rightarrow> ret_status \<Rightarrow> metric_key \<Rightarrow> envoy list \<Rightarrow> 64 word list" where
  "tick_readings E s status key Vs = concat (map (\<lambda>V. cluster_readings status key (tick_clusters E s V)) Vs)"

lemma metrics_ticks_counts:
  assumes "metrics_ticks accept E s clock Vs (c, st) = Ret (c', st')" and "c + length Vs < 10"
  shows "reported status key (mx_events st') =
    reported status key (mx_events st) + total_growth (latest status key st) (tick_readings E s status key Vs)"
  using assms
proof (induction Vs arbitrary: c st)
  case (Cons V Vs)
  obtain c1 st1 where t: "metrics_tick accept E s clock V (c, st) = Ret (c1, st1)"
    "metrics_ticks accept E s clock Vs (c1, st1) = Ret (c', st')"
    using metrics_ticks_ConsE[OF Cons.prems(1)] .
  obtain delays where d: "c1 = c + 1"
    "st1 = report_clusters accept (mxs_namespace s) clock delays (tick_clusters E s V) st"
    using metrics_tick_result[OF t(1)] Cons.prems(2) by auto
  then show ?case
    using Cons.IH[OF t(2)] Cons.prems(2) report_clusters_counts[of status key]
    by (simp add: total_growth_append tick_readings_def)
qed (simp add: tick_readings_def)

lemma loop_count_small:
  assumes "unat (x :: 64 word) < 2 ^ 63"
  shows "loop_count x = unat x"
proof -
  have u: "uint x = int (unat x)" by simp
  have "uint x < 2 ^ 63"
    unfolding u using assms by (simp only: of_nat_less_numeral_power_cancel_iff)
  moreover have "- (2 ^ 63) \<le> uint x"
    unfolding u by (rule order_trans[of _ 0]) simp_all
  ultimately have "signed_take_bit 63 (uint x) = uint x"
    by (intro signed_take_bit_int_eq_self)
  moreover have "sint x = signed_take_bit 63 (uint x)"
    by (simp add: sint_uint)
  ultimately show ?thesis
    unfolding loop_count_def u by (simp only: nat_int)
qed

lemma total_growth_monotone:
  assumes "sorted xs" and "xs \<noteq> []" and "unat (List.last xs) < 2 ^ 63"
  shows "total_growth None xs = unat (List.last xs)"
proof -
  have grow: "unat o' + total_growth (Some o') xs = unat (List.last (o' # xs))"
    if "sorted (o' # xs)" "unat (List.last (o' # xs)) < 2 ^ 63" for o' xs
    using that
  proof (induction xs arbitrary: o')
    case (Cons x xs)
    have le: "o' \<le> x" "x \<le> List.last (x # xs)"
      using Cons.prems(1) by (simp, cases "xs = []") auto
    have diff: "unat (growth x o') = unat x - unat o'"
      using le(1) by (auto simp: growth_def unat_sub)
    have "unat x < 2 ^ 63"
      using le(2) Cons.prems(2) by (simp add: word_le_nat_alt)
    then have "loop_count (growth x o') = unat x - unat o'"
      using diff by (subst loop_count_small) simp_all
    moreover have "unat o' \<le> unat x"
      using le(1) by (simp add: word_le_nat_alt)
    ultimately show ?case
      using Cons.IH[of x] Cons.prems by simp
  qed simp
  obtain x ys where xs: "xs = x # ys"
    using assms(2) by (cases xs) auto
  have "x \<le> List.last xs"
    using assms(1,2) xs by (cases "ys = []") auto
  then have "loop_count x = unat x"
    using assms(3) by (intro loop_count_small) (simp add: word_le_nat_alt)
  then show ?thesis
    using grow[of x ys] assms(1,3) xs by simp
qed

text \<open>Every entry was read, or is at most the inactive duration older than some reading of the clock, since the reading \<open>r\<close>.\<close>

definition fresh :: "(nat \<Rightarrow> int) \<Rightarrow> nat \<Rightarrow> metrics_state \<Rightarrow> bool" where
  "fresh clock r st \<longleftrightarrow> r \<le> mx_reads st \<and>
     (\<forall>(k, v) \<in> set (mx_values st). \<exists>i\<ge>r. clock i - mv_last_active v \<le> inactive_duration)"

lemma fresh_mono: "fresh clock r st \<Longrightarrow> r' \<le> r \<Longrightarrow> fresh clock r' st"
  unfolding fresh_def by (auto dest!: bspec) (meson order_trans)

lemma set_gomap_put: "set (gomap_put k v m) \<subseteq> insert (k, v) (set m)"
  by (induction m) (auto simp: gomap_put_def)

lemma report_host_reads: "mx_reads st \<le> mx_reads (report_host upd ns clock delays cluster h st)"
proof (cases "host_key cluster h")
  case (Some key)
  from report_host_result[OF this, of upd ns clock delays st] show ?thesis by auto
qed simp

lemma fresh_report_host:
  assumes "fresh clock r st"
  shows "fresh clock r (report_host upd ns clock delays cluster h st)"
proof (cases "host_key cluster h")
  case None
  with assms show ?thesis by simp
next
  case (Some key)
  obtain sub delay i j where st': "report_host upd ns clock delays cluster h st = st\<lparr>mx_reads := j,
      mx_values := gomap_put key ((read_counters (ho_stats h) zero_value)\<lparr>mv_last_active := clock i\<rparr>) (mx_values st),
      mx_events := report_metrics upd ns key sub delay (mx_events st)\<rparr>" and i: "mx_reads st \<le> i" "i < j"
    using report_host_result[OF Some, of upd ns clock delays st] by blast
  let ?v = "(read_counters (ho_stats h) zero_value)\<lparr>mv_last_active := clock i\<rparr>"
  have "\<exists>i\<ge>r. clock i - mv_last_active v \<le> inactive_duration"
    if "(k, v) \<in> set (gomap_put key ?v (mx_values st))" for k v
  proof (cases "(k, v) = (key, ?v)")
    case True
    with assms i show ?thesis
      by (intro exI[of _ i]) (simp add: fresh_def inactive_duration_def)
  next
    case False
    then have "(k, v) \<in> set (mx_values st)"
      using that set_gomap_put[of key ?v "mx_values st"] by blast
    with assms show ?thesis by (auto simp: fresh_def)
  qed
  moreover have "r \<le> j"
    using assms i by (simp add: fresh_def)
  ultimately show ?thesis
    by (auto simp: st' fresh_def)
qed

lemma report_clusters_fresh:
  "fresh clock r st \<Longrightarrow> fresh clock r (report_clusters upd ns clock delays cs st)"
proof (induction cs arbitrary: st)
  case (Cons c cs)
  have "fresh clock r (report_hosts upd ns clock delays cluster hs st)" if "fresh clock r st" for cluster hs st
    using that by (induction hs arbitrary: st) (simp_all add: fresh_report_host)
  with Cons show ?case by simp
qed simp

lemma report_clusters_reads: "mx_reads st \<le> mx_reads (report_clusters upd ns clock delays cs st)"
proof (induction cs arbitrary: st)
  case (Cons c cs)
  have "mx_reads st \<le> mx_reads (report_hosts upd ns clock delays cluster hs st)" for cluster hs
    by (induction hs arbitrary: st) (auto intro: order_trans[OF report_host_reads])
  with Cons.IH show ?case
    by (auto intro: order_trans)
qed simp

text \<open>The state a pass works on: cleaned when the counter is due.\<close>

definition cleaned :: "(nat \<Rightarrow> int) \<Rightarrow> nat \<Rightarrow> metrics_state \<Rightarrow> metrics_state" where
  "cleaned clock c st =
     (if c + 1 \<ge> 10 then st\<lparr>mx_reads := mx_reads st + 1, mx_values := clean_values (clock (mx_reads st)) (mx_values st)\<rparr>
      else st)"

lemma cleaned_reads: "mx_reads st \<le> mx_reads (cleaned clock c st)"
  by (simp add: cleaned_def)

lemma fresh_cleaned: "fresh clock r st \<Longrightarrow> fresh clock r (cleaned clock c st)"
  by (auto simp: cleaned_def fresh_def clean_values_def)

lemma cleaned_fresh: "c + 1 \<ge> 10 \<Longrightarrow> fresh clock (mx_reads st) (cleaned clock c st)"
  by (auto simp: cleaned_def fresh_def clean_values_def)

lemma metrics_tick_cleaned:
  assumes "metrics_tick upd E s clock V (c, st) = Ret (c', st')"
  shows "\<exists>delays. c' = (if c + 1 \<ge> 10 then 0 else c + 1) \<and>
    st' = report_clusters upd (mxs_namespace s) clock delays (tick_clusters E s V) (cleaned clock c st)"
  using metrics_tick_result[OF assms] unfolding cleaned_def .

lemma metrics_ticks_fresh:
  assumes "metrics_ticks upd E s clock Vs (c, st) = Ret (c', st')" and "fresh clock r st"
  shows "fresh clock r st'"
  using assms
proof (induction Vs arbitrary: c st)
  case (Cons V Vs)
  obtain c1 st1 where t: "metrics_tick upd E s clock V (c, st) = Ret (c1, st1)"
    "metrics_ticks upd E s clock Vs (c1, st1) = Ret (c', st')"
    using metrics_ticks_ConsE[OF Cons.prems(1)] .
  then show ?case
    using Cons.IH[OF t(2)] metrics_tick_cleaned[OF t(1)] report_clusters_fresh fresh_cleaned Cons.prems(2) by metis
qed simp

lemma metrics_ticks_cleans:
  assumes "metrics_ticks upd E s clock Vs (c, st) = Ret (c', st')" and "10 \<le> c + length Vs" and "c < 10"
  shows "fresh clock (mx_reads st) st'"
  using assms
proof (induction Vs arbitrary: c st)
  case (Cons V Vs)
  obtain c1 st1 where t: "metrics_tick upd E s clock V (c, st) = Ret (c1, st1)"
    "metrics_ticks upd E s clock Vs (c1, st1) = Ret (c', st')"
    using metrics_ticks_ConsE[OF Cons.prems(1)] .
  obtain delays where d: "c1 = (if c + 1 \<ge> 10 then 0 else c + 1)"
    "st1 = report_clusters upd (mxs_namespace s) clock delays (tick_clusters E s V) (cleaned clock c st)"
    using metrics_tick_cleaned[OF t(1)] by blast
  show ?case
  proof (cases "c + 1 \<ge> 10")
    case True
    then have "fresh clock (mx_reads st) st1"
      unfolding d(2) by (intro report_clusters_fresh cleaned_fresh)
    then show ?thesis
      by (rule metrics_ticks_fresh[OF t(2)])
  next
    case False
    then have "fresh clock (mx_reads st1) st'"
      using Cons.IH[OF t(2)] Cons.prems d(1) by simp
    moreover have "mx_reads st \<le> mx_reads st1"
      unfolding d(2) using report_clusters_reads cleaned_reads order_trans by blast
    ultimately show ?thesis
      by (rule fresh_mono)
  qed
qed simp

section \<open>Properties\<close>

text \<open>
  C25. A report calls the SDK at most three times, whatever the SDK answers: it stops after the first call
  that is taken, pauses 100, 200 and 400 ms after the refused ones (so the limit of 5 s is never reached), and gives
  up after the third.
\<close>

theorem report_status_retries:
  "\<exists>res k. report_status upd namespace key status code delay ev =
      ev @ refused res k @ (if k < 3 then [Update res] else []) \<and> k \<le> 3 \<and>
    cr_key res = key \<and> cr_status res = status \<and>
    (\<forall>i<k. upd (ev @ refused res i) res \<noteq> None) \<and> (k < 3 \<longrightarrow> upd (ev @ refused res k) res = None)"
proof -
  let ?res = "\<lparr>cr_status = status, cr_namespace = namespace, cr_key = key, cr_code = code, cr_delay = delay_duration delay\<rparr>"
  obtain k where "k \<le> 3" "\<forall>i<k. upd (ev @ refused ?res i) ?res \<noteq> None" "k < 3 \<longrightarrow> upd (ev @ refused ?res k) ?res = None"
    "report_attempts upd ?res 0 (ev @ refused ?res 0) = ev @ refused ?res k @ (if k < 3 then [Update ?res] else [])"
    using report_attempts_from[of 0 upd ev ?res] by auto
  then show ?thesis
    by (intro exI[of _ ?res] exI[of _ k]) (simp add: report_status_def)
qed

definition sample_key :: metric_key where
  "sample_key = \<lparr>mk_cluster = ''reviews'', mk_host = ''10.0.0.7'', mk_port = 9080\<rparr>"

text \<open>The witness: an SDK that refuses the first call and takes the second.\<close>

theorem report_status_retries_witness:
  "\<exists>res. report_status (\<lambda>ev res. if ev = [] then Some (LibError ''timeout'') else None) ''default'' sample_key
     RetSuccess 200 0 [] = [Update res, Sleep 100000000, Update res]"
proof -
  let ?upd = "\<lambda>ev res. if ev = [] then Some (LibError ''timeout'') else None"
  obtain res k where r: "report_status ?upd ''default'' sample_key RetSuccess 200 0 [] =
      [] @ refused res k @ (if k < 3 then [Update res] else [])" "k \<le> 3"
    "\<forall>i<k. ?upd ([] @ refused res i) res \<noteq> None" "k < 3 \<longrightarrow> ?upd ([] @ refused res k) res = None"
    using report_status_retries[of ?upd "''default''" sample_key RetSuccess 200 0 "[]"] by auto
  have "k \<noteq> 0"
    using r(4) by (intro notI) simp
  moreover have "\<not> 1 < k"
    using r(3) by (auto dest!: spec[of _ 1])
  ultimately have "k = 1"
    by simp
  with r(1) show ?thesis
    by auto
qed

text \<open>
  C24. Within ten ticks (five minutes) the number of calls reported for an instance is its counter: with
  an SDK that takes every call and readings that never go down, the first reading is reported in full and then the growth
  up to the last reading, each request once.
\<close>

theorem reports_sum_to_counter:
  assumes "metrics_ticks accept E s clock Vs metrics_start = Ret (c, st)" and "length Vs < 10"
    and "tick_readings E s status key Vs \<noteq> []" and "sorted (tick_readings E s status key Vs)"
    and "unat (List.last (tick_readings E s status key Vs)) < 2 ^ 63"
  shows "reported status key (mx_events st) = unat (List.last (tick_readings E s status key Vs))"
  using metrics_ticks_counts[of E s clock Vs 0 _ c st status key] assms
  by (simp add: metrics_start_def total_growth_monotone latest_def reported_def)

definition sample_envoy :: "64 word \<Rightarrow> envoy" where
  "sample_envoy n = \<lparr>ey_get = (\<lambda>url. Inr (Inr url)),
     ey_clusters = (\<lambda>text. Inr [\<lparr>cl_name = ''reviews'', cl_hosts = [\<lparr>
        ho_address = Some (Some \<lparr>so_address = ''10.0.0.7'', so_port = 9080\<rparr>),
        ho_stats = [(''rq_success'', n), (''rq_total'', n)]\<rparr>]\<rparr>]),
     ey_stats = (\<lambda>text. Inl (LibError ''json''))\<rparr>"

definition sample_server :: metrics_server where
  "sample_server = \<lparr>mxs_port = 15985, mxs_namespace = ''default'', mxs_cluster_url = []\<rparr>"

lemma sample_tick_clusters:
  "cluster_readings RetSuccess sample_key (tick_clusters E s (sample_envoy n)) = [n]"
  by (simp add: tick_clusters_def sample_envoy_def cluster_readings_def host_reading_def host_key_def
      sample_key_def counter_of_def set_counter_def)

lemma sample_report [simp]:
  "report_metric_by_cluster upd E s clock (sample_envoy n) st =
     Ret (report_clusters upd (mxs_namespace s) clock [] (tick_clusters E s (sample_envoy n)) st)"
  by (simp add: report_metric_by_cluster_def tick_clusters_def sample_envoy_def parse_upstream_delay_def
      get_cluster_stats_def)

lemma sample_ticks_return:
  "\<exists>c st. metrics_ticks upd E s clock (map sample_envoy ns) cst = Ret (c, st)"
proof (induction ns arbitrary: cst)
  case (Cons n ns)
  obtain c st where cst: "cst = (c, st)" by fastforce
  show ?case
    using Cons.IH by (cases "c + 1 \<ge> 10")
      (simp_all add: cst metrics_tick_def clean_threshold_def time_now_def)
qed (cases cst; simp)

theorem reports_sum_to_counter_witness:
  "\<exists>c st. metrics_ticks accept (\<lambda>nm. []) sample_server (\<lambda>i. int i) (map sample_envoy [2, 2, 5]) metrics_start = Ret (c, st) \<and>
     reported RetSuccess sample_key (mx_events st) = 5"
proof -
  let ?Vs = "map sample_envoy [2, 2, 5]"
  obtain c st where t: "metrics_ticks accept (\<lambda>nm. []) sample_server (\<lambda>i. int i) ?Vs metrics_start = Ret (c, st)"
    using sample_ticks_return by blast
  have "tick_readings (\<lambda>nm. []) sample_server RetSuccess sample_key ?Vs = [2, 2, 5]"
    by (simp add: tick_readings_def sample_tick_clusters)
  then show ?thesis
    using reports_sum_to_counter[OF t, of RetSuccess sample_key] t by simp
qed

text \<open>
  The map of instances does not keep the dead: after any ten ticks, every entry was read again since,
  or was at most five minutes old at some reading of the clock since.
\<close>

theorem stale_entries_leave:
  assumes "metrics_ticks upd E s clock Vs (c, st) = Ret (c', st')" and "c < 10" and "10 \<le> length Vs"
    and "(k, v) \<in> set (mx_values st')"
  shows "\<exists>i\<ge>mx_reads st. clock i - mv_last_active v \<le> inactive_duration"
  using metrics_ticks_cleans[OF assms(1)] assms(2-4) by (auto simp: fresh_def)

text \<open>The witness: an instance last seen ten minutes ago is gone after ten ticks without an answer of Envoy.\<close>

definition silent_envoy :: envoy where
  "silent_envoy = \<lparr>ey_get = (\<lambda>url. Inl (LibError ''connection refused'')), ey_clusters = (\<lambda>text. Inr []),
     ey_stats = (\<lambda>text. Inl (LibError ''json''))\<rparr>"

definition old_state :: metrics_state where
  "old_state = \<lparr>mx_values = [(sample_key, zero_value)], mx_events = [], mx_reads = 0\<rparr>"

theorem stale_entries_leave_witness:
  "\<exists>st'. metrics_ticks accept (\<lambda>nm. []) sample_server (\<lambda>i. 600000000000) (replicate 10 silent_envoy) (0, old_state) =
     Ret (0, st') \<and> (sample_key, zero_value) \<notin> set (mx_values st')"
proof -
  let ?ticks = "metrics_ticks accept (\<lambda>nm. []) sample_server (\<lambda>i. 600000000000) (replicate 10 silent_envoy) (0, old_state)"
  have "\<exists>st'. ?ticks = Ret (0, st')"
    by (simp add: numeral_eq_Suc metrics_tick_def clean_threshold_def time_now_def report_metric_by_cluster_def
        silent_envoy_def)
  then obtain st' where st': "?ticks = Ret (0, st')" ..
  have "\<not> (\<exists>i\<ge>mx_reads old_state. 600000000000 - mv_last_active zero_value \<le> inactive_duration)"
    by (simp add: zero_value_def inactive_duration_def)
  then have "(sample_key, zero_value) \<notin> set (mx_values st')"
    using stale_entries_leave[OF st'] by auto
  with st' show ?thesis
    by blast
qed

text \<open>
  An instance that Envoy did not report for more than five minutes loses its entry at the next cleaning, and
  when Envoy answers again the whole counter is reported a second time, although nothing was
  called in between.
\<close>

theorem outage_counts_twice:
  assumes "metrics_tick accept E s clock V (9, st) = Ret (c', st')"
    and "gomap_ok (mx_values st)" and "gomap_get (mx_values st) key = Some v"
    and "clock (mx_reads st) - mv_last_active v > inactive_duration"
    and "cluster_readings status key (tick_clusters E s V) = [counter_of status v]"
  shows "reported status key (mx_events st') = reported status key (mx_events st) + loop_count (counter_of status v)"
proof -
  obtain delays where d:
    "st' = report_clusters accept (mxs_namespace s) clock delays (tick_clusters E s V) (cleaned clock 9 st)"
    using metrics_tick_cleaned[OF assms(1)] by blast
  have "(key, v') \<notin> set (clean_values (clock (mx_reads st)) (mx_values st))" for v'
  proof
    assume "(key, v') \<in> set (clean_values (clock (mx_reads st)) (mx_values st))"
    then have "(key, v') \<in> set (mx_values st)" "\<not> clock (mx_reads st) - mv_last_active v' > inactive_duration"
      by (simp_all add: clean_values_def)
    moreover from this(1) have "v' = v"
      using assms(2,3) by (simp add: gomap_ok_def gomap_get_def)
    ultimately show False
      using assms(4) by simp
  qed
  then have "latest status key (cleaned clock 9 st) = None"
    by (auto simp: latest_def cleaned_def gomap_get_None_iff)
  moreover have "mx_events (cleaned clock 9 st) = mx_events st"
    by (simp add: cleaned_def)
  ultimately show ?thesis
    using report_clusters_counts[of status key] assms(5) by (simp add: d)
qed

theorem outage_counts_twice_witness:
  "\<exists>c' st'. metrics_tick accept (\<lambda>nm. []) sample_server (\<lambda>i. 600000000000) (sample_envoy 1000)
     (9, old_state\<lparr>mx_values := [(sample_key, zero_value\<lparr>mv_success := 1000\<rparr>)]\<rparr>) = Ret (c', st') \<and>
     reported RetSuccess sample_key (mx_events st') = 1000"
proof -
  let ?st = "old_state\<lparr>mx_values := [(sample_key, zero_value\<lparr>mv_success := 1000\<rparr>)]\<rparr>"
  let ?v = "zero_value\<lparr>mv_success := 1000\<rparr>"
  obtain c' st' where t: "metrics_tick accept (\<lambda>nm. []) sample_server (\<lambda>i. 600000000000) (sample_envoy 1000) (9, ?st) = Ret (c', st')"
    by (simp add: metrics_tick_def clean_threshold_def time_now_def)
  have "gomap_ok (mx_values ?st)" "gomap_get (mx_values ?st) sample_key = Some ?v"
    "(600000000000 :: int) - mv_last_active ?v > inactive_duration"
    "cluster_readings RetSuccess sample_key (tick_clusters (\<lambda>nm. []) sample_server (sample_envoy 1000)) = [counter_of RetSuccess ?v]"
    by (simp_all add: gomap_ok_def gomap_get_def zero_value_def inactive_duration_def sample_tick_clusters counter_of_def)
  moreover have "loop_count 1000 = 1000"
    by (simp add: loop_count_small)
  ultimately show ?thesis
    using outage_counts_twice[OF t, of sample_key ?v RetSuccess] t
    by (simp add: old_state_def reported_def counter_of_def)
qed

text \<open>
  The delays of Envoy's statistics end under the name of their cluster: a quantile named
  \<open>cluster.NAME.upstream_rq_time\<close> with three values sets the delay of \<open>NAME\<close> to its third, also when the
  name has dots.
\<close>

theorem delay_of_cluster:
  assumes "mid \<noteq> []" and "char_of (10 :: nat) \<notin> set mid"
    and "cq_name q = cluster_prefix @ mid @ delay_suffix" and "cq_values q = a # b # Some v # vs"
    and "cu_cumulative v = Some (AnyFloat x)"
  shows "\<exists>m'. quantile_delay (Some q) m = Ret m' \<and> gomap_get m' mid = Some x \<and>
    (\<forall>other. other \<noteq> mid \<longrightarrow> gomap_get m' other = gomap_get m other)"
  using assms cluster_regex_iff[of "cq_name q"] by (auto simp: quantile_delay_def)

theorem delay_of_cluster_witness:
  "\<exists>m'. quantile_delay (Some \<lparr>cq_name = ''cluster.reviews.default.upstream_rq_time'',
     cq_values = [None, None, Some \<lparr>cu_cumulative = Some (AnyFloat (5/2)), cu_interval = None\<rparr>]\<rparr>) [] = Ret m' \<and>
     gomap_get m' ''reviews.default'' = Some (5/2)"
  using delay_of_cluster[where mid = "''reviews.default''" and m = "[]" and a = None and b = None and vs = "[]" and
      x = "5/2" and v = "\<lparr>cu_cumulative = Some (AnyFloat (5/2)), cu_interval = None\<rparr>" and
      q = "\<lparr>cq_name = ''cluster.reviews.default.upstream_rq_time'',
        cq_values = [None, None, Some \<lparr>cu_cumulative = Some (AnyFloat (5/2)), cu_interval = None\<rparr>]\<rparr>"]
  by (auto simp: cluster_prefix_def delay_suffix_def char_eval)

end
