(* ===== verification/Mtls.thy ===== *)
theory Mtls
  imports Config "HOL-Library.Signed_Division"
begin

text \<open>
  The mTLS agent (\<open>src/internal/mesh/mtls\<close>): its options, the certificate client and the manager that
  make a bundle, the secrets served to Envoy, and the rotator that renews them. Cryptography, the HTTP client, JSON,
  base64 and the file system are arguments.
\<close>

section \<open>Options\<close>

record mtls_option =
  op_network :: string
  op_address :: string
  op_poll_delay :: int
  op_rotate_period :: int
  op_retry_delay :: int
  op_namespace :: string
  op_service_account :: string
  op_ca_server :: string
  op_key_bits :: int
  op_ttl :: int

record service_account =
  sa_namespace :: string
  sa_account_name :: string

text \<open>What the options are made from: environment, \<open>time.ParseDuration\<close>, the token file and its decoders.\<close>

record mtls_world =
  mw_env :: env
  mw_parse_duration :: "string \<Rightarrow> go_error + int"
  mw_stat_token :: "go_error option"
  mw_read_token :: "go_error + string"
  mw_base64 :: "string \<Rightarrow> go_error + string"
  mw_json_account :: "string \<Rightarrow> go_error + service_account"

text \<open>Durations are in nanoseconds.\<close>

definition millisecond :: int where "millisecond = 1000000"

definition second :: int where "second = 1000 * millisecond"

definition minute :: int where "minute = 60 * second"

definition hour :: int where "hour = 60 * minute"

definition env_default_duration :: "mtls_world \<Rightarrow> string \<Rightarrow> int \<Rightarrow> int \<Rightarrow> int" where
  "env_default_duration W nm val def =
     (if val \<noteq> 0 then val
      else (case mw_parse_duration W (mw_env W nm) of Inr d \<Rightarrow> d | Inl err \<Rightarrow> def))"

definition env_default_int :: "mtls_world \<Rightarrow> string \<Rightarrow> int \<Rightarrow> int \<Rightarrow> int" where
  "env_default_int W nm val def =
     (if val \<noteq> 0 then val else (case atoi (mw_env W nm) of Inr d \<Rightarrow> d | Inl err \<Rightarrow> def))"

definition load_service_account :: "mtls_world \<Rightarrow> go_error + service_account" where
  "load_service_account W =
     (if mw_stat_token W \<noteq> None then Inl (Errorf ''no service account token file'' [])
      else (case mw_read_token W of
              Inl err \<Rightarrow> Inl (MultiError [Errorf ''cannot read service account token: %w'' [], err])
            | Inr data \<Rightarrow>
                let parts = split_on CHR ''.'' data in
                if length parts \<noteq> 3 then Inl (Errorf ''unknown token format'' [])
                else (case mw_base64 W (parts ! 1) of
                        Inl err \<Rightarrow> Inl (Errorf ''unknown token base64 format'' [])
                      | Inr json_str \<Rightarrow>
                          (case mw_json_account W json_str of
                             Inl err \<Rightarrow> Inl (Errorf ''unknown token payload json format'' [])
                           | Inr sa \<Rightarrow> Inr sa))))"

definition default_sds_address :: string where "default_sds_address = ''/tmp/polaris-sidecar/mtls/sds.sock''"

definition key_bits_env :: string where "key_bits_env = ''POLARIS_SIDECAR_MTLS_KEY_BITS''"

definition env_poll_delay :: string where "env_poll_delay = ''POLARIS_SIDECAR_MTLS_CRYPTO_MB_POLL_DELAY''"

definition env_rotate_period :: string where "env_rotate_period = ''POLARIS_SIDECAR_MTLS_ROTATE_PERIOD''"

definition env_retry_delay :: string where "env_retry_delay = ''POLARIS_SIDECAR_MTLS_ROTATE_FAILED_RETRY_DELAY''"

definition env_cert_ttl :: string where "env_cert_ttl = ''POLARIS_SIDECAR_MTLS_CERT_TTL''"

definition env_ca_server :: string where "env_ca_server = ''POLARIS_SIDECAR_MTLS_CA_SERVER''"

definition env_kube_namespace :: string where "env_kube_namespace = ''KUBERNETES_NAMESPACE''"

definition env_kube_account :: string where "env_kube_account = ''KUBERNETES_SERVICE_ACCOUNT''"

text \<open>The identity: given options count only if both are given, then the environment, then the token.\<close>

definition init_identity :: "mtls_world \<Rightarrow> mtls_option \<Rightarrow> go_error + mtls_option" where
  "init_identity W opt =
     (if op_namespace opt = [] \<or> op_service_account opt = [] then
        let env_ns = mw_env W env_kube_namespace;
            opt = (if env_ns \<noteq> [] then opt\<lparr>op_namespace := env_ns\<rparr> else opt);
            env_sa = mw_env W env_kube_account;
            opt = (if env_sa \<noteq> [] then opt\<lparr>op_service_account := env_sa\<rparr> else opt)
        in if op_namespace opt = [] \<or> op_service_account opt = [] then
             (case load_service_account W of
                Inl err \<Rightarrow>
                  Inl (MultiError [Errorf ''cannot detect which namespace and serviceaccount being used :%w'' [], err])
              | Inr sa \<Rightarrow> Inr (opt\<lparr>op_namespace := sa_namespace sa, op_service_account := sa_account_name sa\<rparr>))
           else Inr opt
      else Inr opt)"

definition http_prefix :: string where "http_prefix = ''http://''"

definition https_prefix :: string where "https_prefix = ''https://''"

definition has_http_scheme :: "string \<Rightarrow> bool" where
  "has_http_scheme server \<longleftrightarrow>
     (let lca = to_lower server in has_prefix lca http_prefix \<or> has_prefix lca https_prefix)"

definition init_ca_server :: "mtls_world \<Rightarrow> string \<Rightarrow> go_error + string" where
  "init_ca_server W server =
     (let ca = (if server = [] then mw_env W env_ca_server else server) in
      if ca = [] then Inl (Errorf ''no ca server endpoint provided'' [])
      else if \<not> has_http_scheme ca then Inr (http_prefix @ ca)
      else Inr ca)"

definition option_init :: "mtls_world \<Rightarrow> mtls_option \<Rightarrow> go_error + mtls_option" where
  "option_init W opt =
     (let opt = opt\<lparr>op_network := (if op_network opt = [] then ''unix'' else op_network opt)\<rparr>;
          opt = opt\<lparr>op_address := (if op_address opt = [] then default_sds_address else op_address opt)\<rparr>;
          opt = opt\<lparr>op_poll_delay := env_default_duration W env_poll_delay (op_poll_delay opt) millisecond\<rparr>;
          opt = opt\<lparr>op_rotate_period := env_default_duration W env_rotate_period (op_rotate_period opt) hour\<rparr>;
          opt = opt\<lparr>op_retry_delay := env_default_duration W env_retry_delay (op_retry_delay opt) second\<rparr>
      in case init_identity W opt of
           Inl err \<Rightarrow> Inl err
         | Inr opt \<Rightarrow>
             (case init_ca_server W (op_ca_server opt) of
                Inl err \<Rightarrow> Inl err
              | Inr ca \<Rightarrow>
                  Inr (opt\<lparr>op_ca_server := ca,
                       op_key_bits := env_default_int W key_bits_env (op_key_bits opt) 2048,
                       op_ttl := env_default_duration W env_cert_ttl (op_ttl opt) hour\<rparr>)))"

section \<open>The certificate client\<close>

definition upper_char :: "char \<Rightarrow> char" where
  "upper_char c = (let n = of_char c :: nat in if 97 \<le> n \<and> n \<le> 122 then char_of (n - 32) else c)"

definition to_upper :: "string \<Rightarrow> string" where
  "to_upper s = map upper_char s"

text \<open>A client: its token and endpoint, and the root certificates added to the pool (\<open>None\<close> for the default client).\<close>

record ca_client =
  cc_token :: string
  cc_endpoint :: string
  cc_root_ca :: "string option"

text \<open>\<open>ServiceAccountToken\<close> returns what \<open>os.ReadFile\<close> read, whatever the error.\<close>

definition service_account_token :: "string \<times> go_error option \<Rightarrow> string" where
  "service_account_token r = fst r"

definition new_ca_client ::
  "(string \<Rightarrow> go_error + string) \<Rightarrow> string \<Rightarrow> string \<Rightarrow> string \<Rightarrow> string option \<Rightarrow> go_error + ca_client" where
  "new_ca_client parse_scheme sat endpoint token root_ca =
     (case parse_scheme endpoint of
        Inl err \<Rightarrow> Inl err
      | Inr scheme \<Rightarrow>
          if to_upper scheme \<noteq> ''HTTP'' \<and> to_upper scheme \<noteq> ''HTTPS''
          then Inl (Errorf ''unsupported endpoint scheme'' [])
          else Inr \<lparr>cc_token = (if token = [] then (if sat \<noteq> [] then sat else token) else token),
                    cc_endpoint = endpoint, cc_root_ca = root_ca\<rparr>)"

text \<open>\<open>NewCAClient\<close>: no token, the default client.\<close>

definition new_plain_ca_client ::
  "(string \<Rightarrow> go_error + string) \<Rightarrow> string \<Rightarrow> string \<Rightarrow> go_error + ca_client" where
  "new_plain_ca_client parse_scheme sat endpoint = new_ca_client parse_scheme sat endpoint [] None"

definition new_with_root_ca ::
  "(string \<Rightarrow> go_error + string) \<Rightarrow> string \<Rightarrow> string \<Rightarrow> string \<Rightarrow> go_error + string \<Rightarrow> go_error option \<Rightarrow>
   go_error + ca_client" where
  "new_with_root_ca parse_scheme sat endpoint token root_ca_file system_pool =
     (case root_ca_file of
        Inl err \<Rightarrow> Inl err
      | Inr cert_pem \<Rightarrow>
          (case system_pool of
             Some err \<Rightarrow> Inl err
           | None \<Rightarrow> new_ca_client parse_scheme sat endpoint token (Some cert_pem)))"

record cert_request =
  cq_url :: string
  cq_authorization :: string
  cq_csr :: string
  cq_ttl :: int

text \<open>
  \<open>Payload\<close>: the encoder of \<open>encoding/json\<close> writes a value in one piece or fails and writes nothing, and the error is
  only logged.
\<close>

definition request_payload :: "(string \<times> int \<Rightarrow> go_error + string) \<Rightarrow> cert_request \<Rightarrow> string" where
  "request_payload encode r = (case encode (cq_csr r, cq_ttl r) of Inl err \<Rightarrow> [] | Inr buf \<Rightarrow> buf)"

record cert_response =
  cp_cert_chain :: string
  cp_root_cert :: string
  cp_message :: string

text \<open>An HTTP answer: the status, the outcome of decoding the body, the error of closing it.\<close>

record http_response =
  hr_status :: int
  hr_decode :: "go_error + cert_response"
  hr_close :: "go_error option"

definition cert_request_of :: "ca_client \<Rightarrow> string \<Rightarrow> int \<Rightarrow> cert_request" where
  "cert_request_of c csr ttl = \<lparr>cq_url = cc_endpoint c @ ''/security/v1/sign_certificate'',
     cq_authorization = ''Bearer '' @ cc_token c, cq_csr = csr, cq_ttl = (ttl sdiv 1000000) sdiv 1000\<rparr>"

text \<open>
  \<open>CreateCertificate\<close> with its named results: what the body returns, then the deferred function, which assigns the
  outcome of closing the body to the named error.
\<close>

definition create_certificate_body :: "http_response \<Rightarrow> string \<times> string \<times> go_error option" where
  "create_certificate_body resp =
     (case hr_decode resp of
        Inl err \<Rightarrow> ([], [], Some err)
      | Inr ccr \<Rightarrow>
          if hr_status resp \<noteq> 200 then ([], [], Some (Errorf (cp_message ccr) []))
          else (cp_cert_chain ccr, cp_root_cert ccr, None))"

definition create_certificate ::
  "go_error option \<Rightarrow> (cert_request \<Rightarrow> go_error + http_response) \<Rightarrow> ca_client \<Rightarrow> string \<Rightarrow> int \<Rightarrow>
   string \<times> string \<times> go_error option" where
  "create_certificate new_request do_request c csr ttl =
     (case new_request of
        Some err \<Rightarrow> ([], [], Some err)
      | None \<Rightarrow>
          (case do_request (cert_request_of c csr ttl) of
             Inl err \<Rightarrow> ([], [], Some err)
           | Inr resp \<Rightarrow>
               (let (chain, root, err) = create_certificate_body resp in (chain, root, hr_close resp))))"

section \<open>The manager\<close>

record csr_template =
  ct_organization :: "string list"
  ct_uri :: "string \<times> string \<times> string"

text \<open>Cryptography, on keys of a type of its own.\<close>

record 'k crypto =
  cy_generate_key :: "int \<Rightarrow> go_error + 'k"
  cy_create_request :: "csr_template \<Rightarrow> 'k \<Rightarrow> go_error + string"
  cy_marshal_key :: "'k \<Rightarrow> string"
  cy_pem :: "string \<Rightarrow> string \<Rightarrow> string"

record cert_bundle =
  bn_root_ca :: string
  bn_cert_chain :: string
  bn_priv_key :: "string option"

definition trust_domain :: string where "trust_domain = ''cluster.local''"

definition csr_template_of :: "string \<Rightarrow> string \<Rightarrow> csr_template" where
  "csr_template_of ns sa = \<lparr>ct_organization = [trust_domain],
     ct_uri = (''spiffe'', trust_domain, ''/ns/'' @ ns @ ''/sa/'' @ sa)\<rparr>"

definition generate_csr :: "'k crypto \<Rightarrow> string \<Rightarrow> string \<Rightarrow> 'k \<Rightarrow> go_error + string" where
  "generate_csr C ns sa priv =
     (case cy_create_request C (csr_template_of ns sa) priv of
        Inl err \<Rightarrow> Inl err
      | Inr csr \<Rightarrow> Inr (cy_pem C ''CERTIFICATE REQUEST'' csr))"

record cert_manager =
  cm_namespace :: string
  cm_service_account :: string
  cm_bits :: int
  cm_ttl :: int

definition new_manager :: "string \<Rightarrow> string \<Rightarrow> int \<Rightarrow> int \<Rightarrow> cert_manager" where
  [simp]: "new_manager namespace account bits ttl =
     \<lparr>cm_namespace = namespace, cm_service_account = account, cm_bits = bits, cm_ttl = ttl\<rparr>"

text \<open>\<open>GetBundle\<close>, over the client of the interface \<open>CSRClient\<close>.\<close>

definition get_bundle ::
  "'k crypto \<Rightarrow> (string \<Rightarrow> int \<Rightarrow> string \<times> string \<times> go_error option) \<Rightarrow> cert_manager \<Rightarrow> go_error + cert_bundle" where
  "get_bundle C create_cert m =
     (case cy_generate_key C (cm_bits m) of
        Inl err \<Rightarrow> Inl err
      | Inr priv \<Rightarrow>
          (case generate_csr C (cm_namespace m) (cm_service_account m) priv of
             Inl err \<Rightarrow> Inl err
           | Inr csr \<Rightarrow>
               (case create_cert csr (cm_ttl m) of
                  (chain, root_ca, Some err) \<Rightarrow> Inl err
                | (chain, root_ca, None) \<Rightarrow>
                    Inr \<lparr>bn_root_ca = root_ca, bn_cert_chain = chain,
                      bn_priv_key = Some (cy_pem C ''PRIVATE KEY'' (cy_marshal_key C priv))\<rparr>)))"

section \<open>The secrets\<close>

datatype key_source = NoKey | InlineKey string | CryptombKey int string

datatype secret = CaSecret string string | TlsSecret string string key_source

text \<open>\<open>cryptombSupported\<close>, a property of the processor, is an argument.\<close>

definition key_source_of :: "bool \<Rightarrow> string option \<Rightarrow> int \<Rightarrow> key_source" where
  "key_source_of cryptomb_supported key poll_delay =
     (case key of
        None \<Rightarrow> NoKey
      | Some k \<Rightarrow> if cryptomb_supported \<and> poll_delay \<noteq> 0 then CryptombKey poll_delay k else InlineKey k)"

definition make_secret :: "bool \<Rightarrow> string \<Rightarrow> string option \<Rightarrow> string \<Rightarrow> int \<Rightarrow> secret" where
  "make_secret cryptomb_supported nm key cert poll_delay =
     TlsSecret nm cert (key_source_of cryptomb_supported key poll_delay)"

definition make_ca_secret :: "string \<Rightarrow> string \<Rightarrow> secret" where
  "make_ca_secret nm ca = CaSecret nm ca"

definition make_secrets :: "bool \<Rightarrow> int \<Rightarrow> cert_bundle \<Rightarrow> secret list" where
  "make_secrets cryptomb_supported poll_delay b =
     [make_ca_secret ''ROOTCA'' (bn_root_ca b),
      make_secret cryptomb_supported ''default'' (bn_priv_key b) (bn_cert_chain b) poll_delay]"

text \<open>The feature test of \<open>secret_amd64.go\<close>, and the build for the other processor (\<open>secret_arm64.go\<close>).\<close>

record cpu_features =
  cpu_avx512f :: bool
  cpu_avx512dq :: bool
  cpu_avx512bw :: bool
  cpu_avx512ifma :: bool
  cpu_avx512vbmi2 :: bool

definition cryptomb_supported_amd64 :: "cpu_features \<Rightarrow> bool" where
  "cryptomb_supported_amd64 cpu \<longleftrightarrow>
     cpu_avx512f cpu \<and> cpu_avx512dq cpu \<and> cpu_avx512bw cpu \<and> cpu_avx512ifma cpu \<and> cpu_avx512vbmi2 cpu"

definition cryptomb_supported_arm64 :: bool where
  "cryptomb_supported_arm64 = False"

definition make_secret_arm64 :: "string \<Rightarrow> string option \<Rightarrow> string \<Rightarrow> int \<Rightarrow> secret" where
  "make_secret_arm64 nm key cert poll_delay =
     TlsSecret nm cert
       (case key of
          None \<Rightarrow> NoKey
        | Some k \<Rightarrow> if cryptomb_supported_arm64 \<and> poll_delay \<noteq> 0 then CryptombKey poll_delay k else InlineKey k)"

definition make_ca_secret_arm64 :: "string \<Rightarrow> string \<Rightarrow> secret" where
  "make_ca_secret_arm64 nm ca = CaSecret nm ca"

definition make_secrets_arm64 :: "int \<Rightarrow> cert_bundle \<Rightarrow> secret list" where
  "make_secrets_arm64 poll_delay b =
     [make_ca_secret_arm64 ''ROOTCA'' (bn_root_ca b),
      make_secret_arm64 ''default'' (bn_priv_key b) (bn_cert_chain b) poll_delay]"

text \<open>
  The two builds serve the same secrets to a processor without the features: what follows is stated for
  \<open>secret_amd64.go\<close> and both values of the test.
\<close>

lemma make_secrets_arm64_eq:
  assumes "\<not> cryptomb_supported_amd64 cpu"
  shows "make_secrets_arm64 poll_delay b = make_secrets (cryptomb_supported_amd64 cpu) poll_delay b"
  using assms by (simp add: make_secrets_arm64_def make_secrets_def make_secret_arm64_def make_secret_def
      make_ca_secret_arm64_def make_ca_secret_def key_source_of_def cryptomb_supported_arm64_def split: option.split)

text \<open>The SDS server: the snapshots handed to the cache, the latest first, each with its version.\<close>

record sds_server =
  ss_poll_delay :: int
  ss_snapshots :: "(string \<times> secret list) list"

text \<open>\<open>ConstHash.ID\<close> of the hash \<open>"default"\<close>: every node of Envoy falls under the one key snapshots are set for.\<close>

definition default_hash :: string where "default_hash = ''default''"

definition const_hash_id :: "string \<Rightarrow> string \<Rightarrow> string" where
  "const_hash_id hash node = hash"

definition new_sds :: "int \<Rightarrow> sds_server" where
  "new_sds poll_delay = \<lparr>ss_poll_delay = poll_delay, ss_snapshots = []\<rparr>"

definition update_secrets :: "bool \<Rightarrow> int \<Rightarrow> cert_bundle \<Rightarrow> sds_server \<Rightarrow> sds_server" where
  "update_secrets cryptomb_supported unix_nano b s =
     s\<lparr>ss_snapshots := (int_str unix_nano, make_secrets cryptomb_supported (ss_poll_delay s) b) # ss_snapshots s\<rparr>"

section \<open>The agent's action\<close>

text \<open>What one attempt meets: cryptography, the outcome of building the request, the CA, and the clock.\<close>

record 'k attempt_world =
  aw_crypto :: "'k crypto"
  aw_new_request :: "go_error option"
  aw_do :: "cert_request \<Rightarrow> go_error + http_response"
  aw_unix_nano :: int

text \<open>The agent: listener address, SDS server, client, manager and the durations of its rotator.\<close>

record mtls_agent =
  ag_network :: string
  ag_addr :: string
  ag_sds :: sds_server
  ag_client :: ca_client
  ag_manager :: cert_manager
  ag_period :: int
  ag_retry_delay :: int

definition new_agent ::
  "mtls_world \<Rightarrow> (string \<Rightarrow> go_error option) \<Rightarrow> (string \<Rightarrow> go_error + string) \<Rightarrow> string \<times> go_error option \<Rightarrow>
   go_error + string \<Rightarrow> go_error option \<Rightarrow> mtls_option \<Rightarrow> go_error + mtls_agent" where
  "new_agent W mkdir_of_path parse_scheme token_file root_ca_file system_pool opt =
     (case option_init W opt of
        Inl err \<Rightarrow> Inl err
      | Inr opt \<Rightarrow>
          (case (if op_network opt = ''unix'' then mkdir_of_path (op_address opt) else None) of
             Some err \<Rightarrow> Inl err
           | None \<Rightarrow>
               (case new_with_root_ca parse_scheme (service_account_token token_file) (op_ca_server opt)
                       (service_account_token token_file) root_ca_file system_pool of
                  Inl err \<Rightarrow> Inl err
                | Inr cli \<Rightarrow>
                    Inr \<lparr>ag_network = op_network opt, ag_addr = op_address opt, ag_sds = new_sds (op_poll_delay opt),
                      ag_client = cli,
                      ag_manager = new_manager (op_namespace opt) (op_service_account opt) (op_key_bits opt) (op_ttl opt),
                      ag_period = op_rotate_period opt, ag_retry_delay = op_retry_delay opt\<rparr>)))"

text \<open>The function \<open>Run\<close> hands to the rotator; the SDS server is the state it changes.\<close>

definition rotate_action ::
  "bool \<Rightarrow> mtls_agent \<Rightarrow> 'k attempt_world \<Rightarrow> sds_server \<Rightarrow> go_error option \<times> sds_server" where
  "rotate_action cryptomb_supported a w s =
     (case get_bundle (aw_crypto w) (create_certificate (aw_new_request w) (aw_do w) (ag_client a)) (ag_manager a) of
        Inl err \<Rightarrow> (Some err, s)
      | Inr b \<Rightarrow> (None, update_secrets cryptomb_supported (aw_unix_nano w) b s))"

section \<open>The rotator\<close>

text \<open>
  \<open>rotator.Run\<close> as a machine: before the start, about to call the action (in the first or in a later run
  of \<open>execute\<close>), sleeping after a failure, waiting for the period or the stop signal, returned. The context is
  cancelled once and for all; \<open>ro_late\<close> counts the calls of the action after that.
\<close>

datatype rot_pc = RotStart | RotCall bool | RotSleep bool | RotWait | RotDone go_error

record 's rotator =
  ro_period :: int
  ro_retry_delay :: int
  ro_pc :: rot_pc
  ro_cancelled :: bool
  ro_late :: nat
  ro_state :: 's

datatype 'w rot_event = Begin | Attempt 'w | Awake | Timer | StopSeen | Cancel

definition ctx_err :: go_error where
  "ctx_err = LibError ''context canceled''"

definition new_rotator :: "int \<Rightarrow> int \<Rightarrow> 's \<Rightarrow> 's rotator" where
  "new_rotator period retry_delay s = \<lparr>ro_period = period, ro_retry_delay = retry_delay, ro_pc = RotStart,
     ro_cancelled = False, ro_late = 0, ro_state = s\<rparr>"

definition rotator_init :: "'s rotator \<Rightarrow> 's rotator" where
  "rotator_init r = r\<lparr>
     ro_period := (if ro_period r = 0 then 30 * minute else ro_period r),
     ro_retry_delay := (if ro_retry_delay r = 0 then second else ro_retry_delay r)\<rparr>"

text \<open>Leaving \<open>execute\<close>: the first time into the loop, later the context is checked again.\<close>

definition leave_execute :: "bool \<Rightarrow> 's rotator \<Rightarrow> 's rotator" where
  "leave_execute first r = r\<lparr>ro_pc := (if \<not> first \<and> ro_cancelled r then RotDone ctx_err else RotWait)\<rparr>"

definition attempt_call ::
  "('w \<Rightarrow> 's \<Rightarrow> go_error option \<times> 's) \<Rightarrow> 'w \<Rightarrow> bool \<Rightarrow> 's rotator \<Rightarrow> 's rotator" where
  "attempt_call act w first r =
     (let (err, s) = act w (ro_state r);
          r = r\<lparr>ro_state := s, ro_late := ro_late r + (if ro_cancelled r then 1 else 0)\<rparr>
      in case err of
           None \<Rightarrow> leave_execute first r
         | Some e \<Rightarrow> if ro_cancelled r then leave_execute first r else r\<lparr>ro_pc := RotSleep first\<rparr>)"

fun rot_next :: "('w \<Rightarrow> 's \<Rightarrow> go_error option \<times> 's) \<Rightarrow> 'w rot_event \<Rightarrow> 's rotator \<Rightarrow> 's rotator option" where
  "rot_next act Begin r = (if ro_pc r = RotStart then Some ((rotator_init r)\<lparr>ro_pc := RotCall True\<rparr>) else None)"
| "rot_next act (Attempt w) r = (case ro_pc r of RotCall first \<Rightarrow> Some (attempt_call act w first r) | _ \<Rightarrow> None)"
| "rot_next act Awake r = (case ro_pc r of RotSleep first \<Rightarrow> Some (r\<lparr>ro_pc := RotCall first\<rparr>) | _ \<Rightarrow> None)"
| "rot_next act Timer r = (if ro_pc r = RotWait then Some (r\<lparr>ro_pc := RotCall False\<rparr>) else None)"
| "rot_next act StopSeen r = (if ro_pc r = RotWait \<and> ro_cancelled r then Some (r\<lparr>ro_pc := RotDone ctx_err\<rparr>) else None)"
| "rot_next act Cancel r = Some (r\<lparr>ro_cancelled := True\<rparr>)"

fun rot_run :: "('w \<Rightarrow> 's \<Rightarrow> go_error option \<times> 's) \<Rightarrow> 'w rot_event list \<Rightarrow> 's rotator \<Rightarrow> 's rotator option" where
  "rot_run act [] r = Some r"
| "rot_run act (e # es) r = (case rot_next act e r of None \<Rightarrow> None | Some r' \<Rightarrow> rot_run act es r')"

text \<open>The states a rotator can be in after its construction.\<close>

inductive rot_reach :: "('w \<Rightarrow> 's \<Rightarrow> go_error option \<times> 's) \<Rightarrow> 's rotator \<Rightarrow> 's rotator \<Rightarrow> bool"
  for act r0 where
  start: "rot_reach act r0 r0"
| step: "rot_reach act r0 r \<Longrightarrow> rot_next act e r = Some r' \<Longrightarrow> rot_reach act r0 r'"

lemma rot_run_reach: "rot_run act es r = Some r' \<Longrightarrow> rot_reach act r0 r \<Longrightarrow> rot_reach act r0 r'"
  by (induction es arbitrary: r) (auto split: option.splits intro: rot_reach.step)

text \<open>
  \<open>Run\<close> of the agent: registration, listener, \<open>Serve\<close> in a goroutine, then the rotator, whose result is the argument; the
  deferred \<open>Destroy\<close> stops the server and closes the listener, if there is one, and only once. \<open>agent_run\<close> gives the error
  it sends, if any, and what it does.
\<close>

datatype agent_event = RegisterSds | ListenSds string string | ServeSds | StopSds | CloseSds

definition agent_destroy :: "bool \<Rightarrow> bool \<Rightarrow> agent_event list" where
  "agent_destroy destroyed has_listener =
     (if destroyed then [] else [StopSds] @ (if has_listener then [CloseSds] else []))"

definition agent_run :: "mtls_agent \<Rightarrow> go_error option \<Rightarrow> go_error option \<Rightarrow> go_error option \<times> agent_event list" where
  "agent_run a listen_error rotator_result =
     (case listen_error of
        Some err \<Rightarrow> (Some err, [RegisterSds] @ agent_destroy False False)
      | None \<Rightarrow>
          (rotator_result, [RegisterSds, ListenSds (ag_network a) (ag_addr a), ServeSds] @ agent_destroy False True))"

section \<open>The interface between rotator and action\<close>

text \<open>
  What the rotator needs of its action: a property of the state every call keeps. It then holds whenever the rotator
  has been running, whatever the order of failures, timers and the stop signal.
\<close>

locale rotated_action =
  fixes act :: "'w \<Rightarrow> 's \<Rightarrow> go_error option \<times> 's" and inv :: "'s \<Rightarrow> bool"
  assumes act_inv: "inv s \<Longrightarrow> inv (snd (act w s))"
begin

lemma attempt_inv: "inv (ro_state r) \<Longrightarrow> inv (ro_state (attempt_call act w first r))"
  using act_inv[of "ro_state r" w]
  by (cases "act w (ro_state r)"; cases "fst (act w (ro_state r))") (simp_all add: attempt_call_def leave_execute_def)

lemma next_inv: "rot_next act e r = Some r' \<Longrightarrow> inv (ro_state r) \<Longrightarrow> inv (ro_state r')"
  by (cases e; cases "ro_pc r") (auto simp: rotator_init_def attempt_inv split: if_splits)

lemma reach_inv: "rot_reach act r0 r \<Longrightarrow> inv (ro_state r0) \<Longrightarrow> inv (ro_state r)"
  by (induction rule: rot_reach.induct) (blast intro: next_inv)+

end

text \<open>Every snapshot carries the two secrets Envoy asks for, the second with its key.\<close>

definition snapshot_ok :: "secret list \<Rightarrow> bool" where
  "snapshot_ok secrets \<longleftrightarrow> (\<exists>ca cert key. secrets = [CaSecret ''ROOTCA'' ca, TlsSecret ''default'' cert key] \<and> key \<noteq> NoKey)"

definition sds_ok :: "sds_server \<Rightarrow> bool" where
  "sds_ok s \<longleftrightarrow> (\<forall>(version, secrets) \<in> set (ss_snapshots s). snapshot_ok secrets)"

lemma get_bundle_key: "get_bundle C create_cert m = Inr b \<Longrightarrow> bn_priv_key b \<noteq> None"
  by (auto simp: get_bundle_def split: sum.splits prod.splits option.splits)

lemma rotate_action_ok: "sds_ok s \<Longrightarrow> sds_ok (snd (rotate_action cryptomb_supported a w s))"
  using get_bundle_key[of "aw_crypto w" "create_certificate (aw_new_request w) (aw_do w) (ag_client a)" "ag_manager a"]
  by (auto simp: rotate_action_def sds_ok_def update_secrets_def make_secrets_def make_secret_def make_ca_secret_def
      key_source_of_def snapshot_ok_def split: sum.splits option.splits)

interpretation agent_rotation: rotated_action "rotate_action cryptomb_supported a" sds_ok
  by unfold_locales (rule rotate_action_ok)

section \<open>Lemmas\<close>

text \<open>How many calls after the cancellation a position of the rotator allows, and how many steps it is from the end.\<close>

fun late_bound :: "rot_pc \<Rightarrow> nat" where
  "late_bound RotStart = 0"
| "late_bound (RotCall first) = (if first then 0 else 1)"
| "late_bound (RotSleep first) = 0"
| "late_bound RotWait = 1"
| "late_bound (RotDone e) = 2"

fun steps_left :: "rot_pc \<Rightarrow> nat" where
  "steps_left RotStart = 4"
| "steps_left (RotCall first) = (if first then 3 else 1)"
| "steps_left (RotSleep first) = (if first then 4 else 2)"
| "steps_left RotWait = 2"
| "steps_left (RotDone e) = 0"

definition rot_ok :: "'s rotator \<Rightarrow> bool" where
  "rot_ok r \<longleftrightarrow> (\<not> ro_cancelled r \<longrightarrow> ro_late r = 0) \<and> ro_late r \<le> late_bound (ro_pc r) \<and>
     (\<forall>e. ro_pc r = RotDone e \<longrightarrow> ro_cancelled r \<and> e = ctx_err)"

lemma attempt_call_ok: "rot_ok r \<Longrightarrow> ro_pc r = RotCall first \<Longrightarrow> rot_ok (attempt_call act w first r)"
  by (cases "act w (ro_state r)"; cases "fst (act w (ro_state r))"; cases first; cases "ro_cancelled r")
    (simp_all add: attempt_call_def leave_execute_def rot_ok_def)

lemma rot_next_ok: "rot_next act e r = Some r' \<Longrightarrow> rot_ok r \<Longrightarrow> rot_ok r'"
  by (cases e; cases "ro_pc r")
    (auto simp: attempt_call_ok rotator_init_def split: if_splits, auto simp: rot_ok_def)

lemma rot_reach_ok: "rot_reach act (new_rotator period delay s) r \<Longrightarrow> rot_ok r"
  by (induction rule: rot_reach.induct) (simp add: rot_ok_def new_rotator_def, blast intro: rot_next_ok)

lemma attempt_call_steps:
  "ro_cancelled r \<Longrightarrow> ro_cancelled (attempt_call act w first r) \<and>
     steps_left (ro_pc (attempt_call act w first r)) < (if first then 3 else 1)"
  by (cases "act w (ro_state r)"; cases "fst (act w (ro_state r))"; cases first)
    (simp_all add: attempt_call_def leave_execute_def)

lemma rot_next_steps:
  assumes "rot_next act e r = Some r'" and "ro_cancelled r" and "e \<noteq> Cancel"
  shows "ro_cancelled r' \<and> steps_left (ro_pc r') < steps_left (ro_pc r)"
proof (cases "\<exists>w first. e = Attempt w \<and> ro_pc r = RotCall first")
  case True
  then obtain w first where "e = Attempt w" "ro_pc r = RotCall first"
    by blast
  with assms(1) attempt_call_steps[OF assms(2), of act w first] show ?thesis
    by (cases first) auto
next
  case False
  with assms show ?thesis
    by (cases e; cases "ro_pc r") (auto simp: rotator_init_def split: if_splits)
qed

lemma rot_run_steps:
  "rot_run act es r = Some r' \<Longrightarrow> ro_cancelled r \<Longrightarrow> Cancel \<notin> set es \<Longrightarrow>
     ro_cancelled r' \<and> length es + steps_left (ro_pc r') \<le> steps_left (ro_pc r)"
proof (induction es arbitrary: r)
  case (Cons e es)
  obtain r1 where r1: "rot_next act e r = Some r1" "rot_run act es r1 = Some r'"
    using Cons.prems(1) by (auto split: option.splits)
  have "ro_cancelled r1" "steps_left (ro_pc r1) < steps_left (ro_pc r)"
    using rot_next_steps[OF r1(1) Cons.prems(2)] Cons.prems(3) by auto
  with Cons.IH[OF r1(2)] Cons.prems(3) show ?case
    by simp
qed simp

lemma rot_run_append: "rot_run act (es @ fs) r = Option.bind (rot_run act es r) (rot_run act fs)"
  by (induction es arbitrary: r) (simp_all split: option.splits)

lemma steps_left_bound: "steps_left pc \<le> 4"
  by (cases pc) simp_all

lemma rot_progress: "steps_left (ro_pc r) > 0 \<Longrightarrow> ro_cancelled r \<Longrightarrow> \<exists>e r'. e \<noteq> Cancel \<and> rot_next act e r = Some r'"
proof (cases "ro_pc r")
  case RotStart
  then have "rot_next act Begin r \<noteq> None" by simp
  then show ?thesis by blast
next
  case (RotCall first)
  then have "rot_next act (Attempt undefined) r \<noteq> None" by simp
  then show ?thesis by blast
next
  case (RotSleep first)
  then have "rot_next act Awake r \<noteq> None" by simp
  then show ?thesis by blast
next
  case RotWait
  then have "rot_next act Timer r \<noteq> None" by simp
  then show ?thesis by blast
qed simp

section \<open>Properties\<close>

text \<open>
  C28. The rotator returns only after the stop signal, and then always with the error of the context, never with nil;
  after the signal it calls its action at most twice.
\<close>

theorem rotator_returns_context_error:
  assumes "rot_reach act (new_rotator period delay s) r"
  shows "(\<forall>e. ro_pc r = RotDone e \<longrightarrow> ro_cancelled r \<and> e = ctx_err) \<and> ro_late r \<le> 2"
proof -
  have "late_bound (ro_pc r) \<le> 2"
    by (cases "ro_pc r") simp_all
  then show ?thesis
    using rot_reach_ok[OF assms] by (auto simp: rot_ok_def)
qed

theorem rotator_returns_context_error_witness:
  "\<exists>r. rot_run (\<lambda>w n. (None, n + w)) [Begin, Attempt 1, Cancel, StopSeen] (new_rotator 0 0 (0::nat)) = Some r \<and>
     ro_pc r = RotDone ctx_err \<and> ro_cancelled r"
proof -
  let ?act = "\<lambda>w n. (None :: go_error option, n + w :: nat)"
  have "\<exists>r. rot_run ?act [Begin, Attempt 1, Cancel, StopSeen] (new_rotator 0 0 0) = Some r \<and> ro_pc r = RotDone ctx_err"
    by (simp add: new_rotator_def rotator_init_def attempt_call_def leave_execute_def)
  then obtain r where r: "rot_run ?act [Begin, Attempt 1, Cancel, StopSeen] (new_rotator 0 0 0) = Some r"
    "ro_pc r = RotDone ctx_err" by blast
  then have "rot_reach ?act (new_rotator 0 0 0) r"
    using rot_run_reach rot_reach.start by metis
  with r show ?thesis
    using rotator_returns_context_error[of ?act 0 0 0 r] by simp
qed

text \<open>
  C27. After the stop signal the rotator returns: wherever it is, no more than four steps (a pause, a call of the
  action, one more period that ends at the same time) can follow, and until it has returned a step is possible.
\<close>

theorem rotator_stops:
  assumes "rot_run act es r = Some r'" and "ro_cancelled r" and "Cancel \<notin> set es"
  shows "length es \<le> 4 \<and> ((\<exists>e. ro_pc r' = RotDone e) \<or> (\<exists>e r''. e \<noteq> Cancel \<and> rot_next act e r' = Some r''))"
proof -
  have steps: "ro_cancelled r'" "length es + steps_left (ro_pc r') \<le> steps_left (ro_pc r)"
    using rot_run_steps[OF assms] by auto
  then have "length es \<le> 4"
    using steps_left_bound[of "ro_pc r"] by linarith
  moreover have "steps_left (ro_pc r') > 0 \<or> (\<exists>e. ro_pc r' = RotDone e)"
    by (cases "ro_pc r'") simp_all
  ultimately show ?thesis
    using rot_progress steps(1) by blast
qed

text \<open>The witness: the longest way, cancelled while sleeping after the first failure, with the timer first.\<close>

theorem rotator_stops_witness:
  "\<exists>r'. rot_run (\<lambda>w n. (w, Suc n)) [Awake, Attempt (Some ctx_err), Timer, Attempt (Some ctx_err)]
     ((new_rotator 5 5 (0::nat))\<lparr>ro_pc := RotSleep True, ro_cancelled := True\<rparr>) = Some r' \<and> (\<exists>e. ro_pc r' = RotDone e)"
proof -
  let ?act = "\<lambda>w n. (w :: go_error option, Suc n)"
  let ?r = "(new_rotator 5 5 (0::nat))\<lparr>ro_pc := RotSleep True, ro_cancelled := True\<rparr>"
  let ?es = "[Awake, Attempt (Some ctx_err), Timer, Attempt (Some ctx_err)]"
  have "\<exists>r'. rot_run ?act ?es ?r = Some r'"
    by (simp add: new_rotator_def attempt_call_def leave_execute_def)
  then obtain r' where r': "rot_run ?act ?es ?r = Some r'" ..
  have "\<not> (\<exists>e r''. e \<noteq> Cancel \<and> rot_next ?act e r' = Some r'')"
  proof
    assume "\<exists>e r''. e \<noteq> Cancel \<and> rot_next ?act e r' = Some r''"
    then obtain e r'' where e: "e \<noteq> Cancel" "rot_next ?act e r' = Some r''" by blast
    have "rot_run ?act (?es @ [e]) ?r = Some r''"
      unfolding rot_run_append r' by (simp add: e(2))
    moreover have "ro_cancelled ?r" by simp
    moreover have "Cancel \<notin> set (?es @ [e])"
      using e(1) by auto
    ultimately have "length (?es @ [e]) \<le> 4"
      by (rule rotator_stops[THEN conjunct1])
    then show False by simp
  qed
  moreover have "ro_cancelled ?r" "Cancel \<notin> set ?es"
    by simp_all
  ultimately have "\<exists>e. ro_pc r' = RotDone e"
    using rotator_stops[THEN conjunct2, OF r'] by metis
  with r' show ?thesis
    by (intro exI[of _ r'] conjI)
qed

text \<open>
  C26. Whatever the CA answers and in whatever order attempts fail, every snapshot served to Envoy has
  the two secrets \<open>ROOTCA\<close> and \<open>default\<close>, the second with a private key.
\<close>

theorem served_snapshots_complete:
  assumes "rot_reach (rotate_action cryptomb_supported a) (new_rotator period delay (ag_sds a)) r"
    and "new_agent W mkdir_of_path parse_scheme token_file root_ca_file system_pool opt = Inr a"
  shows "sds_ok (ro_state r)"
proof -
  have "sds_ok (ag_sds a)"
    using assms(2) by (auto simp: new_agent_def new_sds_def sds_ok_def split: sum.splits option.splits)
  then show ?thesis
    using agent_rotation.reach_inv[OF assms(1)] by (simp add: new_rotator_def)
qed

definition sample_mtls_world :: mtls_world where
  "sample_mtls_world = \<lparr>mw_env = no_env, mw_parse_duration = (\<lambda>d. Inl (LibError ''time'')), mw_stat_token = None,
     mw_read_token = Inr ''h.p.s'', mw_base64 = (\<lambda>d. Inr d),
     mw_json_account = (\<lambda>d. Inr \<lparr>sa_namespace = ''default'', sa_account_name = ''sidecar''\<rparr>)\<rparr>"

definition zero_option :: mtls_option where
  "zero_option = \<lparr>op_network = [], op_address = [], op_poll_delay = 0, op_rotate_period = 0, op_retry_delay = 0,
     op_namespace = [], op_service_account = [], op_ca_server = [], op_key_bits = 0, op_ttl = 0\<rparr>"

definition sample_crypto :: "unit crypto" where
  "sample_crypto = \<lparr>cy_generate_key = (\<lambda>bits. Inr ()), cy_create_request = (\<lambda>tpl k. Inr ''csr''),
     cy_marshal_key = (\<lambda>k. ''key''), cy_pem = (\<lambda>t d. d)\<rparr>"

definition sample_answer :: "int \<Rightarrow> unit attempt_world" where
  "sample_answer status = \<lparr>aw_crypto = sample_crypto, aw_new_request = None,
     aw_do = (\<lambda>req. Inr \<lparr>hr_status = status,
       hr_decode = Inr \<lparr>cp_cert_chain = ''chain'', cp_root_cert = ''root'', cp_message = ''denied''\<rparr>, hr_close = None\<rparr>),
     aw_unix_nano = 7\<rparr>"

definition sample_mtls_agent :: mtls_agent where
  "sample_mtls_agent = \<lparr>ag_network = ''unix'', ag_addr = default_sds_address, ag_sds = new_sds millisecond,
     ag_client = \<lparr>cc_token = ''t'', cc_endpoint = ''http://ca'', cc_root_ca = Some ''pem''\<rparr>,
     ag_manager = \<lparr>cm_namespace = ''default'', cm_service_account = ''sidecar'', cm_bits = 2048, cm_ttl = hour\<rparr>,
     ag_period = hour, ag_retry_delay = second\<rparr>"

lemma split_sample_token: "split_on CHR ''.'' ''h.p.s'' = [''h'', ''p'', ''s'']"
  by simp

lemma atoi_Nil: "atoi [] = Inl (LibError ''strconv.Atoi'')"
  by (simp add: atoi_def)

lemma sample_new_agent:
  "new_agent sample_mtls_world (\<lambda>path. None) (\<lambda>url. Inr ''http'') (''t'', None) (Inr ''pem'') None
     (zero_option\<lparr>op_ca_server := ''http://ca''\<rparr>) = Inr sample_mtls_agent"
proof -
  have "has_http_scheme ''http://ca''"
    by (simp add: has_http_scheme_def has_prefix_def http_prefix_def lower_char_def char_eval)
  moreover have "to_upper ''http'' = ''HTTP''"
    by (simp add: to_upper_def upper_char_def char_eval)
  ultimately show ?thesis
    by (simp add: new_agent_def option_init_def init_identity_def init_ca_server_def load_service_account_def
        sample_mtls_world_def zero_option_def sample_mtls_agent_def env_default_duration_def env_default_int_def
        new_with_root_ca_def new_ca_client_def service_account_token_def atoi_Nil Let_def)
qed

theorem served_snapshots_complete_witness:
  "\<exists>r. rot_run (rotate_action True sample_mtls_agent) [Begin, Attempt (sample_answer 200)]
     (new_rotator hour second (ag_sds sample_mtls_agent)) = Some r \<and> ss_snapshots (ro_state r) \<noteq> [] \<and> sds_ok (ro_state r)"
proof -
  let ?act = "rotate_action True sample_mtls_agent :: unit attempt_world \<Rightarrow> sds_server \<Rightarrow> _"
  let ?r0 = "new_rotator hour second (ag_sds sample_mtls_agent)"
  have "\<exists>r. rot_run ?act [Begin, Attempt (sample_answer 200)] ?r0 = Some r \<and> ss_snapshots (ro_state r) \<noteq> []"
    by (simp add: new_rotator_def rotator_init_def attempt_call_def leave_execute_def rotate_action_def get_bundle_def
        generate_csr_def create_certificate_def create_certificate_body_def sample_answer_def sample_crypto_def
        update_secrets_def)
  then obtain r where r: "rot_run ?act [Begin, Attempt (sample_answer 200)] ?r0 = Some r"
    "ss_snapshots (ro_state r) \<noteq> []" by blast
  have "rot_reach ?act ?r0 r"
    using rot_run_reach[OF r(1) rot_reach.start] .
  with r served_snapshots_complete[OF _ sample_new_agent] show ?thesis
    by blast
qed

text \<open>
  C29. A successful attempt asks the CA for a certificate of the SPIFFE identity of namespace and service account, for the
  lifetime in seconds, and serves the chain and the root certificate of the answer.
\<close>

theorem rotation_serves_certificate:
  assumes "cy_generate_key (aw_crypto w) (cm_bits (ag_manager a)) = Inr k"
    and "cy_create_request (aw_crypto w) \<lparr>ct_organization = [''cluster.local''], ct_uri = (''spiffe'', ''cluster.local'',
      ''/ns/'' @ cm_namespace (ag_manager a) @ ''/sa/'' @ cm_service_account (ag_manager a))\<rparr> k = Inr der"
    and "aw_new_request w = None" and "0 \<le> cm_ttl (ag_manager a)"
    and "aw_do w \<lparr>cq_url = cc_endpoint (ag_client a) @ ''/security/v1/sign_certificate'',
      cq_authorization = ''Bearer '' @ cc_token (ag_client a), cq_csr = cy_pem (aw_crypto w) ''CERTIFICATE REQUEST'' der,
      cq_ttl = cm_ttl (ag_manager a) div 1000000000\<rparr> = Inr resp"
    and "hr_decode resp = Inr ccr" and "hr_status resp = 200" and "hr_close resp = None"
  shows "\<exists>key. rotate_action cryptomb_supported a w s = (None, s\<lparr>ss_snapshots := (int_str (aw_unix_nano w),
    [CaSecret ''ROOTCA'' (cp_root_cert ccr), TlsSecret ''default'' (cp_cert_chain ccr) key]) # ss_snapshots s\<rparr>)"
proof -
  have "(cm_ttl (ag_manager a) sdiv 1000000) sdiv 1000 = cm_ttl (ag_manager a) div 1000000000"
    using assms(4) by (simp add: signed_divide_int_def zdiv_zmult2_eq[symmetric] sgn_if)
  then show ?thesis
    using assms by (intro exI[of _ "key_source_of cryptomb_supported
      (Some (cy_pem (aw_crypto w) ''PRIVATE KEY'' (cy_marshal_key (aw_crypto w) k))) (ss_poll_delay s)"])
      (simp add: rotate_action_def get_bundle_def generate_csr_def csr_template_of_def trust_domain_def
        create_certificate_def cert_request_of_def create_certificate_body_def update_secrets_def make_secrets_def
        make_ca_secret_def make_secret_def)
qed

text \<open>
  C40. An answer of the CA that cannot be decoded, or has another status than 200, counts as success once the body
  is closed without error: the deferred close overwrites the error, and an empty root certificate and an
  empty chain are served.
\<close>

theorem refusal_served_as_empty:
  assumes "cy_generate_key (aw_crypto w) (cm_bits (ag_manager a)) = Inr k"
    and "\<And>tpl. cy_create_request (aw_crypto w) tpl k = Inr der"
    and "aw_new_request w = None" and "\<And>req. aw_do w req = Inr resp" and "hr_close resp = None"
    and "(\<exists>err. hr_decode resp = Inl err) \<or> hr_status resp \<noteq> 200"
  shows "\<exists>key. rotate_action cryptomb_supported a w s = (None, s\<lparr>ss_snapshots := (int_str (aw_unix_nano w),
    [CaSecret ''ROOTCA'' [], TlsSecret ''default'' [] key]) # ss_snapshots s\<rparr>)"
proof -
  have "create_certificate_body resp = ([], [], snd (snd (create_certificate_body resp)))"
    using assms(6) by (cases "hr_decode resp") (auto simp: create_certificate_body_def)
  then have "create_certificate (aw_new_request w) (aw_do w) c csr ttl = ([], [], None)" for c csr ttl
    using assms(3-5) by (cases "create_certificate_body resp") (simp add: create_certificate_def)
  then show ?thesis
    using assms(1,2) by (intro exI[of _ "key_source_of cryptomb_supported
      (Some (cy_pem (aw_crypto w) ''PRIVATE KEY'' (cy_marshal_key (aw_crypto w) k))) (ss_poll_delay s)"])
      (simp add: rotate_action_def get_bundle_def generate_csr_def update_secrets_def
        make_secrets_def make_ca_secret_def make_secret_def)
qed

lemma sample_ttl [simp]: "0 \<le> cm_ttl (ag_manager sample_mtls_agent)"
  by (simp add: sample_mtls_agent_def hour_def minute_def second_def millisecond_def)

text \<open>The witnesses: the CA signs, and the CA refuses with status 403.\<close>

theorem rotation_serves_certificate_witness:
  "\<exists>key. rotate_action False sample_mtls_agent (sample_answer 200) (ag_sds sample_mtls_agent) =
     (None, (ag_sds sample_mtls_agent)\<lparr>ss_snapshots := (int_str 7,
       [CaSecret ''ROOTCA'' ''root'', TlsSecret ''default'' ''chain'' key]) # ss_snapshots (ag_sds sample_mtls_agent)\<rparr>)"
  using rotation_serves_certificate[where w = "sample_answer 200" and a = sample_mtls_agent and k = "()" and der = "''csr''"
      and s = "ag_sds sample_mtls_agent" and cryptomb_supported = False and
      ccr = "\<lparr>cp_cert_chain = ''chain'', cp_root_cert = ''root'', cp_message = ''denied''\<rparr>" and
      resp = "\<lparr>hr_status = 200, hr_decode = Inr \<lparr>cp_cert_chain = ''chain'', cp_root_cert = ''root'', cp_message = ''denied''\<rparr>,
        hr_close = None\<rparr>"]
  by (simp add: sample_answer_def sample_crypto_def sample_ttl)

theorem refusal_served_as_empty_witness:
  "\<exists>key. rotate_action False sample_mtls_agent (sample_answer 403) (ag_sds sample_mtls_agent) =
     (None, (ag_sds sample_mtls_agent)\<lparr>ss_snapshots := (int_str 7,
       [CaSecret ''ROOTCA'' [], TlsSecret ''default'' [] key]) # ss_snapshots (ag_sds sample_mtls_agent)\<rparr>)"
  using refusal_served_as_empty[where w = "sample_answer 403" and a = sample_mtls_agent and k = "()" and der = "''csr''"
      and s = "ag_sds sample_mtls_agent" and cryptomb_supported = False and
      resp = "\<lparr>hr_status = 403, hr_decode = Inr \<lparr>cp_cert_chain = ''chain'', cp_root_cert = ''root'', cp_message = ''denied''\<rparr>,
        hr_close = None\<rparr>"]
  by (simp add: sample_answer_def sample_crypto_def)

lemma env_default_duration_idem [simp]:
  "env_default_duration W nm (env_default_duration W nm v d) d = env_default_duration W nm v d"
  by (cases "mw_parse_duration W (mw_env W nm)") (simp_all add: env_default_duration_def)

lemma env_default_int_idem [simp]: "env_default_int W nm (env_default_int W nm v d) d = env_default_int W nm v d"
  by (cases "atoi (mw_env W nm)") (simp_all add: env_default_int_def)

lemma has_http_scheme_prefix [simp]: "has_http_scheme (http_prefix @ ca)"
  by (simp add: has_http_scheme_def has_prefix_def http_prefix_def lower_char_def char_eval)

lemma http_prefix_not_Nil [simp]: "http_prefix \<noteq> []"
  by (simp add: http_prefix_def)

lemma init_ca_server_idem: "init_ca_server W server = Inr ca \<Longrightarrow> init_ca_server W ca = Inr ca"
  by (auto simp: init_ca_server_def Let_def split: if_splits)

definition identity_of :: "mtls_world \<Rightarrow> string \<times> string \<Rightarrow> go_error + string \<times> string" where
  "identity_of W given =
     (if fst given \<noteq> [] \<and> snd given \<noteq> [] then Inr given
      else let ns = (if mw_env W env_kube_namespace \<noteq> [] then mw_env W env_kube_namespace else fst given);
               sa = (if mw_env W env_kube_account \<noteq> [] then mw_env W env_kube_account else snd given)
           in if ns \<noteq> [] \<and> sa \<noteq> [] then Inr (ns, sa)
              else (case load_service_account W of
                      Inl err \<Rightarrow>
                        Inl (MultiError [Errorf ''cannot detect which namespace and serviceaccount being used :%w'' [], err])
                    | Inr acc \<Rightarrow> Inr (sa_namespace acc, sa_account_name acc)))"

lemma init_identity_identity:
  "init_identity W opt =
     (case identity_of W (op_namespace opt, op_service_account opt) of
        Inl err \<Rightarrow> Inl err
      | Inr (ns, sa) \<Rightarrow> Inr (opt\<lparr>op_namespace := ns, op_service_account := sa\<rparr>))"
  by (cases opt; cases "load_service_account W") (simp add: init_identity_def identity_of_def Let_def)+

text \<open>
  Initialising options that were initialised before, in the same environment, changes nothing: every
  default is stable, the scheme is added to the address once, and a complete identity stays.
\<close>

theorem option_init_idempotent:
  assumes "option_init W opt = Inr opt'" and "op_namespace opt' \<noteq> []" and "op_service_account opt' \<noteq> []"
  shows "option_init W opt' = Inr opt'"
proof -
  obtain ns sa where id: "identity_of W (op_namespace opt, op_service_account opt) = Inr (ns, sa)"
    using assms by (cases "identity_of W (op_namespace opt, op_service_account opt)")
      (auto simp: option_init_def init_identity_identity Let_def)
  obtain ca where ca: "init_ca_server W (op_ca_server opt) = Inr ca"
    using assms by (cases "init_ca_server W (op_ca_server opt)")
      (auto simp: option_init_def init_identity_identity id Let_def)
  have opt': "opt' = opt\<lparr>op_network := if op_network opt = [] then ''unix'' else op_network opt,
      op_address := if op_address opt = [] then default_sds_address else op_address opt,
      op_poll_delay := env_default_duration W env_poll_delay (op_poll_delay opt) millisecond,
      op_rotate_period := env_default_duration W env_rotate_period (op_rotate_period opt) hour,
      op_retry_delay := env_default_duration W env_retry_delay (op_retry_delay opt) second,
      op_namespace := ns, op_service_account := sa, op_ca_server := ca,
      op_key_bits := env_default_int W key_bits_env (op_key_bits opt) 2048,
      op_ttl := env_default_duration W env_cert_ttl (op_ttl opt) hour\<rparr>"
    using assms(1) by (cases "op_network opt = []"; cases "op_address opt = []")
      (simp_all add: option_init_def init_identity_identity id ca Let_def)
  have "op_network opt' \<noteq> []" "op_address opt' \<noteq> []"
    by (simp_all add: opt' default_sds_address_def)
  moreover have "identity_of W (op_namespace opt', op_service_account opt') = Inr (op_namespace opt', op_service_account opt')"
    using assms(2,3) by (simp add: identity_of_def)
  ultimately show ?thesis
    using init_ca_server_idem[OF ca]
    by (simp add: option_init_def init_identity_identity Let_def) (simp add: opt')
qed

theorem option_init_idempotent_witness:
  "\<exists>opt. option_init sample_mtls_world (zero_option\<lparr>op_ca_server := ''ca:8080''\<rparr>) = Inr opt \<and>
     option_init sample_mtls_world opt = Inr opt \<and> op_ca_server opt = ''http://ca:8080'' \<and> op_service_account opt = ''sidecar''"
proof -
  have "\<not> has_http_scheme ''ca:8080''"
    by (simp add: has_http_scheme_def has_prefix_def http_prefix_def https_prefix_def lower_char_def char_eval)
  then have "\<exists>opt. option_init sample_mtls_world (zero_option\<lparr>op_ca_server := ''ca:8080''\<rparr>) = Inr opt \<and>
      op_ca_server opt = ''http://ca:8080'' \<and> op_service_account opt = ''sidecar'' \<and> op_namespace opt = ''default''"
    by (simp add: option_init_def init_identity_def init_ca_server_def load_service_account_def
        sample_mtls_world_def zero_option_def http_prefix_def Let_def)
  then obtain opt where opt: "option_init sample_mtls_world (zero_option\<lparr>op_ca_server := ''ca:8080''\<rparr>) = Inr opt"
    "op_ca_server opt = ''http://ca:8080''" "op_service_account opt = ''sidecar''" "op_namespace opt = ''default''" by blast
  have "option_init sample_mtls_world opt = Inr opt"
    by (rule option_init_idempotent[OF opt(1)]) (simp_all add: opt)
  with opt show ?thesis by blast
qed

end
