(* ===== verification/Polaris.thy ===== *)
theory Polaris
  imports Config
begin

text \<open>
  The access to the Polaris SDK (\<open>src/pkg/polaris/client.go\<close>): one context for the process, made from the
  configuration by setter calls on the SDK's default configuration. The SDK is an argument: the configuration is the
  list of the calls made on it.
\<close>

datatype sdk_setting =
    DefaultConfiguration "string list"
  | CircuitBreakerEnable bool
  | StatReporterEnable bool
  | StatReporterChain "string list"
  | PrometheusConfig polaris_metrics string
  | LocationConfig "location_provider list"
  | NearbyMatchLevel string

definition sdk_metrics_settings :: "polaris_metrics option \<Rightarrow> sdk_setting list" where
  "sdk_metrics_settings metrics =
     (case metrics of
        None \<Rightarrow> []
      | Some m \<Rightarrow> [StatReporterEnable True, StatReporterChain [''prometheus''], PrometheusConfig m (int_str (pm_port m))])"

definition sdk_settings :: "polaris_api_config \<Rightarrow> sdk_setting list" where
  "sdk_settings conf =
     [DefaultConfiguration (pa_addresses conf), CircuitBreakerEnable False] @
     sdk_metrics_settings (pa_metrics conf) @
     (case pa_location conf of None \<Rightarrow> [] | Some l \<Rightarrow> [LocationConfig l]) @
     (if pa_nearby_match_level conf \<noteq> [] then [NearbyMatchLevel (pa_nearby_match_level conf)] else [])"

text \<open>\<open>InitPolarisContext\<close>, on the global variable \<open>SDKContext\<close>.\<close>

definition init_polaris_context ::
  "(sdk_setting list \<Rightarrow> go_error + 'ctx) \<Rightarrow> polaris_api_config \<Rightarrow> 'ctx option \<Rightarrow> 'ctx option \<times> go_error option" where
  "init_polaris_context new_context conf sdk_context =
     (case sdk_context of
        Some ctx \<Rightarrow> (Some ctx, None)
      | None \<Rightarrow>
          (case new_context (sdk_settings conf) of
             Inl err \<Rightarrow> (None, Some err)
           | Inr ctx \<Rightarrow> (Some ctx, None)))"

definition get_consumer_api :: "('ctx \<Rightarrow> 'api) \<Rightarrow> 'ctx option \<Rightarrow> go_error + 'api" where
  "get_consumer_api new_consumer sdk_context =
     (case sdk_context of
        None \<Rightarrow> Inl (Errorf ''polaris SDKContext is nil'' [])
      | Some ctx \<Rightarrow> Inr (new_consumer ctx))"

definition get_limit_api :: "('ctx \<Rightarrow> 'api) \<Rightarrow> 'ctx option \<Rightarrow> go_error + 'api" where
  "get_limit_api new_limit sdk_context =
     (case sdk_context of
        None \<Rightarrow> Inl (Errorf ''polaris SDKContext is nil'' [])
      | Some ctx \<Rightarrow> Inr (new_limit ctx))"

lemma init_polaris_context_ok:
  "init_polaris_context new_context conf sdk_context = (sdk_context', None) \<Longrightarrow> sdk_context' \<noteq> None"
  by (auto simp: init_polaris_context_def split: option.splits sum.splits)

lemma init_polaris_context_once:
  "init_polaris_context new_context conf sdk_context = (sdk_context', None) \<Longrightarrow>
   init_polaris_context new_context' conf' sdk_context' = (sdk_context', None)"
  by (auto simp: init_polaris_context_def split: option.splits sum.splits)

end
