(* ===== verification/Rls.thy ===== *)
theory Rls
  imports Polaris
begin

text \<open>
  The rate limit server of the mesh (\<open>src/internal/mesh/rls\<close>): the quota request it makes of a request of Envoy, the
  answer, and the resources it takes and gives back. The limit API of the SDK and gRPC are arguments; the SDK's
  request object is the list of the calls made on it.
\<close>

section \<open>Configuration\<close>

definition default_rls_address :: string where
  "default_rls_address = ''/tmp/polaris-sidecar/ratelimit/rls.sock''"

definition rls_conf_init :: "rls_config \<Rightarrow> rls_config" where
  "rls_conf_init c = (if rl_network c = ''unix'' \<and> rl_address c = [] then c\<lparr>rl_address := default_rls_address\<rparr> else c)"

definition tls_is_empty :: "tls_info option \<Rightarrow> bool" where
  "tls_is_empty t =
     (case t of
        None \<Rightarrow> True
      | Some t \<Rightarrow> \<not> (ti_cert_file t \<noteq> [] \<and> ti_key_file t \<noteq> []))"

record rls_server =
  rx_namespace :: string
  rx_conf :: rls_config

definition new_rls :: "string \<Rightarrow> rls_config option \<Rightarrow> rls_server option" where
  "new_rls namespace conf =
     (case conf of None \<Rightarrow> None | Some c \<Rightarrow> Some \<lparr>rx_namespace = namespace, rx_conf = rls_conf_init c\<rparr>)"

section \<open>Requests\<close>

text \<open>A descriptor is a list of entries, \<open>None\<close> the nil descriptor.\<close>

type_synonym descriptor = "(string \<times> string) list"

record rls_request =
  rq_domain :: string
  rq_hits :: u32
  rq_descriptors :: "descriptor option list"

datatype quota_call =
    SetMethod string
  | AddArgument string string
  | SetNamespace string
  | SetService string
  | SetToken u32

fun entry_calls :: "descriptor \<Rightarrow> quota_call list" where
  "entry_calls [] = []"
| "entry_calls ((k, v) # es) = (if k = '':path'' then SetMethod v else AddArgument k v) # entry_calls es"

fun descriptor_calls :: "descriptor option list \<Rightarrow> quota_call list" where
  "descriptor_calls [] = []"
| "descriptor_calls (None # ds) = descriptor_calls ds"
| "descriptor_calls (Some d # ds) = entry_calls d @ descriptor_calls ds"

definition build_quota_request ::
  "rls_server \<Rightarrow> string \<Rightarrow> u32 \<Rightarrow> descriptor option list \<Rightarrow> quota_call list \<times> go_error option" where
  "build_quota_request svr domain acquire_quota descriptors =
     (if domain = [] \<or> rx_namespace svr = [] then ([], None)
      else
        let calls = descriptor_calls descriptors;
            domain = (if has_suffix domain (''.'' @ rx_namespace svr)
                      then trim_suffix domain (''.'' @ rx_namespace svr) else domain)
        in (calls @ [SetNamespace (rx_namespace svr), SetService domain, SetToken acquire_quota], None))"

text \<open>The SDK's answer: an error, a nil future, or a result with its code (limited or not) and its text.\<close>

record quota_result =
  qt_limited :: bool
  qt_info :: string

type_synonym limit_api = "quota_call list \<Rightarrow> go_error + quota_result option"

datatype rls_code = CodeOK | CodeOverLimit

record rls_response =
  ro_overall :: rls_code
  ro_statuses :: "rls_code list"
  ro_raw_body :: string

definition should_rate_limit ::
  "limit_api \<Rightarrow> rls_server \<Rightarrow> rls_request \<Rightarrow> rls_response option \<times> go_error option" where
  "should_rate_limit limiter svr req =
     (let acquire_quota = (if rq_hits req = 0 then 1 else rq_hits req);
          (quota_req, err) = build_quota_request svr (rq_domain req) acquire_quota (rq_descriptors req)
      in case err of
           Some e \<Rightarrow> (None, Some e)
         | None \<Rightarrow>
             (case limiter quota_req of
                Inl e \<Rightarrow> (None, Some e)
              | Inr None \<Rightarrow> (None, None)
              | Inr (Some resp) \<Rightarrow>
                  let overall_code = (if qt_limited resp then CodeOverLimit else CodeOK) in
                  (Some \<lparr>ro_overall = overall_code,
                     ro_statuses = replicate (length (rq_descriptors req)) overall_code,
                     ro_raw_body = qt_info resp\<rparr>, None)))"

section \<open>Running\<close>

text \<open>
  What \<open>Run\<close> meets (the errors of the stages) and what it does: taking the listener, the limit API and the gRPC server,
  and giving them back in \<open>Destroy\<close>. \<open>filepath.Dir\<close> is an argument.
\<close>

record rls_world =
  rw_mkdir :: "go_error option"
  rw_listen :: "go_error option"
  rw_limit_api :: "go_error option"
  rw_credentials :: "go_error option"
  rw_dir :: "string \<Rightarrow> string"

datatype rls_event =
    MakeDir string
  | Listen string string
  | TakeLimiter
  | ServeGrpc bool
  | DestroyLimiter
  | StopGrpc
  | CloseListener
  | RemoveAll string

record rls_held =
  rh_limiter :: bool
  rh_grpc :: bool
  rh_listener :: bool

definition rls_destroy :: "rls_world \<Rightarrow> rls_config \<Rightarrow> rls_held \<Rightarrow> rls_event list" where
  "rls_destroy W conf h =
     (if rh_limiter h then [DestroyLimiter] else []) @
     (if rh_grpc h then [StopGrpc] else []) @
     (if rh_listener h then [CloseListener] else []) @
     (if rl_network conf = ''unix'' then [RemoveAll (rw_dir W (rl_address conf))] else [])"

text \<open>\<open>Run\<close> up to the stop signal, followed by the deferred \<open>Destroy\<close>: the error it sends, and the events.\<close>

definition rls_run :: "rls_world \<Rightarrow> rls_server \<Rightarrow> go_error option \<times> rls_event list" where
  "rls_run W svr =
     (let conf = rx_conf svr;
          dir = (if rl_network conf = ''unix'' then [MakeDir (rw_dir W (rl_address conf))] else []);
          held = \<lparr>rh_limiter = False, rh_grpc = False, rh_listener = False\<rparr>
      in case (if rl_network conf = ''unix'' then rw_mkdir W else None) of
           Some err \<Rightarrow> (Some err, rls_destroy W conf held)
         | None \<Rightarrow>
             (case rw_listen W of
                Some err \<Rightarrow> (Some err, dir @ rls_destroy W conf held)
              | None \<Rightarrow>
                  let ev = dir @ [Listen (rl_network conf) (rl_address conf)]; held = held\<lparr>rh_listener := True\<rparr> in
                  (case rw_limit_api W of
                     Some err \<Rightarrow> (Some err, ev @ rls_destroy W conf held)
                   | None \<Rightarrow>
                       let ev = ev @ [TakeLimiter]; held = held\<lparr>rh_limiter := True\<rparr> in
                       (case (if \<not> tls_is_empty (rl_tls_info conf) then rw_credentials W else None) of
                          Some err \<Rightarrow> (Some err, ev @ rls_destroy W conf held)
                        | None \<Rightarrow>
                            (None, ev @ [ServeGrpc (\<not> tls_is_empty (rl_tls_info conf))] @
                               rls_destroy W conf (held\<lparr>rh_grpc := True\<rparr>))))))"

section \<open>Lemmas\<close>

lemma build_quota_request_ok [simp]: "snd (build_quota_request svr domain q ds) = None"
  by (simp add: build_quota_request_def Let_def)

lemma entry_calls_map: "entry_calls d = map (\<lambda>(k, v). if k = '':path'' then SetMethod v else AddArgument k v) d"
  by (induction d rule: entry_calls.induct) simp_all

lemma descriptor_calls_concat:
  "descriptor_calls ds = map (\<lambda>(k, v). if k = '':path'' then SetMethod v else AddArgument k v)
     (concat (List.map_filter id ds))"
  by (induction ds rule: descriptor_calls.induct) (simp_all add: List.map_filter_simps entry_calls_map)

section \<open>Properties\<close>

text \<open>
  Envoy gets one status per descriptor, all equal to the overall code, which is \<open>OVER_LIMIT\<close> exactly when
  the SDK limits the request; it gets an error exactly when the SDK has one, and neither when the future is nil.
\<close>

theorem rate_limit_reply:
  "\<exists>quota_req. should_rate_limit limiter svr req =
     (case limiter quota_req of
        Inl e \<Rightarrow> (None, Some e)
      | Inr None \<Rightarrow> (None, None)
      | Inr (Some r) \<Rightarrow> (Some \<lparr>ro_overall = (if qt_limited r then CodeOverLimit else CodeOK),
          ro_statuses = map (\<lambda>d. if qt_limited r then CodeOverLimit else CodeOK) (rq_descriptors req),
          ro_raw_body = qt_info r\<rparr>, None)) \<and>
   quota_req = fst (build_quota_request svr (rq_domain req) (max 1 (rq_hits req)) (rq_descriptors req))"
proof -
  have hits: "(if rq_hits req = 0 then 1 else rq_hits req) = max 1 (rq_hits req)"
    by (simp add: max_def word_le_nat_alt unat_gt_0[symmetric])
  obtain quota_req where q: "build_quota_request svr (rq_domain req) (max 1 (rq_hits req)) (rq_descriptors req) = (quota_req, None)"
    using build_quota_request_ok by (metis prod.collapse)
  show ?thesis
    by (intro exI[of _ quota_req])
      (simp add: should_rate_limit_def hits q map_replicate_const Let_def split: sum.split option.split)
qed

text \<open>
  The quota request of a service \<open>svc.ns\<close> of the own namespace: every entry of every descriptor in order, the
  path as the method and the others as arguments, then namespace, service and the number of hits.
\<close>

theorem quota_request_of_service:
  assumes "rx_namespace svr \<noteq> []" and "svc \<noteq> []"
  shows "build_quota_request svr (svc @ ''.'' @ rx_namespace svr) q ds =
    (map (\<lambda>(k, v). if k = '':path'' then SetMethod v else AddArgument k v) (concat (List.map_filter id ds)) @
       [SetNamespace (rx_namespace svr), SetService svc, SetToken q], None)"
  using assms has_suffix_append[of svc "''.'' @ rx_namespace svr"] trim_suffix_append[of svc "''.'' @ rx_namespace svr"]
  by (simp add: build_quota_request_def descriptor_calls_concat Let_def)

theorem quota_request_of_service_witness:
  "build_quota_request \<lparr>rx_namespace = ''default'', rx_conf = rls_conf_init
     \<lparr>rl_enable = True, rl_network = ''unix'', rl_address = [], rl_bind_port = 0, rl_tls_info = None\<rparr>\<rparr>
     ''reviews.default'' 1 [Some [('':path'', ''/v1''), (''user'', ''bob'')], None] =
   ([SetMethod ''/v1'', AddArgument ''user'' ''bob'', SetNamespace ''default'', SetService ''reviews'', SetToken 1], None)"
proof -
  let ?svr = "\<lparr>rx_namespace = ''default'', rx_conf = rls_conf_init
     \<lparr>rl_enable = True, rl_network = ''unix'', rl_address = [], rl_bind_port = 0, rl_tls_info = None\<rparr>\<rparr>"
  have "rx_namespace ?svr \<noteq> []" "''reviews'' \<noteq> []"
    by simp_all
  from quota_request_of_service[OF this] show ?thesis
    by (simp add: List.map_filter_simps)
qed

text \<open>
  C33. Whatever stage fails, \<open>Run\<close> gives back exactly what it took: the listener, the limit API and the gRPC
  server are released if and only if they were acquired, once, and in the order limiter, server, listener.
\<close>

theorem rls_run_releases:
  "\<exists>taken. snd (rls_run W svr) = taken @ (if TakeLimiter \<in> set taken then [DestroyLimiter] else []) @
      (if \<exists>tls. ServeGrpc tls \<in> set taken then [StopGrpc] else []) @
      (if \<exists>network addr. Listen network addr \<in> set taken then [CloseListener] else []) @
      (if rl_network (rx_conf svr) = ''unix'' then [RemoveAll (rw_dir W (rl_address (rx_conf svr)))] else []) \<and>
    {DestroyLimiter, StopGrpc, CloseListener} \<inter> set taken = {}"
proof -
  define dir where "dir = (if rl_network (rx_conf svr) = ''unix'' then [MakeDir (rw_dir W (rl_address (rx_conf svr)))] else [])"
  have [simp]: "TakeLimiter \<notin> set dir" "ServeGrpc tls \<notin> set dir" "Listen nw addr \<notin> set dir"
    "DestroyLimiter \<notin> set dir" "StopGrpc \<notin> set dir" "CloseListener \<notin> set dir" for tls nw addr
    by (simp_all add: dir_def)
  let ?mk = "if rl_network (rx_conf svr) = ''unix'' then rw_mkdir W else None"
  let ?cr = "if \<not> tls_is_empty (rl_tls_info (rx_conf svr)) then rw_credentials W else None"
  let ?l = "[Listen (rl_network (rx_conf svr)) (rl_address (rx_conf svr))]"
  show ?thesis
  proof (cases ?mk)
    case (Some err)
    then show ?thesis
      by (intro exI[of _ "[]"]) (simp add: rls_run_def rls_destroy_def Let_def)
  next
    case mk: None
    show ?thesis
    proof (cases "rw_listen W")
      case (Some err)
      then show ?thesis
        by (intro exI[of _ dir]) (simp add: rls_run_def rls_destroy_def mk dir_def[symmetric] Let_def)
    next
      case ln: None
      show ?thesis
      proof (cases "rw_limit_api W")
        case (Some err)
        then show ?thesis
          by (intro exI[of _ "dir @ ?l"]) (auto simp: rls_run_def rls_destroy_def mk ln dir_def[symmetric] Let_def)
      next
        case lim: None
        show ?thesis
        proof (cases ?cr)
          case (Some err)
          then show ?thesis
            by (intro exI[of _ "dir @ ?l @ [TakeLimiter]"])
              (auto simp: rls_run_def rls_destroy_def mk ln lim dir_def[symmetric] Let_def)
        next
          case None
          then show ?thesis
            by (intro exI[of _ "dir @ ?l @ [TakeLimiter, ServeGrpc (\<not> tls_is_empty (rl_tls_info (rx_conf svr)))]"])
              (auto simp: rls_run_def rls_destroy_def mk ln lim dir_def[symmetric] Let_def)
        qed
      qed
    qed
  qed
qed

text \<open>
  The server made from a configuration with a unix socket listens on the default path, whatever address the
  configuration gives.
\<close>

theorem rls_socket_path_fixed:
  assumes "init_mesh_ratelimit s = Some c" and "rl_network c = ''unix''" and "new_rls namespace (Some c) = Some svr"
  shows "rl_address (rx_conf svr) = default_rls_address"
proof -
  have "rl_address c = []"
    using assms(1,2) by (cases "sd_mesh s"; cases "me_rate_limit (the (sd_mesh s))")
      (auto simp: init_mesh_ratelimit_def Let_def split: if_splits)
  then show ?thesis
    using assms(2,3) by (auto simp: new_rls_def rls_conf_init_def)
qed

theorem rls_socket_path_fixed_witness:
  "\<exists>c svr. init_mesh_ratelimit (default_sidecar_config\<lparr>sd_mesh_enabled := True, sd_mesh := Some \<lparr>me_metrics = None,
      me_rate_limit = Some \<lparr>rl_enable = True, rl_network = ''unix'', rl_address = ''/run/rls.sock'', rl_bind_port = 0,
        rl_tls_info = None\<rparr>, me_mtls = None\<rparr>\<rparr>) = Some c \<and>
     new_rls ''default'' (Some c) = Some svr \<and> rl_address (rx_conf svr) = ''/tmp/polaris-sidecar/ratelimit/rls.sock''"
proof -
  let ?s = "default_sidecar_config\<lparr>sd_mesh_enabled := True, sd_mesh := Some \<lparr>me_metrics = None,
      me_rate_limit = Some \<lparr>rl_enable = True, rl_network = ''unix'', rl_address = ''/run/rls.sock'', rl_bind_port = 0,
        rl_tls_info = None\<rparr>, me_mtls = None\<rparr>\<rparr>"
  have "to_lower ''unix'' = ''unix''"
    by (simp add: lower_char_def char_eval)
  then obtain c where c: "init_mesh_ratelimit ?s = Some c" "rl_network c = ''unix''"
    by (simp add: init_mesh_ratelimit_def is_mesh_ratelimit_enabled_def)
  obtain svr where "new_rls ''default'' (Some c) = Some svr"
    by (simp add: new_rls_def)
  with rls_socket_path_fixed[OF c this] c show ?thesis
    by (auto simp: default_rls_address_def)
qed

end
