(* ===== verification/Lifecycle.thy ===== *)
theory Lifecycle
  imports Mtls
begin

text \<open>
  The life of the process after its initialisation (\<open>src/internal/bootstrap/agent.go\<close> and \<open>entry.go\<close>): the goroutines
  of the components with the wait group, the shared error channel, the stop signal and the main loop. A component is
  seen as the sequence of what its \<open>Run\<close> does with these: \<open>wg.Add\<close>, start or fail, wait for the signal, \<open>Destroy\<close>,
  \<open>wg.Done\<close>; its listeners are goroutines of their own that send what \<open>Serve\<close> returns.
\<close>

section \<open>Components\<close>

datatype component = DebugServer | DnsServer | MtlsAgent | MetricsServer | RateLimitServer

definition all_components :: "component list" where
  "all_components = [DebugServer, DnsServer, MtlsAgent, MetricsServer, RateLimitServer]"

lemma all_components [simp]: "c \<in> set all_components"
  by (cases c) (simp_all add: all_components_def)

text \<open>How many goroutines of listeners a component starts.\<close>

fun listeners :: "component \<Rightarrow> nat" where
  "listeners DebugServer = 1"
| "listeners DnsServer = 2"
| "listeners MtlsAgent = 1"
| "listeners MetricsServer = 0"
| "listeners RateLimitServer = 1"

text \<open>\<open>getErrorChannel\<close>: the capacity of the channel.\<close>

definition channel_capacity :: "(component \<Rightarrow> bool) \<Rightarrow> nat" where
  "channel_capacity present =
     (let n = 0;
          n = (if present DebugServer then n + 1 else n);
          n = (if present DnsServer then n + 2 else n);
          n = (if present MtlsAgent then n + 1 else n);
          n = (if present MetricsServer then n + 1 else n);
          n = (if present RateLimitServer then n + 1 else n)
      in n)"

section \<open>Signals\<close>

text \<open>\<open>system.Signals\<close> of the three platforms; each of its signals stops the main loop.\<close>

datatype platform = Linux | Darwin | Windows

datatype os_signal = SigInt | SigTerm | SigSegv | SigUsr1

fun stop_signals :: "platform \<Rightarrow> os_signal list" where
  "stop_signals Linux = [SigInt, SigTerm, SigSegv, SigUsr1]"
| "stop_signals Darwin = [SigInt, SigTerm, SigSegv, SigUsr1]"
| "stop_signals Windows = [SigInt, SigTerm, SigSegv]"

section \<open>States and steps\<close>

text \<open>
  Where \<open>Run\<close> of a component is: not part of the agent; its goroutine started; after \<open>wg.Add\<close>; about to send an
  error; waiting for the signal; in the deferred function, before its first and before its second call; finished.
\<close>

datatype phase = Absent | Spawned | Starting | Failing go_error | Waiting | Leaving | Released | Ended

text \<open>A listener: in \<open>Serve\<close>, about to send what it returned, finished.\<close>

datatype listener = Serving | Returned "go_error option" | Reported

text \<open>
  The main goroutine: in its loop, waiting for the wait group, blocked for ever on the context, out of \<open>Start\<close>, and
  ended by a panic in a goroutine without \<open>recover\<close>, which takes the whole process down.
\<close>

datatype main_pc = MainLoop | MainWaiting | MainStuck | MainExit bool | MainPanic

record life =
  li_phase :: "component \<Rightarrow> phase"
  li_listeners :: "component \<Rightarrow> listener list"
  li_destroyed :: "component \<Rightarrow> bool"
  li_wg :: nat
  li_chan :: "go_error option list"
  li_cap :: nat
  li_cancelled :: bool
  li_main :: main_pc

text \<open>\<open>runServices\<close> starts a goroutine for every component of the agent.\<close>

definition run_services :: "(component \<Rightarrow> bool) \<Rightarrow> life" where
  "run_services present = \<lparr>li_phase = (\<lambda>c. if present c then Spawned else Absent), li_listeners = (\<lambda>c. []),
     li_destroyed = (\<lambda>c. False), li_wg = 0, li_chan = [], li_cap = channel_capacity present,
     li_cancelled = False, li_main = MainLoop\<rparr>"

datatype life_event =
    Launch component
  | StartFails component go_error
  | StartsServing component
  | ListenerReturns component nat "go_error option"
  | ListenerSends component nat
  | SendsFailure component
  | SeesStop component
  | LeavesFirst component
  | LeavesSecond component
  | Signal
  | Receive
  | AllDone
  | Timeout
  | Panics component

definition send :: "go_error option \<Rightarrow> life \<Rightarrow> life option" where
  "send v l = (if length (li_chan l) < li_cap l then Some (l\<lparr>li_chan := li_chan l @ [v]\<rparr>) else None)"

definition set_phase :: "component \<Rightarrow> phase \<Rightarrow> life \<Rightarrow> life" where
  "set_phase c p l = l\<lparr>li_phase := (li_phase l)(c := p)\<rparr>"

definition set_listeners :: "component \<Rightarrow> listener list \<Rightarrow> life \<Rightarrow> life" where
  "set_listeners c ls l = l\<lparr>li_listeners := (li_listeners l)(c := ls)\<rparr>"

definition wg_done :: "life \<Rightarrow> life" where
  "wg_done l = l\<lparr>li_wg := li_wg l - 1\<rparr>"

definition destroy :: "component \<Rightarrow> life \<Rightarrow> life" where
  "destroy c l = l\<lparr>li_destroyed := (li_destroyed l)(c := True)\<rparr>"

text \<open>
  The deferred functions: the debug server calls \<open>wg.Done\<close> before \<open>Destroy\<close>, the others after it. When the signal is seen,
  \<open>Run\<close> of the mTLS agent has the context's error from its rotator (\<open>rotator_returns_context_error\<close>) and sends it.
\<close>

fun first_deferred :: "component \<Rightarrow> life \<Rightarrow> life" where
  "first_deferred c l = (if c = DebugServer then wg_done l else destroy c l)"

fun second_deferred :: "component \<Rightarrow> life \<Rightarrow> life" where
  "second_deferred c l = (if c = DebugServer then destroy c l else wg_done l)"

text \<open>What \<open>Serve\<close> may return, given whether its component was destroyed, is the argument \<open>serve\<close>.\<close>

fun life_step :: "(bool \<Rightarrow> go_error option \<Rightarrow> bool) \<Rightarrow> life_event \<Rightarrow> life \<Rightarrow> life option" where
  "life_step serve (Launch c) l =
     (if li_phase l c = Spawned then Some ((set_phase c Starting l)\<lparr>li_wg := li_wg l + 1\<rparr>) else None)"
| "life_step serve (StartFails c e) l =
     (if li_phase l c = Starting then Some (set_phase c (Failing e) l) else None)"
| "life_step serve (StartsServing c) l =
     (if li_phase l c = Starting
      then Some (set_listeners c (replicate (listeners c) Serving) (set_phase c Waiting l)) else None)"
| "life_step serve (ListenerReturns c i v) l =
     (if i < length (li_listeners l c) \<and> li_listeners l c ! i = Serving \<and> serve (li_destroyed l c) v
      then Some (set_listeners c ((li_listeners l c)[i := Returned v]) l) else None)"
| "life_step serve (ListenerSends c i) l =
     (if i < length (li_listeners l c) then
        (case li_listeners l c ! i of
           Returned v \<Rightarrow> map_option (set_listeners c ((li_listeners l c)[i := Reported])) (send v l)
         | _ \<Rightarrow> None)
      else None)"
| "life_step serve (SendsFailure c) l =
     (case li_phase l c of Failing e \<Rightarrow> map_option (set_phase c Leaving) (send (Some e) l) | _ \<Rightarrow> None)"
| "life_step serve (SeesStop c) l =
     (if li_phase l c = Waiting \<and> li_cancelled l
      then Some (set_phase c (if c = MtlsAgent then Failing ctx_err else Leaving) l) else None)"
| "life_step serve (LeavesFirst c) l =
     (if li_phase l c = Leaving then Some (set_phase c Released (first_deferred c l)) else None)"
| "life_step serve (LeavesSecond c) l =
     (if li_phase l c = Released then Some (set_phase c Ended (second_deferred c l)) else None)"
| "life_step serve Signal l =
     (if li_main l = MainLoop then Some (l\<lparr>li_cancelled := True, li_main := MainWaiting\<rparr>) else None)"
| "life_step serve Receive l =
     (if li_main l = MainLoop then
        (case li_chan l of
           [] \<Rightarrow> None
         | Some e # vs \<Rightarrow> Some (l\<lparr>li_chan := vs, li_cancelled := True, li_main := MainWaiting\<rparr>)
         | None # vs \<Rightarrow> Some (l\<lparr>li_chan := vs, li_main := MainStuck\<rparr>))
      else None)"
| "life_step serve AllDone l =
     (if li_main l = MainWaiting \<and> li_wg l = 0 then Some (l\<lparr>li_main := MainExit True\<rparr>) else None)"
| "life_step serve Timeout l = (if li_main l = MainWaiting then Some (l\<lparr>li_main := MainExit False\<rparr>) else None)"
| "life_step serve (Panics c) l =
     (if li_phase l c \<notin> {Absent, Spawned} then Some (l\<lparr>li_main := MainPanic\<rparr>) else None)"

text \<open>After the main goroutine has returned, or a panic, nothing runs any more.\<close>

definition exited :: "life \<Rightarrow> bool" where
  "exited l \<longleftrightarrow> (\<exists>graceful. li_main l = MainExit graceful) \<or> li_main l = MainPanic"

definition life_next :: "(bool \<Rightarrow> go_error option \<Rightarrow> bool) \<Rightarrow> life_event \<Rightarrow> life \<Rightarrow> life option" where
  "life_next serve e l =
     (case li_main l of MainExit graceful \<Rightarrow> None | MainPanic \<Rightarrow> None | _ \<Rightarrow> life_step serve e l)"

fun life_run :: "(bool \<Rightarrow> go_error option \<Rightarrow> bool) \<Rightarrow> life_event list \<Rightarrow> life \<Rightarrow> life option" where
  "life_run serve [] l = Some l"
| "life_run serve (e # es) l = (case life_next serve e l of None \<Rightarrow> None | Some l' \<Rightarrow> life_run serve es l')"

inductive life_reach :: "(bool \<Rightarrow> go_error option \<Rightarrow> bool) \<Rightarrow> (component \<Rightarrow> bool) \<Rightarrow> life \<Rightarrow> bool"
  for serve present where
  start: "life_reach serve present (run_services present)"
| step: "life_reach serve present l \<Longrightarrow> life_next serve e l = Some l' \<Longrightarrow> life_reach serve present l'"

lemma life_run_reach: "life_run serve es l = Some l' \<Longrightarrow> life_reach serve present l \<Longrightarrow> life_reach serve present l'"
  by (induction es arbitrary: l) (auto split: option.splits intro: life_reach.step)

text \<open>The documented behaviour of \<open>Serve\<close> and \<open>ListenAndServe\<close>: nil only after the server was shut down.\<close>

definition serve_law :: "(bool \<Rightarrow> go_error option \<Rightarrow> bool) \<Rightarrow> bool" where
  "serve_law serve \<longleftrightarrow> \<not> serve False None"

section \<open>The wait group and the resources\<close>

text \<open>Whether a component counts in the wait group, and whether it was destroyed, by its phase.\<close>

fun counted :: "component \<Rightarrow> phase \<Rightarrow> nat" where
  "counted c Absent = 0"
| "counted c Spawned = 0"
| "counted c Released = (if c = DebugServer then 0 else 1)"
| "counted c Ended = 0"
| "counted c p = 1"

fun is_destroyed :: "component \<Rightarrow> phase \<Rightarrow> bool" where
  "is_destroyed c Released \<longleftrightarrow> c \<noteq> DebugServer"
| "is_destroyed c Ended \<longleftrightarrow> True"
| "is_destroyed c p \<longleftrightarrow> False"

definition total :: "(component \<Rightarrow> nat) \<Rightarrow> nat" where
  "total f = sum_list (map f all_components)"

lemma total_upd: "total (f(c := n)) + f c = total f + n"
  by (cases c) (simp_all add: total_def all_components_def)

lemma total_ge: "f c \<le> total f"
  using member_le_sum_list[of "f c" "map f all_components"] by (simp add: total_def)

definition wg_ok :: "life \<Rightarrow> bool" where
  "wg_ok l \<longleftrightarrow> li_wg l = total (\<lambda>c. counted c (li_phase l c)) \<and> (\<forall>c. li_destroyed l c = is_destroyed c (li_phase l c)) \<and>
     (li_main l = MainExit True \<longrightarrow> li_wg l = 0)"

lemma counted_upd: "(\<lambda>d. counted d (((li_phase l)(c := p)) d)) = (\<lambda>d. counted d (li_phase l d))(c := counted c p)"
  by auto

lemma wg_phase:
  assumes "wg_ok l" and "li_main l \<noteq> MainExit True"
    and "n + counted c (li_phase l c) = li_wg l + counted c p"
    and "\<And>d. ds d = (if d = c then is_destroyed c p else li_destroyed l d)"
    and "li_phase l' = (li_phase l)(c := p)" "li_wg l' = n" "li_destroyed l' = ds" "li_main l' = li_main l"
  shows "wg_ok l'"
proof -
  have "li_wg l = total (\<lambda>c. counted c (li_phase l c))"
    using assms(1) by (simp add: wg_ok_def)
  then have "n = total (\<lambda>c. counted c (li_phase l' c))"
    unfolding assms(5) counted_upd
    using assms(3) total_upd[of "\<lambda>c. counted c (li_phase l c)" c "counted c p"] by simp
  then show ?thesis
    using assms by (simp add: wg_ok_def)
qed

lemmas life_update = set_phase_def set_listeners_def wg_done_def destroy_def

lemma life_next_Some:
  "life_next serve e l = Some l' \<longleftrightarrow> \<not> exited l \<and> life_step serve e l = Some l'"
  by (cases "li_main l") (simp_all add: life_next_def exited_def)

lemma send_Some: "send v l = Some l' \<longleftrightarrow> length (li_chan l) < li_cap l \<and> l' = l\<lparr>li_chan := li_chan l @ [v]\<rparr>"
  by (auto simp: send_def)

lemma wg_pos: "wg_ok l \<Longrightarrow> counted c (li_phase l c) = 1 \<Longrightarrow> 0 < li_wg l"
  using total_ge[of "\<lambda>c. counted c (li_phase l c)" c] by (simp add: wg_ok_def)

lemma wg_frame:
  "wg_ok l \<Longrightarrow> li_phase l' = li_phase l \<Longrightarrow> li_wg l' = li_wg l \<Longrightarrow> li_destroyed l' = li_destroyed l \<Longrightarrow>
   (li_main l' = MainExit True \<Longrightarrow> li_wg l = 0) \<Longrightarrow> wg_ok l'"
  by (simp add: wg_ok_def)

lemma wg_same_phase:
  assumes "wg_ok l" "li_main l \<noteq> MainExit True" "counted c p = counted c (li_phase l c)"
    "is_destroyed c p = is_destroyed c (li_phase l c)"
    "li_phase l' = (li_phase l)(c := p)" "li_wg l' = li_wg l" "li_destroyed l' = li_destroyed l" "li_main l' = li_main l"
  shows "wg_ok l'"
proof (rule wg_phase[OF assms(1,2), where c = c and p = p and n = "li_wg l" and ds = "li_destroyed l"])
  show "li_destroyed l d = (if d = c then is_destroyed c p else li_destroyed l d)" for d
    using assms(1,4) by (simp add: wg_ok_def)
qed (simp_all add: assms)

text \<open>The events that move a component, and those that move only listeners, channel or the main goroutine.\<close>

lemma wg_step_component:
  assumes "life_step serve e l = Some l'" and "li_main l \<noteq> MainExit True" and "wg_ok l"
    and "e \<in> {Launch c, StartFails c err, StartsServing c, SendsFailure c, SeesStop c, LeavesFirst c, LeavesSecond c}"
  shows "wg_ok l'"
proof -
  have dest: "li_destroyed l c = is_destroyed c (li_phase l c)" for c
    using assms(3) by (simp add: wg_ok_def)
  consider "e = Launch c" | "e = StartFails c err" | "e = StartsServing c" | "e = SendsFailure c" | "e = SeesStop c" |
    "e = LeavesFirst c" | "e = LeavesSecond c"
    using assms(4) by blast
  then show ?thesis
  proof cases
    case 1
    then have "li_phase l c = Spawned" "l' = (set_phase c Starting l)\<lparr>li_wg := li_wg l + 1\<rparr>"
      using assms(1) by (simp_all split: if_splits)
    then show ?thesis
      by (intro wg_phase[OF assms(3,2), where c = c and p = Starting and n = "li_wg l + 1" and ds = "li_destroyed l"])
        (simp_all add: life_update dest)
  next
    case 2
    then have "li_phase l c = Starting" "l' = set_phase c (Failing err) l"
      using assms(1) by (simp_all split: if_splits)
    then show ?thesis
      by (intro wg_same_phase[OF assms(3,2), where c = c and p = "Failing err"]) (simp_all add: life_update)
  next
    case 3
    then have "li_phase l c = Starting" "l' = set_listeners c (replicate (listeners c) Serving) (set_phase c Waiting l)"
      using assms(1) by (simp_all split: if_splits)
    then show ?thesis
      by (intro wg_same_phase[OF assms(3,2), where c = c and p = Waiting]) (simp_all add: life_update)
  next
    case 4
    then obtain er where "li_phase l c = Failing er" "l' = set_phase c Leaving (l\<lparr>li_chan := li_chan l @ [Some er]\<rparr>)"
      using assms(1) by (cases "li_phase l c") (auto simp: send_def split: if_splits)
    then show ?thesis
      by (intro wg_same_phase[OF assms(3,2), where c = c and p = Leaving]) (simp_all add: life_update)
  next
    case 5
    then have "li_phase l c = Waiting" "l' = set_phase c (if c = MtlsAgent then Failing ctx_err else Leaving) l"
      using assms(1) by (simp_all split: if_splits)
    then show ?thesis
      by (intro wg_same_phase[OF assms(3,2), where c = c and p = "if c = MtlsAgent then Failing ctx_err else Leaving"])
        (simp_all add: life_update)
  next
    case 6
    then have ph: "li_phase l c = Leaving" and l': "l' = set_phase c Released (first_deferred c l)"
      using assms(1) by (simp_all split: if_splits)
    have "0 < li_wg l"
      using wg_pos[OF assms(3), of c] ph by simp
    then show ?thesis
      using ph unfolding l' by (cases "c = DebugServer"; intro wg_phase[OF assms(3,2), where c = c and p = Released and
          n = "li_wg l - (if c = DebugServer then 1 else 0)" and
          ds = "if c = DebugServer then li_destroyed l else (li_destroyed l)(c := True)"])
        (simp_all add: life_update dest)
  next
    case 7
    then have ph: "li_phase l c = Released" and l': "l' = set_phase c Ended (second_deferred c l)"
      using assms(1) by (simp_all split: if_splits)
    have "c \<noteq> DebugServer \<Longrightarrow> 0 < li_wg l"
      using wg_pos[OF assms(3), of c] ph by simp
    then show ?thesis
      using ph unfolding l' by (cases "c = DebugServer"; intro wg_phase[OF assms(3,2), where c = c and p = Ended and
          n = "li_wg l - (if c = DebugServer then 0 else 1)" and
          ds = "if c = DebugServer then (li_destroyed l)(c := True) else li_destroyed l"])
        (simp_all add: life_update dest)
  qed
qed

lemma wg_step:
  assumes "life_step serve e l = Some l'" and "\<not> exited l" and "wg_ok l"
  shows "wg_ok l'"
proof -
  have main: "li_main l \<noteq> MainExit True"
    using assms(2) by (auto simp: exited_def)
  note comp = wg_step_component[OF assms(1) main assms(3)]
  show ?thesis
  proof (cases e)
    case (ListenerReturns c i v)
    then have "l' = set_listeners c ((li_listeners l c)[i := Returned v]) l"
      using assms(1) by (simp split: if_splits)
    with main show ?thesis
      by (intro wg_frame[OF assms(3)]) (simp_all add: life_update)
  next
    case (ListenerSends c i)
    then obtain v where "l' = set_listeners c ((li_listeners l c)[i := Reported]) (l\<lparr>li_chan := li_chan l @ [v]\<rparr>)"
      using assms(1) by (cases "li_listeners l c ! i") (auto simp: send_def split: if_splits)
    with main show ?thesis
      by (intro wg_frame[OF assms(3)]) (simp_all add: life_update)
  next
    case Receive
    then obtain v vs where "li_main l = MainLoop" "li_chan l = v # vs"
      using assms(1) by (cases "li_chan l") (simp_all split: if_splits)
    with Receive assms(1) show ?thesis
      by (intro wg_frame[OF assms(3)]; cases v) auto
  qed (use assms comp in \<open>auto intro: wg_frame[OF assms(3)] split: if_splits\<close>)
qed

lemma wg_start: "wg_ok (run_services present)"
  by (simp add: wg_ok_def run_services_def total_def all_components_def)

lemma wg_reach: "life_reach serve present l \<Longrightarrow> wg_ok l"
  by (induction rule: life_reach.induct) (auto simp: wg_start life_next_Some intro: wg_step)

section \<open>The main loop\<close>

text \<open>The steps as equivalences, for inversion.\<close>

lemma step_iff:
  "life_step serve (Launch c) l = Some l' \<longleftrightarrow>
     li_phase l c = Spawned \<and> l' = (set_phase c Starting l)\<lparr>li_wg := li_wg l + 1\<rparr>"
  "life_step serve (StartFails c err) l = Some l' \<longleftrightarrow> li_phase l c = Starting \<and> l' = set_phase c (Failing err) l"
  "life_step serve (StartsServing c) l = Some l' \<longleftrightarrow>
     li_phase l c = Starting \<and> l' = set_listeners c (replicate (listeners c) Serving) (set_phase c Waiting l)"
  "life_step serve (ListenerReturns c i v) l = Some l' \<longleftrightarrow>
     i < length (li_listeners l c) \<and> li_listeners l c ! i = Serving \<and> serve (li_destroyed l c) v \<and>
     l' = set_listeners c ((li_listeners l c)[i := Returned v]) l"
  "life_step serve (ListenerSends c i) l = Some l' \<longleftrightarrow>
     i < length (li_listeners l c) \<and> (\<exists>v. li_listeners l c ! i = Returned v \<and> length (li_chan l) < li_cap l \<and>
       l' = set_listeners c ((li_listeners l c)[i := Reported]) (l\<lparr>li_chan := li_chan l @ [v]\<rparr>))"
  "life_step serve (SendsFailure c) l = Some l' \<longleftrightarrow>
     (\<exists>err. li_phase l c = Failing err \<and> length (li_chan l) < li_cap l \<and>
       l' = set_phase c Leaving (l\<lparr>li_chan := li_chan l @ [Some err]\<rparr>))"
  "life_step serve (SeesStop c) l = Some l' \<longleftrightarrow>
     li_phase l c = Waiting \<and> li_cancelled l \<and> l' = set_phase c (if c = MtlsAgent then Failing ctx_err else Leaving) l"
  "life_step serve (LeavesFirst c) l = Some l' \<longleftrightarrow> li_phase l c = Leaving \<and> l' = set_phase c Released (first_deferred c l)"
  "life_step serve (LeavesSecond c) l = Some l' \<longleftrightarrow> li_phase l c = Released \<and> l' = set_phase c Ended (second_deferred c l)"
  "life_step serve Signal l = Some l' \<longleftrightarrow> li_main l = MainLoop \<and> l' = l\<lparr>li_cancelled := True, li_main := MainWaiting\<rparr>"
  "life_step serve Receive l = Some l' \<longleftrightarrow> li_main l = MainLoop \<and>
     (\<exists>v vs. li_chan l = v # vs \<and> l' = (case v of
        Some e \<Rightarrow> l\<lparr>li_chan := vs, li_cancelled := True, li_main := MainWaiting\<rparr>
      | None \<Rightarrow> l\<lparr>li_chan := vs, li_main := MainStuck\<rparr>))"
  "life_step serve AllDone l = Some l' \<longleftrightarrow> li_main l = MainWaiting \<and> li_wg l = 0 \<and> l' = l\<lparr>li_main := MainExit True\<rparr>"
  "life_step serve Timeout l = Some l' \<longleftrightarrow> li_main l = MainWaiting \<and> l' = l\<lparr>li_main := MainExit False\<rparr>"
  "life_step serve (Panics c) l = Some l' \<longleftrightarrow> li_phase l c \<notin> {Absent, Spawned} \<and> l' = l\<lparr>li_main := MainPanic\<rparr>"
  by (auto simp: send_def split: if_splits listener.splits phase.splits list.splits option.splits)

declare life_step.simps [simp del]

text \<open>Before the signal nothing is cancelled, every listener's component waits, and no listener has returned nil.\<close>

definition comp_ok :: "bool \<Rightarrow> phase \<Rightarrow> listener list \<Rightarrow> bool" where
  "comp_ok cancelled p ls \<longleftrightarrow> (ls = [] \<or> p \<notin> {Absent, Spawned, Starting}) \<and>
     (cancelled \<or> (ls = [] \<or> p = Waiting) \<and> Returned None \<notin> set ls)"

definition stop_ok :: "life \<Rightarrow> bool" where
  "stop_ok l \<longleftrightarrow> (li_main l = MainLoop \<longrightarrow> \<not> li_cancelled l) \<and> li_main l \<noteq> MainStuck \<and>
     (\<not> li_cancelled l \<longrightarrow> None \<notin> set (li_chan l)) \<and>
     (\<forall>c. comp_ok (li_cancelled l) (li_phase l c) (li_listeners l c))"

lemma stop_ok_start: "stop_ok (run_services present)"
  by (simp add: stop_ok_def run_services_def comp_ok_def)

lemma deferred_frame [simp]:
  "li_main (first_deferred c l) = li_main l" "li_main (second_deferred c l) = li_main l"
  "li_cancelled (first_deferred c l) = li_cancelled l" "li_cancelled (second_deferred c l) = li_cancelled l"
  "li_chan (first_deferred c l) = li_chan l" "li_chan (second_deferred c l) = li_chan l"
  "li_cap (first_deferred c l) = li_cap l" "li_cap (second_deferred c l) = li_cap l"
  "li_phase (first_deferred c l) = li_phase l" "li_phase (second_deferred c l) = li_phase l"
  "li_listeners (first_deferred c l) = li_listeners l" "li_listeners (second_deferred c l) = li_listeners l"
  by (simp_all add: life_update)

declare first_deferred.simps [simp del] second_deferred.simps [simp del]

lemma stop_ok_upd:
  assumes "stop_ok l" and "comp_ok (li_cancelled l) p ls"
    and "li_phase l' = (li_phase l)(c := p)" and "li_listeners l' = (li_listeners l)(c := ls)"
    and "li_main l' = li_main l" "li_cancelled l' = li_cancelled l"
    and "\<not> li_cancelled l \<longrightarrow> None \<notin> set (li_chan l) \<longrightarrow> None \<notin> set (li_chan l')"
  shows "stop_ok l'"
  using assms by (simp add: stop_ok_def)

lemma stop_ok_comp: "stop_ok l \<Longrightarrow> comp_ok (li_cancelled l) (li_phase l c) (li_listeners l c)"
  by (simp add: stop_ok_def)

lemma comp_ok_moves:
  "comp_ok b Spawned ls \<Longrightarrow> comp_ok b Starting ls"
  "comp_ok b Starting ls \<Longrightarrow> comp_ok b (Failing e) ls"
  "comp_ok b Waiting (replicate n Serving)"
  "comp_ok b (Failing e) ls \<Longrightarrow> comp_ok b Leaving ls"
  "comp_ok b Leaving ls \<Longrightarrow> comp_ok b Released ls"
  "comp_ok b Released ls \<Longrightarrow> comp_ok b Ended ls"
  "p = Leaving \<or> p = Failing e \<Longrightarrow> comp_ok True p ls"
  by (auto simp: comp_ok_def)

lemma comp_ok_listener:
  assumes "comp_ok b p ls" and "i < length ls" and "b \<or> x \<noteq> Returned None"
  shows "comp_ok b p (ls[i := x])"
proof (cases b)
  case True
  with assms(1) show ?thesis by (simp add: comp_ok_def)
next
  case False
  have "Returned None \<notin> set (ls[i := x])"
    using False assms(1,3) set_update_subset_insert[of ls i x] unfolding comp_ok_def by blast
  then show ?thesis
    using assms(1) False by (simp add: comp_ok_def)
qed

lemma stop_ok_step:
  assumes "serve_law serve" and "life_step serve e l = Some l'" and "stop_ok l" and "wg_ok l"
  shows "stop_ok l'"
proof (cases e)
  case (Launch c)
  then have l': "li_phase l c = Spawned" "l' = (set_phase c Starting l)\<lparr>li_wg := li_wg l + 1\<rparr>"
    using assms(2) by (auto simp: step_iff)
  then have "comp_ok (li_cancelled l) Starting (li_listeners l c)"
    using stop_ok_comp[OF assms(3), of c] comp_ok_moves(1) by metis
  then show ?thesis
    by (rule stop_ok_upd[OF assms(3), where c = c]) (simp_all add: l'(2) life_update)
next
  case (StartFails c err)
  then have l': "li_phase l c = Starting" "l' = set_phase c (Failing err) l"
    using assms(2) by (auto simp: step_iff)
  then have "comp_ok (li_cancelled l) (Failing err) (li_listeners l c)"
    using stop_ok_comp[OF assms(3), of c] comp_ok_moves(2) by metis
  then show ?thesis
    by (rule stop_ok_upd[OF assms(3), where c = c]) (simp_all add: l'(2) life_update)
next
  case (StartsServing c)
  then have l': "l' = set_listeners c (replicate (listeners c) Serving) (set_phase c Waiting l)"
    using assms(2) by (auto simp: step_iff)
  show ?thesis
    by (rule stop_ok_upd[OF assms(3) comp_ok_moves(3), where c = c]) (simp_all add: l' life_update)
next
  case (SendsFailure c)
  then obtain err where c: "li_phase l c = Failing err" and l': "l' = set_phase c Leaving (l\<lparr>li_chan := li_chan l @ [Some err]\<rparr>)"
    using assms(2) by (auto simp: step_iff)
  have "comp_ok (li_cancelled l) Leaving (li_listeners l c)"
    using stop_ok_comp[OF assms(3), of c] c comp_ok_moves(4) by metis
  then show ?thesis
    by (rule stop_ok_upd[OF assms(3), where c = c]) (simp_all add: l' life_update)
next
  case (SeesStop c)
  then have l': "li_cancelled l" "l' = set_phase c (if c = MtlsAgent then Failing ctx_err else Leaving) l"
    using assms(2) by (auto simp: step_iff)
  have "comp_ok (li_cancelled l) (if c = MtlsAgent then Failing ctx_err else Leaving) (li_listeners l c)"
    using l'(1) by (simp add: comp_ok_def)
  then show ?thesis
    by (rule stop_ok_upd[OF assms(3), where c = c]) (simp_all add: l'(2) life_update)
next
  case (LeavesFirst c)
  then have l': "li_phase l c = Leaving" "l' = set_phase c Released (first_deferred c l)"
    using assms(2) by (auto simp: step_iff)
  then have "comp_ok (li_cancelled l) Released (li_listeners l c)"
    using stop_ok_comp[OF assms(3), of c] comp_ok_moves(5) by metis
  then show ?thesis
    by (rule stop_ok_upd[OF assms(3), where c = c]) (simp_all add: l'(2) set_phase_def)
next
  case (LeavesSecond c)
  then have l': "li_phase l c = Released" "l' = set_phase c Ended (second_deferred c l)"
    using assms(2) by (auto simp: step_iff)
  then have "comp_ok (li_cancelled l) Ended (li_listeners l c)"
    using stop_ok_comp[OF assms(3), of c] comp_ok_moves(6) by metis
  then show ?thesis
    by (rule stop_ok_upd[OF assms(3), where c = c]) (simp_all add: l'(2) set_phase_def)
next
  case (ListenerReturns c i v)
  then have g: "i < length (li_listeners l c)" "serve (li_destroyed l c) v"
    and l': "l' = set_listeners c ((li_listeners l c)[i := Returned v]) l"
    using assms(2) by (auto simp: step_iff)
  have "li_cancelled l \<or> v \<noteq> None"
  proof (rule ccontr)
    assume n: "\<not> (li_cancelled l \<or> v \<noteq> None)"
    have "li_listeners l c \<noteq> []"
      using g(1) by auto
    then have "li_phase l c = Waiting"
      using n stop_ok_comp[OF assms(3), of c] by (simp add: comp_ok_def)
    then have "\<not> li_destroyed l c"
      using assms(4) by (simp add: wg_ok_def)
    then show False
      using n g(2) assms(1) by (simp add: serve_law_def)
  qed
  then have "comp_ok (li_cancelled l) (li_phase l c) ((li_listeners l c)[i := Returned v])"
    by (intro comp_ok_listener[OF stop_ok_comp[OF assms(3)] g(1)]) auto
  then show ?thesis
    by (rule stop_ok_upd[OF assms(3), where c = c]) (simp_all add: l' life_update)
next
  case (ListenerSends c i)
  then obtain v where g: "i < length (li_listeners l c)" "li_listeners l c ! i = Returned v"
    and l': "l' = set_listeners c ((li_listeners l c)[i := Reported]) (l\<lparr>li_chan := li_chan l @ [v]\<rparr>)"
    using assms(2) by (auto simp: step_iff)
  have mem: "Returned v \<in> set (li_listeners l c)"
    using g nth_mem by metis
  then have "li_cancelled l \<or> v \<noteq> None"
    using stop_ok_comp[OF assms(3), of c] by (auto simp: comp_ok_def)
  moreover have "comp_ok (li_cancelled l) (li_phase l c) ((li_listeners l c)[i := Reported])"
    by (intro comp_ok_listener[OF stop_ok_comp[OF assms(3)] g(1)]) simp
  ultimately show ?thesis
    by (intro stop_ok_upd[OF assms(3), where c = c and p = "li_phase l c" and ls = "(li_listeners l c)[i := Reported]"])
      (simp_all add: l' life_update, blast)
next
  case Receive
  then obtain v vs where ch: "li_main l = MainLoop" "li_chan l = v # vs"
    and l': "l' = (case v of Some e \<Rightarrow> l\<lparr>li_chan := vs, li_cancelled := True, li_main := MainWaiting\<rparr>
      | None \<Rightarrow> l\<lparr>li_chan := vs, li_main := MainStuck\<rparr>)"
    using assms(2) by (auto simp: step_iff)
  then obtain er where "v = Some er"
    using assms(3) by (cases v) (auto simp: stop_ok_def)
  then show ?thesis
    using assms(3) by (simp add: l' stop_ok_def comp_ok_def)
next
  case Signal
  with assms(2,3) show ?thesis
    by (simp add: step_iff stop_ok_def comp_ok_def)
next
  case AllDone
  with assms(2,3) show ?thesis
    by (simp add: step_iff stop_ok_def)
next
  case Timeout
  with assms(2,3) show ?thesis
    by (simp add: step_iff stop_ok_def)
next
  case (Panics c)
  with assms(2,3) show ?thesis
    by (simp add: step_iff stop_ok_def)
qed

lemma stop_ok_reach:
  assumes "serve_law serve" and "life_reach serve present l"
  shows "stop_ok l"
  using assms(2)
proof (induction rule: life_reach.induct)
  case (step l e l')
  then show ?case
    using stop_ok_step[OF assms(1)] wg_reach by (auto simp: life_next_Some)
qed (rule stop_ok_start)

section \<open>The error channel\<close>

text \<open>What a component may still send: its share of the capacity before it starts, then its failure and its listeners' results.\<close>

fun share :: "component \<Rightarrow> nat" where
  "share DnsServer = 2"
| "share c = 1"

definition unreported :: "listener list \<Rightarrow> nat" where
  "unreported ls = length (filter (\<lambda>x. x \<noteq> Reported) ls)"

fun pending :: "component \<Rightarrow> phase \<Rightarrow> listener list \<Rightarrow> nat" where
  "pending c Absent ls = 0"
| "pending c Spawned ls = share c"
| "pending c Starting ls = share c"
| "pending c (Failing e) ls = 1 + unreported ls"
| "pending c p ls = unreported ls"

definition room_ok :: "life \<Rightarrow> bool" where
  "room_ok l \<longleftrightarrow> length (li_chan l) + total (\<lambda>c. pending c (li_phase l c) (li_listeners l c)) \<le> li_cap l \<and>
     (\<forall>c. li_listeners l c = [] \<or> li_phase l c \<notin> {Absent, Spawned, Starting}) \<and> li_phase l MtlsAgent = Absent"

lemma channel_capacity_total: "channel_capacity present = total (\<lambda>c. if present c then share c else 0)"
  by (simp add: channel_capacity_def total_def all_components_def)

lemma room_start: "\<not> present MtlsAgent \<Longrightarrow> room_ok (run_services present)"
proof -
  assume "\<not> present MtlsAgent"
  moreover have "pending c (if present c then Spawned else Absent) [] = (if present c then share c else 0)" for c
    by simp
  ultimately show ?thesis
    by (simp add: room_ok_def run_services_def channel_capacity_total)
qed

lemma unreported_Cons: "unreported (x # ls) = (if x = Reported then 0 else 1) + unreported ls"
  by (simp add: unreported_def)

lemma unreported_update:
  "i < length ls \<Longrightarrow> unreported (ls[i := x]) + (if ls ! i = Reported then 0 else 1) =
     unreported ls + (if x = Reported then 0 else 1)"
proof (induction ls arbitrary: i)
  case (Cons y ls)
  show ?case
  proof (cases i)
    case (Suc j)
    then show ?thesis
      using Cons.IH[of j] Cons.prems by (simp add: unreported_Cons)
  qed (simp add: unreported_Cons)
qed simp

lemma room_upd:
  assumes "room_ok l" and "c \<noteq> MtlsAgent" and "ls = [] \<or> p \<notin> {Absent, Spawned, Starting}"
    and "length (li_chan l') + pending c p ls \<le> length (li_chan l) + pending c (li_phase l c) (li_listeners l c)"
    and "li_phase l' = (li_phase l)(c := p)" and "li_listeners l' = (li_listeners l)(c := ls)" and "li_cap l' = li_cap l"
  shows "room_ok l'"
proof -
  let ?f = "\<lambda>d. pending d (li_phase l d) (li_listeners l d)"
  have "(\<lambda>d. pending d (li_phase l' d) (li_listeners l' d)) = ?f(c := pending c p ls)"
    by (auto simp: assms(5,6))
  moreover have "total (?f(c := pending c p ls)) + ?f c = total ?f + pending c p ls"
    by (rule total_upd)
  moreover have "length (li_chan l) + total ?f \<le> li_cap l"
    using assms(1) by (simp add: room_ok_def)
  ultimately have "length (li_chan l') + total (\<lambda>d. pending d (li_phase l' d) (li_listeners l' d)) \<le> li_cap l'"
    using assms(4,7) by simp
  then show ?thesis
    using assms(1-3,5,6) by (simp add: room_ok_def)
qed

lemma room_mtls: "room_ok l \<Longrightarrow> li_phase l c \<noteq> Absent \<Longrightarrow> c \<noteq> MtlsAgent"
  by (auto simp: room_ok_def)

lemma room_listeners: "room_ok l \<Longrightarrow> li_phase l c \<in> {Absent, Spawned, Starting} \<Longrightarrow> li_listeners l c = []"
  unfolding room_ok_def by blast

lemma room_frame:
  assumes "room_ok l" "li_phase l' = li_phase l" "li_listeners l' = li_listeners l" "li_cap l' = li_cap l"
    "length (li_chan l') \<le> length (li_chan l)"
  shows "room_ok l'"
  using assms by (simp add: room_ok_def)

lemma listeners_share: "c \<noteq> MtlsAgent \<Longrightarrow> listeners c \<le> share c"
  by (cases c) simp_all

lemma unreported_Serving [simp]: "unreported (replicate n Serving) = n" "unreported [] = 0"
  by (simp_all add: unreported_def)

lemma share_pos: "1 \<le> share c"
  by (cases c) simp_all

lemma room_step_component:
  assumes "life_step serve e l = Some l'" and "room_ok l"
    and "e \<in> {Launch c, StartFails c err, StartsServing c, SendsFailure c, SeesStop c, LeavesFirst c, LeavesSecond c}"
  shows "room_ok l'"
proof -
  note upd = room_upd[OF assms(2), where c = c and l' = l']
  consider "e = Launch c" | "e = StartFails c err" | "e = StartsServing c" | "e = SendsFailure c" | "e = SeesStop c" |
    "e = LeavesFirst c" | "e = LeavesSecond c"
    using assms(3) by blast
  then show ?thesis
  proof cases
    case 1
    then have l': "li_phase l c = Spawned" "l' = (set_phase c Starting l)\<lparr>li_wg := li_wg l + 1\<rparr>"
      using assms(1) by (auto simp: step_iff)
    show ?thesis
      by (rule upd[where p = Starting and ls = "li_listeners l c"])
        (use l' room_mtls[OF assms(2), of c] room_listeners[OF assms(2), of c] in \<open>simp_all add: life_update fun_upd_idem\<close>)
  next
    case 2
    then have l': "li_phase l c = Starting" "l' = set_phase c (Failing err) l"
      using assms(1) by (auto simp: step_iff)
    show ?thesis
      by (rule upd[where p = "Failing err" and ls = "li_listeners l c"])
        (use l' share_pos[of c] room_mtls[OF assms(2), of c] room_listeners[OF assms(2), of c] in \<open>simp_all add: life_update fun_upd_idem\<close>)
  next
    case 3
    then have l': "li_phase l c = Starting" "l' = set_listeners c (replicate (listeners c) Serving) (set_phase c Waiting l)"
      using assms(1) by (auto simp: step_iff)
    show ?thesis
      by (rule upd[where p = Waiting and ls = "replicate (listeners c) Serving"])
        (use l' listeners_share[of c] room_mtls[OF assms(2), of c] in \<open>simp_all add: life_update\<close>)
  next
    case 4
    then obtain er where l': "li_phase l c = Failing er" "l' = set_phase c Leaving (l\<lparr>li_chan := li_chan l @ [Some er]\<rparr>)"
      using assms(1) by (auto simp: step_iff)
    show ?thesis
      by (rule upd[where p = Leaving and ls = "li_listeners l c"])
        (use l' room_mtls[OF assms(2), of c] in \<open>simp_all add: life_update\<close>)
  next
    case 5
    then have ph: "li_phase l c = Waiting" and l': "l' = set_phase c (if c = MtlsAgent then Failing ctx_err else Leaving) l"
      using assms(1) by (auto simp: step_iff)
    have "c \<noteq> MtlsAgent"
      using room_mtls[OF assms(2), of c] ph by simp
    then show ?thesis
      by (intro upd[where p = Leaving and ls = "li_listeners l c"]) (use l' ph in \<open>simp_all add: life_update\<close>)
  next
    case 6
    then have l': "li_phase l c = Leaving" "l' = set_phase c Released (first_deferred c l)"
      using assms(1) by (auto simp: step_iff)
    show ?thesis
      by (rule upd[where p = Released and ls = "li_listeners l c"])
        (use l' room_mtls[OF assms(2), of c] in \<open>simp_all add: set_phase_def\<close>)
  next
    case 7
    then have l': "li_phase l c = Released" "l' = set_phase c Ended (second_deferred c l)"
      using assms(1) by (auto simp: step_iff)
    show ?thesis
      by (rule upd[where p = Ended and ls = "li_listeners l c"])
        (use l' room_mtls[OF assms(2), of c] in \<open>simp_all add: set_phase_def\<close>)
  qed
qed

lemma room_step_listener:
  assumes "room_ok l" and "i < length (li_listeners l c)" and "li_listeners l c ! i \<noteq> Reported"
    and "length (li_chan l') = length (li_chan l) + (if x = Reported then 1 else 0)"
    and "li_phase l' = li_phase l" "li_listeners l' = (li_listeners l)(c := (li_listeners l c)[i := x])" "li_cap l' = li_cap l"
  shows "room_ok l'"
proof -
  have ph: "li_phase l c \<notin> {Absent, Spawned, Starting}"
    using room_listeners[OF assms(1), of c] assms(2) by fastforce
  then have "pending c (li_phase l c) ((li_listeners l c)[i := x]) + (if x = Reported then 1 else 0) =
      pending c (li_phase l c) (li_listeners l c)"
    using unreported_update[OF assms(2), of x] assms(3) by (cases "li_phase l c") (auto split: if_splits)
  then show ?thesis
    using assms ph room_mtls[OF assms(1), of c]
    by (intro room_upd[OF assms(1), where c = c and p = "li_phase l c" and ls = "(li_listeners l c)[i := x]"]) auto
qed

lemma room_step:
  assumes "life_step serve e l = Some l'" and "room_ok l"
  shows "room_ok l'"
proof -
  note comp = room_step_component[OF assms]
  show ?thesis
  proof (cases e)
    case (ListenerReturns c i v)
    then show ?thesis
      using assms(1) by (intro room_step_listener[OF assms(2), of i c l' "Returned v"]) (auto simp: step_iff life_update)
  next
    case (ListenerSends c i)
    then show ?thesis
      using assms(1) by (intro room_step_listener[OF assms(2), of i c l' Reported]) (auto simp: step_iff life_update)
  next
    case Receive
    then obtain v vs where "li_chan l = v # vs" "l' = (case v of Some e \<Rightarrow> l\<lparr>li_chan := vs, li_cancelled := True, li_main := MainWaiting\<rparr>
        | None \<Rightarrow> l\<lparr>li_chan := vs, li_main := MainStuck\<rparr>)"
      using assms(1) by (auto simp: step_iff)
    then show ?thesis
      by (intro room_frame[OF assms(2)]; cases v) simp_all
  next
    case Signal
    then show ?thesis
      using assms(1) by (intro room_frame[OF assms(2)]) (auto simp: step_iff)
  next
    case AllDone
    then show ?thesis
      using assms(1) by (intro room_frame[OF assms(2)]) (auto simp: step_iff)
  next
    case Timeout
    then show ?thesis
      using assms(1) by (intro room_frame[OF assms(2)]) (auto simp: step_iff)
  next
    case (Panics d)
    then show ?thesis
      using assms(1) by (intro room_frame[OF assms(2)]) (auto simp: step_iff)
  qed (use comp in blast)+
qed

lemma room_reach: "life_reach serve present l \<Longrightarrow> \<not> present MtlsAgent \<Longrightarrow> room_ok l"
  by (induction rule: life_reach.induct) (auto simp: room_start life_next_Some intro: room_step)

section \<open>Properties\<close>

text \<open>
  C30. When the process ends gracefully, every component whose goroutine had got as far as \<open>wg.Add\<close> has been
  destroyed, with the exception of the debug server, which may still be about to shut down.
\<close>

theorem graceful_exit_releases:
  assumes "life_reach serve present l" and "li_main l = MainExit True"
  shows "li_phase l c \<in> {Absent, Spawned} \<or> li_phase l c = Ended \<and> li_destroyed l c \<or>
    c = DebugServer \<and> li_phase l c = Released"
proof -
  have ok: "wg_ok l"
    using wg_reach[OF assms(1)] .
  then have "total (\<lambda>c. counted c (li_phase l c)) = 0" "li_destroyed l c = is_destroyed c (li_phase l c)"
    using assms(2) by (simp_all add: wg_ok_def)
  moreover from this(1) have "counted c (li_phase l c) = 0"
    using total_ge[of "\<lambda>c. counted c (li_phase l c)" c] by simp
  ultimately show ?thesis
    by (cases "li_phase l c") (auto split: if_splits)
qed

definition any_serve :: "bool \<Rightarrow> go_error option \<Rightarrow> bool" where
  "any_serve destroyed v \<longleftrightarrow> destroyed \<or> v \<noteq> None"

lemma any_serve_law: "serve_law any_serve"
  by (simp add: serve_law_def any_serve_def)

definition only :: "component list \<Rightarrow> component \<Rightarrow> bool" where
  "only cs c \<longleftrightarrow> c \<in> set cs"

lemmas life_eval = life_next_Some[THEN iffD2] life_next_def run_services_def channel_capacity_def send_def set_phase_def
  set_listeners_def wg_done_def destroy_def first_deferred.simps second_deferred.simps life_step.simps only_def

text \<open>The witness: the rate limit server starts, the signal comes, it shuts down and the process ends.\<close>

definition clean_run :: "life_event list" where
  "clean_run = [Launch RateLimitServer, StartsServing RateLimitServer, Signal, SeesStop RateLimitServer,
     LeavesFirst RateLimitServer, LeavesSecond RateLimitServer, AllDone]"

theorem graceful_exit_releases_witness:
  "\<exists>l. life_run any_serve clean_run (run_services (only [RateLimitServer])) = Some l \<and>
     li_main l = MainExit True \<and> li_destroyed l RateLimitServer"
proof -
  have "\<exists>l. life_run any_serve clean_run (run_services (only [RateLimitServer])) = Some l \<and> li_main l = MainExit True \<and>
      li_phase l RateLimitServer = Ended"
    by (simp add: clean_run_def life_eval)
  then obtain l where l: "life_run any_serve clean_run (run_services (only [RateLimitServer])) = Some l"
    "li_main l = MainExit True" "li_phase l RateLimitServer = Ended" by blast
  have "life_reach any_serve (only [RateLimitServer]) l"
    using life_run_reach[OF l(1) life_reach.start] .
  from graceful_exit_releases[OF this l(2), of RateLimitServer] l show ?thesis
    by auto
qed

text \<open>
  The main goroutine is never left waiting for a signal that cannot come: with servers that return nil only
  after their shutdown, no nil reaches the main loop, where it would panic and be recovered without cancelling.
\<close>

theorem main_never_stuck:
  assumes "serve_law serve" and "life_reach serve present l"
  shows "li_main l \<noteq> MainStuck"
  using stop_ok_reach[OF assms] by (simp add: stop_ok_def)

theorem main_never_stuck_witness:
  "\<exists>l. life_run any_serve clean_run (run_services (only [RateLimitServer])) = Some l \<and> li_main l \<noteq> MainStuck"
proof -
  have "\<exists>l. life_run any_serve clean_run (run_services (only [RateLimitServer])) = Some l"
    by (simp add: clean_run_def life_eval)
  then obtain l where l: "life_run any_serve clean_run (run_services (only [RateLimitServer])) = Some l" ..
  then show ?thesis
    using main_never_stuck[OF any_serve_law life_run_reach[OF l life_reach.start]] by blast
qed

text \<open>
  C31. Without the mTLS agent the capacity of the error channel is enough: whoever has something to send finds room, so
  no \<open>Run\<close> and no listener blocks, although the main loop reads at most one value.
\<close>

theorem senders_find_room:
  assumes "life_reach serve present l" and "\<not> present MtlsAgent"
    and "(\<exists>e. li_phase l c = Failing e) \<or> (\<exists>v. Returned v \<in> set (li_listeners l c))"
  shows "length (li_chan l) < li_cap l"
proof -
  have room: "room_ok l"
    using room_reach[OF assms(1,2)] .
  let ?f = "\<lambda>c. pending c (li_phase l c) (li_listeners l c)"
  have "1 \<le> ?f c"
    using assms(3)
  proof
    assume "\<exists>v. Returned v \<in> set (li_listeners l c)"
    then obtain v where v: "Returned v \<in> set (li_listeners l c)" ..
    then have "Returned v \<in> set (filter (\<lambda>x. x \<noteq> Reported) (li_listeners l c))"
      by simp
    then have "1 \<le> unreported (li_listeners l c)"
      unfolding unreported_def by (metis One_nat_def Suc_leI length_pos_if_in_set)
    moreover have "li_phase l c \<notin> {Absent, Spawned, Starting}"
      using v room_listeners[OF room, of c] by fastforce
    ultimately show ?thesis
      by (cases "li_phase l c") auto
  qed auto
  then show ?thesis
    using total_ge[of ?f c] room by (simp add: room_ok_def)
qed

theorem senders_find_room_witness:
  "\<exists>l. life_run any_serve [Launch MetricsServer, StartFails MetricsServer ctx_err] (run_services (only [MetricsServer])) = Some l \<and>
     li_phase l MetricsServer = Failing ctx_err \<and> length (li_chan l) < li_cap l"
proof -
  let ?es = "[Launch MetricsServer, StartFails MetricsServer ctx_err]"
  have "\<exists>l. life_run any_serve ?es (run_services (only [MetricsServer])) = Some l \<and> li_phase l MetricsServer = Failing ctx_err"
    by (simp add: life_eval)
  then obtain l where l: "life_run any_serve ?es (run_services (only [MetricsServer])) = Some l"
    "li_phase l MetricsServer = Failing ctx_err" by blast
  have "\<not> only [MetricsServer] MtlsAgent"
    by (simp add: only_def)
  then show ?thesis
    using senders_find_room[OF life_run_reach[OF l(1) life_reach.start]] l by blast
qed

text \<open>A listener that has something to send to the full channel after the main loop has ended.\<close>

definition blocked :: "life \<Rightarrow> component \<Rightarrow> nat \<Rightarrow> go_error option \<Rightarrow> bool" where
  "blocked l c i v \<longleftrightarrow> li_main l \<noteq> MainLoop \<and> li_cap l \<le> length (li_chan l) \<and> i < length (li_listeners l c) \<and>
     li_listeners l c ! i = Returned v \<and> li_phase l c \<notin> {Absent, Spawned, Starting}"

lemma blocked_keep:
  assumes "blocked l c i v" and "li_main l' \<noteq> MainLoop" and "li_cap l' = li_cap l" and "li_chan l' = li_chan l"
    and "li_listeners l' c = li_listeners l c" and "li_phase l' c \<notin> {Absent, Spawned, Starting}"
  shows "blocked l' c i v"
  using assms by (simp add: blocked_def)

lemma blocked_step:
  assumes "life_step serve e l = Some l'" and "blocked l c i v"
  shows "blocked l' c i v"
proof -
  have b: "li_main l \<noteq> MainLoop" "\<not> length (li_chan l) < li_cap l" "li_phase l c \<notin> {Absent, Spawned, Starting}"
    using assms(2) by (auto simp: blocked_def)
  show ?thesis
  proof (cases e)
    case (Launch d)
    then have "li_phase l d = Spawned" "l' = (set_phase d Starting l)\<lparr>li_wg := li_wg l + 1\<rparr>"
      using assms(1) by (auto simp: step_iff)
    with b show ?thesis
      by (intro blocked_keep[OF assms(2)]) (auto simp: life_update)
  next
    case (StartFails d err)
    then have "l' = set_phase d (Failing err) l"
      using assms(1) by (auto simp: step_iff)
    with b show ?thesis
      by (intro blocked_keep[OF assms(2)]) (auto simp: life_update)
  next
    case (StartsServing d)
    then have "li_phase l d = Starting" "l' = set_listeners d (replicate (listeners d) Serving) (set_phase d Waiting l)"
      using assms(1) by (auto simp: step_iff)
    with b show ?thesis
      by (intro blocked_keep[OF assms(2)]) (auto simp: life_update)
  next
    case (ListenerReturns d j w)
    then have g: "li_listeners l d ! j = Serving" and l': "l' = set_listeners d ((li_listeners l d)[j := Returned w]) l"
      using assms(1) by (auto simp: step_iff)
    have neq: "j \<noteq> i" if "c = d"
      using g assms(2) that by (auto simp: blocked_def)
    have "(li_listeners l' c) ! i = li_listeners l c ! i" "length (li_listeners l' c) = length (li_listeners l c)"
      using neq by (auto simp: l' life_update)
    then show ?thesis
      using assms(2) by (simp add: blocked_def l' life_update)
  next
    case (ListenerSends d j)
    then show ?thesis
      using assms(1) b(2) by (auto simp: step_iff)
  next
    case (SendsFailure d)
    then show ?thesis
      using assms(1) b(2) by (auto simp: step_iff)
  next
    case (SeesStop d)
    then have "l' = set_phase d (if d = MtlsAgent then Failing ctx_err else Leaving) l"
      using assms(1) by (auto simp: step_iff)
    with b show ?thesis
      by (intro blocked_keep[OF assms(2)]) (auto simp: life_update)
  next
    case (LeavesFirst d)
    then have "l' = set_phase d Released (first_deferred d l)"
      using assms(1) by (auto simp: step_iff)
    with b show ?thesis
      by (intro blocked_keep[OF assms(2)]) (auto simp: set_phase_def)
  next
    case (LeavesSecond d)
    then have "l' = set_phase d Ended (second_deferred d l)"
      using assms(1) by (auto simp: step_iff)
    with b show ?thesis
      by (intro blocked_keep[OF assms(2)]) (auto simp: set_phase_def)
  next
    case Signal
    then show ?thesis
      using assms(1) b(1) by (simp add: step_iff)
  next
    case Receive
    then show ?thesis
      using assms(1) b(1) by (simp add: step_iff)
  next
    case AllDone
    then have "l' = l\<lparr>li_main := MainExit True\<rparr>"
      using assms(1) by (simp add: step_iff)
    with b show ?thesis
      by (intro blocked_keep[OF assms(2)]) simp_all
  next
    case Timeout
    then have "l' = l\<lparr>li_main := MainExit False\<rparr>"
      using assms(1) by (simp add: step_iff)
    with b show ?thesis
      by (intro blocked_keep[OF assms(2)]) simp_all
  next
    case (Panics d)
    then have "l' = l\<lparr>li_main := MainPanic\<rparr>"
      using assms(1) by (simp add: step_iff)
    with b show ?thesis
      by (intro blocked_keep[OF assms(2)]) simp_all
  qed
qed

text \<open>
  C32. A listener blocked on the full channel after the main loop has ended stays blocked in every continuation. With the mTLS
  agent this happens: it counts once in the capacity but sends twice, the context's error of its rotator and
  what its gRPC server returns.
\<close>

theorem blocked_listener_stays:
  assumes "life_run serve es l = Some l'" and "blocked l c i v"
  shows "blocked l' c i v"
  using assms
proof (induction es arbitrary: l)
  case (Cons e es)
  then show ?case
    by (auto simp: life_next_Some split: option.splits intro: blocked_step)
qed simp

text \<open>The witness: a stop by a signal with the DNS server and the mTLS agent.\<close>

definition mtls_stop_run :: "life_event list" where
  "mtls_stop_run = [Launch DnsServer, StartsServing DnsServer, Launch MtlsAgent, StartsServing MtlsAgent, Signal,
     SeesStop DnsServer, LeavesFirst DnsServer, ListenerReturns DnsServer 0 None, ListenerReturns DnsServer 1 None,
     ListenerSends DnsServer 0, ListenerSends DnsServer 1, SeesStop MtlsAgent, SendsFailure MtlsAgent,
     LeavesFirst MtlsAgent, ListenerReturns MtlsAgent 0 None]"

theorem blocked_listener_stays_witness:
  "\<exists>l l'. life_run any_serve mtls_stop_run (run_services (only [DnsServer, MtlsAgent])) = Some l \<and>
     life_run any_serve [LeavesSecond DnsServer, LeavesSecond MtlsAgent, AllDone] l = Some l' \<and> blocked l' MtlsAgent 0 None"
proof -
  have "\<exists>l l'. life_run any_serve mtls_stop_run (run_services (only [DnsServer, MtlsAgent])) = Some l \<and>
     life_run any_serve [LeavesSecond DnsServer, LeavesSecond MtlsAgent, AllDone] l = Some l' \<and> blocked l MtlsAgent 0 None"
    by (simp add: mtls_stop_run_def life_eval any_serve_def blocked_def numeral_eq_Suc)
  then show ?thesis
    using blocked_listener_stays by blast
qed

text \<open>
  The wait group is raised inside the goroutines: a signal that comes before they run ends the process as graceful while
  every component is still to be started.
\<close>

theorem exit_before_start:
  "\<exists>l. life_run serve [Signal, AllDone] (run_services present) = Some l \<and> li_main l = MainExit True \<and>
     (\<forall>c. li_phase l c = (if present c then Spawned else Absent))"
  by (simp add: life_eval)

text \<open>And the debug server is counted out of the wait group before it is shut down.\<close>

lemma debug_server_outlives:
  "\<exists>l. life_run any_serve [Launch DebugServer, StartsServing DebugServer, Signal, SeesStop DebugServer,
     LeavesFirst DebugServer, AllDone] (run_services (only [DebugServer])) = Some l \<and>
     li_main l = MainExit True \<and> \<not> li_destroyed l DebugServer"
  by (simp add: life_eval)

end
