(* ===== verification/Bootstrap.thy ===== *)
theory Bootstrap
  imports Metrics Mtls Rls Lifecycle
begin

text \<open>
  The start of the process (\<open>src/internal/bootstrap\<close>, \<open>src/internal/debugger\<close>): the agent made from the configuration,
  the debug server, and what \<open>Start\<close> does with the outcome. Everything outside the program is in one record.
\<close>

section \<open>The debug server\<close>

text \<open>The patterns registered with the mux; \<open>HandleFunc\<close> panics on an empty or a repeated pattern.\<close>

record debug_server =
  dg_bind :: string
  dg_port :: "32 word"
  dg_patterns :: "string list"

definition new_debug_server :: "string \<Rightarrow> 32 word \<Rightarrow> debug_server" where
  "new_debug_server bind port = \<lparr>dg_bind = bind, dg_port = port, dg_patterns = []\<rparr>"

definition handle_func :: "string \<Rightarrow> debug_server \<Rightarrow> debug_server go" where
  "handle_func pattern s =
     (if pattern = [] then Panic (ExplicitPanic ''http: invalid pattern'')
      else if pattern \<in> set (dg_patterns s) then Panic (ExplicitPanic ''http: multiple registrations'')
      else Ret (s\<lparr>dg_patterns := dg_patterns s @ [pattern]\<rparr>))"

fun register_debug_handler :: "string list \<Rightarrow> debug_server \<Rightarrow> debug_server go" where
  "register_debug_handler [] s = Ret s"
| "register_debug_handler (path # paths) s =
     (if length path = 0 then register_debug_handler paths s
      else go_bind (handle_func path s) (register_debug_handler paths))"

definition health_patterns :: "string list" where
  "health_patterns = [''/sidecar/health/readiness'', ''/sidecar/health/liveness'']"

definition pprof_patterns :: "string list" where
  "pprof_patterns = [''/debug/pprof/'', ''/debug/pprof/cmdline'', ''/debug/pprof/profile'', ''/debug/pprof/symbol'',
     ''/debug/pprof/trace'']"

fun handle_funcs :: "string list \<Rightarrow> debug_server \<Rightarrow> debug_server go" where
  "handle_funcs [] s = Ret s"
| "handle_funcs (p # ps) s = go_bind (handle_func p s) (handle_funcs ps)"

text \<open>\<open>Run\<close> up to \<open>Serve\<close>: the error it sends when it cannot listen, else the server with its own patterns.\<close>

definition debug_run :: "go_error option \<Rightarrow> debug_server \<Rightarrow> (go_error + debug_server) go" where
  "debug_run listen_error s =
     (case listen_error of
        Some err \<Rightarrow> Ret (Inl err)
      | None \<Rightarrow> go_bind (handle_funcs (health_patterns @ pprof_patterns) s) (\<lambda>s. Ret (Inr s)))"

text \<open>\<open>Destroy\<close>, once: a graceful shutdown, and a forced close when that fails with another error than "server closed".\<close>

datatype http_event = ShutdownHttp | CloseHttp

definition err_server_closed :: go_error where
  "err_server_closed = LibError ''http: Server closed''"

definition debug_destroy :: "go_error option \<Rightarrow> bool \<Rightarrow> http_event list \<times> bool" where
  "debug_destroy shutdown_error destroyed =
     (if destroyed then ([], True)
      else (case shutdown_error of
              None \<Rightarrow> ([ShutdownHttp], True)
            | Some err \<Rightarrow> ([ShutdownHttp] @ (if err \<noteq> err_server_closed then [CloseHttp] else []), True)))"

text \<open>\<open>Debugger\<close>: both plugins give no handlers.\<close>

definition plugin_debugger :: "string \<Rightarrow> string list" where
  "plugin_debugger p = []"

definition server_debugger :: "server \<Rightarrow> string list" where
  "server_debugger svr = concat (map plugin_debugger (sv_resolvers svr))"

definition init_debug_server :: "sidecar_config \<Rightarrow> server option \<Rightarrow> debug_server option go" where
  "init_debug_server s dns_server =
     (case dns_server of
        None \<Rightarrow> Ret None
      | Some svr \<Rightarrow>
          if \<not> is_debug_enabled s then Ret None
          else (case sd_debugger s of
                  None \<Rightarrow> Panic NilDereference
                | Some d \<Rightarrow>
                    go_bind (register_debug_handler (server_debugger svr) (new_debug_server (sd_bind s) (db_port d)))
                      (\<lambda>g. Ret (Some g))))"

section \<open>The agent\<close>

text \<open>The zero value \<open>mtls.Option{}\<close> with the address of the CA.\<close>

definition mtls_option_of :: "string \<Rightarrow> mtls_option" where
  "mtls_option_of ca_server = \<lparr>op_network = [], op_address = [], op_poll_delay = 0, op_rotate_period = 0,
     op_retry_delay = 0, op_namespace = [], op_service_account = [], op_ca_server = ca_server, op_key_bits = 0, op_ttl = 0\<rparr>"

record 'ctx init_world =
  iw_env :: env
  iw_local_type :: string
  iw_decode :: "string \<Rightarrow> sidecar_config \<Rightarrow> go_error + sidecar_config"
  iw_file :: "go_error + string option"
  iw_log_env :: log_env
  iw_new_cores :: "zap_plan \<Rightarrow> log_core list"
  iw_new_context :: "sdk_setting list \<Rightarrow> go_error + 'ctx"
  iw_new_consumer :: "'ctx \<Rightarrow> consumer_api"
  iw_resolv_is_file :: bool
  iw_resolv_conf :: "go_error + client_config"
  iw_mtls :: mtls_world
  iw_mkdir :: "string \<Rightarrow> go_error option"
  iw_parse_scheme :: "string \<Rightarrow> go_error + string"
  iw_token_file :: "string \<times> go_error option"
  iw_root_ca_file :: "go_error + string"
  iw_system_pool :: "go_error option"

text \<open>The global state of the process: the scopes of the logger, the SDK context, the plugins.\<close>

record 'ctx process =
  pr_scopes :: scope_store
  pr_context :: "'ctx option"
  pr_plugins :: plugin_store

record agent =
  ba_dns :: "server \<times> proxy option"
  ba_debug :: "debug_server option"
  ba_metrics :: "metrics_server option"
  ba_rls :: "rls_server option"
  ba_mtls :: "mtls_agent option"

definition init_metrics_server :: "sidecar_config \<Rightarrow> metrics_server option" where
  "init_metrics_server s =
     map_option (\<lambda>(namespace, port). \<lparr>mxs_port = port, mxs_namespace = namespace, mxs_cluster_url = []\<rparr>) (init_mesh_metrics s)"

definition init_rls_server :: "sidecar_config \<Rightarrow> rls_server option" where
  "init_rls_server s = Option.bind (init_mesh_ratelimit s) (\<lambda>conf. new_rls (sd_namespace s) (Some conf))"

definition init_mtls_agent :: "'ctx init_world \<Rightarrow> sidecar_config \<Rightarrow> go_error + mtls_agent option" where
  "init_mtls_agent W s =
     (case init_mesh_mtls s of
        None \<Rightarrow> Inr None
      | Some ca_server \<Rightarrow>
          (case new_agent (iw_mtls W) (iw_mkdir W) (iw_parse_scheme W) (iw_token_file W) (iw_root_ca_file W)
                  (iw_system_pool W) (mtls_option_of ca_server) of
             Inl err \<Rightarrow> Inl err
           | Inr a \<Rightarrow> Inr (Some a)))"

text \<open>\<open>initAgent\<close>, in three parts: the services, the DNS server before them, and configuration, logger and SDK context first.\<close>

definition init_services ::
  "'ctx init_world \<Rightarrow> sidecar_config \<Rightarrow> server \<times> proxy option \<Rightarrow> (go_error + agent) go" where
  "init_services W s dns =
     go_bind (init_debug_server s (Some (fst dns))) (\<lambda>debug.
       Ret (case init_mtls_agent W s of
              Inl err \<Rightarrow> Inl err
            | Inr mtls \<Rightarrow> Inr \<lparr>ba_dns = dns, ba_debug = debug, ba_metrics = init_metrics_server s,
                ba_rls = init_rls_server s, ba_mtls = mtls\<rparr>))"

definition init_dns_and_services ::
  "'ctx init_world \<Rightarrow> sidecar_config \<Rightarrow> 'ctx process \<Rightarrow> ((go_error + agent) \<times> 'ctx process) go" where
  "init_dns_and_services W s P =
     go_bind (init_dns_resolver (iw_resolv_is_file W) (iw_resolv_conf W)
                (get_consumer_api (iw_new_consumer W) (pr_context P)) (pr_plugins P) s)
       (\<lambda>(dns, store, destroyed).
          let P = P\<lparr>pr_plugins := store\<rparr> in
          (case dns of
             Inl err \<Rightarrow> Ret (Inl err, P)
           | Inr svr \<Rightarrow> go_bind (init_services W s svr) (\<lambda>r. Ret (r, P))))"

definition init_with_config ::
  "'ctx init_world \<Rightarrow> sidecar_config \<Rightarrow> 'ctx process \<Rightarrow> ((go_error + agent) \<times> 'ctx process) go" where
  "init_with_config W s P =
     (case sd_logger s of
        None \<Rightarrow> Panic NilDereference
      | Some options \<Rightarrow>
          let r = configure (iw_log_env W) (iw_new_cores W) options (pr_scopes P);
              P = P\<lparr>pr_scopes := lr_scopes r\<rparr> in
          (case lr_error r of
             Some err \<Rightarrow> Ret (Inl err, P)
           | None \<Rightarrow>
               go_bind (polaris_api_conf s) (\<lambda>conf.
                 let (ctx, err) = init_polaris_context (iw_new_context W) conf (pr_context P);
                     P = P\<lparr>pr_context := ctx\<rparr> in
                 (case err of
                    Some e \<Rightarrow> Ret (Inl e, P)
                  | None \<Rightarrow> init_dns_and_services W s P))))"

definition init_agent ::
  "'ctx init_world \<Rightarrow> boot_config \<Rightarrow> 'ctx process \<Rightarrow> ((go_error + agent) \<times> 'ctx process) go" where
  "init_agent W boot P =
     go_bind (init_config (iw_env W) (iw_local_type W) (iw_decode W) (iw_file W) boot) (\<lambda>r.
       (case r of
          Inl err \<Rightarrow> Ret (Inl err, P)
        | Inr s \<Rightarrow> init_with_config W s P))"

text \<open>Which components the agent has, and \<open>Start\<close>: an error ends the process with code \<open>-1\<close>, a panic is only logged.\<close>

definition agent_present :: "agent \<Rightarrow> component \<Rightarrow> bool" where
  "agent_present a c =
     (case c of
        DebugServer \<Rightarrow> ba_debug a \<noteq> None
      | DnsServer \<Rightarrow> True
      | MtlsAgent \<Rightarrow> ba_mtls a \<noteq> None
      | MetricsServer \<Rightarrow> ba_metrics a \<noteq> None
      | RateLimitServer \<Rightarrow> ba_rls a \<noteq> None)"

datatype start_outcome = ExitCode int | PanicLogged go_panic | Services life

definition start_process :: "'ctx init_world \<Rightarrow> boot_config \<Rightarrow> 'ctx process \<Rightarrow> start_outcome" where
  "start_process W boot P =
     (case init_agent W boot P of
        Panic p \<Rightarrow> PanicLogged p
      | Ret (Inl err, P') \<Rightarrow> ExitCode (- 1)
      | Ret (Inr a, P') \<Rightarrow> Services (run_services (agent_present a)))"

section \<open>Lemmas\<close>

lemma server_debugger_Nil [simp]: "server_debugger svr = []"
  by (simp add: server_debugger_def plugin_debugger_def)

lemma init_debug_server_Some:
  "init_debug_server s (Some svr) = Ret debug \<Longrightarrow>
     debug = (if is_debug_enabled s then Some (new_debug_server (sd_bind s) (db_port (the (sd_debugger s)))) else None)"
  by (cases "sd_debugger s") (auto simp: init_debug_server_def is_debug_enabled_def split: if_splits)

lemma init_metrics_server_iff: "init_metrics_server s \<noteq> None \<longleftrightarrow> is_mesh_metrics_enabled s"
  by (auto simp: init_metrics_server_def init_mesh_metrics_def is_mesh_metrics_enabled_def split: option.splits)

lemma init_mesh_ratelimit_iff: "init_mesh_ratelimit s \<noteq> None \<longleftrightarrow> is_mesh_ratelimit_enabled s"
  by (cases "sd_mesh s"; cases "me_rate_limit (the (sd_mesh s))")
    (auto simp: init_mesh_ratelimit_def is_mesh_ratelimit_enabled_def Let_def)

lemma init_rls_server_iff: "init_rls_server s \<noteq> None \<longleftrightarrow> is_mesh_ratelimit_enabled s"
  using init_mesh_ratelimit_iff[of s] by (cases "init_mesh_ratelimit s") (auto simp: init_rls_server_def new_rls_def)

lemma init_mesh_mtls_iff: "init_mesh_mtls s \<noteq> None \<longleftrightarrow> is_mesh_mtls_enabled s"
  by (cases "sd_mesh s"; cases "me_mtls (the (sd_mesh s))") (auto simp: init_mesh_mtls_def is_mesh_mtls_enabled_def)

lemma init_mtls_agent_iff: "init_mtls_agent W s = Inr m \<Longrightarrow> m \<noteq> None \<longleftrightarrow> is_mesh_mtls_enabled s"
  using init_mesh_mtls_iff[of s] by (cases "init_mesh_mtls s") (auto simp: init_mtls_agent_def split: sum.splits)

text \<open>The stages of a successful start, one at a time.\<close>

lemma init_services_ok:
  assumes "init_services W s dns = Ret (Inr a)"
  shows "ba_debug a = (if is_debug_enabled s then Some (new_debug_server (sd_bind s) (db_port (the (sd_debugger s)))) else None) \<and>
    ba_metrics a = init_metrics_server s \<and> ba_rls a = init_rls_server s \<and> init_mtls_agent W s = Inr (ba_mtls a)"
proof -
  obtain debug where d: "init_debug_server s (Some (fst dns)) = Ret debug"
    using assms by (cases "init_debug_server s (Some (fst dns))") (simp_all add: init_services_def)
  obtain m where m: "init_mtls_agent W s = Inr m"
    using assms by (cases "init_mtls_agent W s") (simp_all add: init_services_def d)
  show ?thesis
    using assms init_debug_server_Some[OF d] by (auto simp: init_services_def d m)
qed

lemma init_dns_and_services_ok:
  assumes "init_dns_and_services W s P = Ret (Inr a, P')"
  shows "pr_context P' = pr_context P \<and> (\<exists>dns. init_services W s dns = Ret (Inr a))"
proof -
  let ?dns = "init_dns_resolver (iw_resolv_is_file W) (iw_resolv_conf W)
    (get_consumer_api (iw_new_consumer W) (pr_context P)) (pr_plugins P) s"
  obtain dns store destroyed where d: "?dns = Ret (dns, store, destroyed)"
    using assms by (cases ?dns) (auto simp: init_dns_and_services_def)
  obtain svr where svr: "dns = Inr svr"
    using assms by (cases dns) (simp_all add: init_dns_and_services_def d)
  obtain r where r: "init_services W s svr = Ret r"
    using assms by (cases "init_services W s svr") (simp_all add: init_dns_and_services_def d svr)
  have "r = Inr a" "P' = P\<lparr>pr_plugins := store\<rparr>"
    using assms by (simp_all add: init_dns_and_services_def d svr r)
  with r show ?thesis
    by (intro conjI exI[of _ svr]) simp_all
qed

lemma init_with_config_ok:
  assumes "init_with_config W s P = Ret (Inr a, P')"
  shows "pr_context P' \<noteq> None \<and> (pr_context P \<noteq> None \<longrightarrow> pr_context P' = pr_context P) \<and>
    (\<exists>dns. init_services W s dns = Ret (Inr a))"
proof -
  obtain options where l: "sd_logger s = Some options"
    using assms by (cases "sd_logger s") (simp_all add: init_with_config_def)
  let ?r = "configure (iw_log_env W) (iw_new_cores W) options (pr_scopes P)"
  let ?P = "P\<lparr>pr_scopes := lr_scopes ?r\<rparr>"
  have e: "lr_error ?r = None"
    using assms by (cases "lr_error ?r") (simp_all add: init_with_config_def l Let_def)
  obtain conf where c: "polaris_api_conf s = Ret conf"
    using assms by (cases "polaris_api_conf s") (simp_all add: init_with_config_def l e Let_def)
  obtain ctx err where i: "init_polaris_context (iw_new_context W) conf (pr_context P) = (ctx, err)"
    by fastforce
  have err: "err = None"
    using assms by (cases err) (simp_all add: init_with_config_def l e c i Let_def)
  have "init_dns_and_services W s (?P\<lparr>pr_context := ctx\<rparr>) = Ret (Inr a, P')"
    using assms by (simp add: init_with_config_def l e c i err Let_def)
  from init_dns_and_services_ok[OF this] have "pr_context P' = ctx" "\<exists>dns. init_services W s dns = Ret (Inr a)"
    by simp_all
  moreover have "ctx \<noteq> None"
    using init_polaris_context_ok i err by metis
  moreover have "pr_context P \<noteq> None \<longrightarrow> ctx = pr_context P"
    using i by (auto simp: init_polaris_context_def)
  ultimately show ?thesis
    by simp
qed

lemma init_agent_ok:
  assumes "init_agent W boot P = Ret (Inr a, P')"
  obtains s where "init_config (iw_env W) (iw_local_type W) (iw_decode W) (iw_file W) boot = Ret (Inr s)"
    "init_with_config W s P = Ret (Inr a, P')"
proof -
  let ?c = "init_config (iw_env W) (iw_local_type W) (iw_decode W) (iw_file W) boot"
  obtain r where r: "?c = Ret r"
    using assms by (cases ?c) (simp_all add: init_agent_def)
  obtain s where "r = Inr s"
    using assms by (cases r) (simp_all add: init_agent_def r)
  with assms r that show ?thesis
    by (simp add: init_agent_def)
qed

section \<open>Properties\<close>

text \<open>
  C20. The components that run are those the configuration asks for: the DNS server always, the debug server when enabled,
  the metrics server, the rate limit server and the mTLS agent when the mesh plugin and their own section are enabled.
\<close>

theorem start_components:
  assumes "start_process W boot P = Services l"
  shows "\<exists>s. init_config (iw_env W) (iw_local_type W) (iw_decode W) (iw_file W) boot = Ret (Inr s) \<and>
    l = run_services (\<lambda>c. case c of DebugServer \<Rightarrow> is_debug_enabled s | DnsServer \<Rightarrow> True
      | MtlsAgent \<Rightarrow> is_mesh_mtls_enabled s | MetricsServer \<Rightarrow> is_mesh_metrics_enabled s
      | RateLimitServer \<Rightarrow> is_mesh_ratelimit_enabled s)"
proof -
  obtain a P' where a: "init_agent W boot P = Ret (Inr a, P')" "l = run_services (agent_present a)"
    using assms by (auto simp: start_process_def split: go.splits sum.splits)
  obtain s where s: "init_config (iw_env W) (iw_local_type W) (iw_decode W) (iw_file W) boot = Ret (Inr s)"
    "init_with_config W s P = Ret (Inr a, P')"
    using init_agent_ok[OF a(1)] .
  obtain dns where "init_services W s dns = Ret (Inr a)"
    using init_with_config_ok[OF s(2)] by blast
  note parts = init_services_ok[OF this]
  have "ba_mtls a \<noteq> None \<longleftrightarrow> is_mesh_mtls_enabled s"
    using parts init_mtls_agent_iff by blast
  then have "agent_present a = (\<lambda>c. case c of DebugServer \<Rightarrow> is_debug_enabled s | DnsServer \<Rightarrow> True
      | MtlsAgent \<Rightarrow> is_mesh_mtls_enabled s | MetricsServer \<Rightarrow> is_mesh_metrics_enabled s
      | RateLimitServer \<Rightarrow> is_mesh_ratelimit_enabled s)"
    using parts init_metrics_server_iff[of s] init_rls_server_iff[of s]
    by (intro ext) (simp add: agent_present_def split: component.split)
  with s(1) a(2) show ?thesis
    by auto
qed

text \<open>
  A started agent has an SDK context, the one of the process if it had one before: the consumer and limit APIs its components
  ask for when they run are there.
\<close>

theorem started_agent_has_context:
  assumes "init_agent W boot P = Ret (Inr a, P')"
  shows "\<exists>ctx. pr_context P' = Some ctx \<and> (pr_context P \<noteq> None \<longrightarrow> pr_context P = Some ctx) \<and>
    get_limit_api new_limit (pr_context P') = Inr (new_limit ctx) \<and>
    get_consumer_api new_consumer (pr_context P') = Inr (new_consumer ctx)"
proof -
  obtain s where "init_with_config W s P = Ret (Inr a, P')"
    using init_agent_ok[OF assms] .
  from init_with_config_ok[OF this] show ?thesis
    by (auto simp: get_limit_api_def get_consumer_api_def)
qed

text \<open>
  The debug server built from a configuration registers its health and profiling handlers without a conflict: its
  \<open>Run\<close> does not panic.
\<close>

theorem debug_server_routes:
  assumes "init_debug_server s (Some svr) = Ret (Some g)"
  shows "\<exists>g'. debug_run None g = Ret (Inr g') \<and> dg_patterns g' = health_patterns @ pprof_patterns"
proof -
  have "dg_patterns g = []"
    using init_debug_server_Some[OF assms] by (auto simp: new_debug_server_def split: if_splits)
  then show ?thesis
    by (simp add: debug_run_def health_patterns_def pprof_patterns_def handle_func_def)
qed

text \<open>The witnesses: the default configuration, without file, environment and flags.\<close>

definition sample_init :: "unit init_world" where
  "sample_init = \<lparr>iw_env = no_env, iw_local_type = ''local'', iw_decode = (\<lambda>d s. Inr s), iw_file = Inr None,
     iw_log_env = sample_log_env, iw_new_cores = (\<lambda>p. []), iw_new_context = (\<lambda>settings. Inr ()),
     iw_new_consumer = (\<lambda>ctx req. Inr []), iw_resolv_is_file = False, iw_resolv_conf = Inl (LibError ''no file''),
     iw_mtls = sample_mtls_world, iw_mkdir = (\<lambda>path. None), iw_parse_scheme = (\<lambda>url. Inr ''http''),
     iw_token_file = ([], None), iw_root_ca_file = Inl (LibError ''no file''), iw_system_pool = None\<rparr>"

definition sample_process :: "unit process" where
  "sample_process = \<lparr>pr_scopes = sample_scopes, pr_context = None, pr_plugins = initial_plugins\<rparr>"

definition started_logger :: log_options where
  "started_logger = (the (sd_logger default_sidecar_config))\<lparr>lo_output_level := []\<rparr>"

definition started_agent_entry :: config_entry where
  "started_agent_entry = \<lparr>ce_name = PluginNameDnsAgent, ce_suffix = ''.'', ce_dns_ttl = 10, ce_enable = True,
     ce_option = None, ce_namespace = ''default''\<rparr>"

definition started_mesh_entry :: config_entry where
  "started_mesh_entry = \<lparr>ce_name = PluginNameMeshProxy, ce_suffix = ''.'', ce_dns_ttl = 120, ce_enable = False,
     ce_option = Some [(''reload_interval_sec'', OvInt 30), (''dns_answer_ip'', OvStr ''10.4.4.4'')],
     ce_namespace = ''default''\<rparr>"

definition started_config :: sidecar_config where
  "started_config = default_sidecar_config\<lparr>sd_logger := Some started_logger,
     sd_resolvers := [Some started_agent_entry, Some started_mesh_entry], sd_dns_enabled := True\<rparr>"

lemma default_config_started:
  "init_config no_env ''local'' (\<lambda>d s. Inr s) (Inr None) empty_boot = Ret (Inr started_config)"
  by (simp add: init_config_def merge_file_config_def merge_env_def merge_location_env_def merge_mesh_env_def
      merge_resolver_env_def merge_boot_config_def merge_boot_address_def set_log_level_def merge_boot_recurse_def
      merge_boot_resolvers_def verify_def verify_logger_def level_tables verify_entry_def entry_flags_def merge_logger_env_def
      default_sidecar_config_def empty_boot_def multi_error_def started_config_def started_logger_def
      started_agent_entry_def started_mesh_entry_def Let_def)

lemma started_logger_configured: "lr_error (configure sample_log_env (\<lambda>p. []) started_logger sample_scopes) = None"
  by (simp add: started_logger_def default_sidecar_config_def configure_def prep_zap_def set_default_option_def
      sample_log_env_def open_output_sink_def update_scopes_def find_scope_def sample_scopes_def string_to_level_def Let_def)

lemma started_dns:
  "\<exists>svr store destroyed. init_dns_resolver False (Inl (LibError ''no file'')) (Inr api) initial_plugins started_config =
     Ret (Inr (svr, None), store, destroyed)"
  by (simp add: init_dns_resolver_def started_config_def default_sidecar_config_def new_server_def
      started_agent_entry_def started_mesh_entry_def name_resolver_def initial_plugins_def register_def
      plugin_initialize_def dnsagent_initialize_def dnsagent_parse_options_def zero_agent_def build_proxy_def Let_def)

lemma started_flags [simp]:
  "is_debug_enabled started_config" "\<not> is_mesh_mtls_enabled started_config"
  by (simp_all add: is_debug_enabled_def is_mesh_mtls_enabled_def started_config_def default_sidecar_config_def)

text \<open>A configuration like the default one, in the sample environment, makes an agent.\<close>

lemma services_without_mtls:
  assumes "sd_debugger s \<noteq> None" and "\<not> is_mesh_mtls_enabled s"
  shows "\<exists>a. init_services W s dns = Ret (Inr a) \<and> ba_dns a = dns"
proof -
  have "init_mesh_mtls s = None"
    using init_mesh_mtls_iff[of s] assms(2) by auto
  with assms(1) show ?thesis
    by (auto simp: init_services_def init_debug_server_def init_mtls_agent_def)
qed

lemma sample_agent_starts:
  assumes "init_config (iw_env W) (iw_local_type W) (iw_decode W) (iw_file W) boot = Ret (Inr s)"
    and "iw_log_env W = sample_log_env" "iw_new_cores W = (\<lambda>p. [])" "iw_new_context W = (\<lambda>settings. Inr ctx)"
    and "sd_logger s = Some started_logger" "sd_polaris s \<noteq> None" "sd_debugger s \<noteq> None" "\<not> is_mesh_mtls_enabled s"
    and "init_dns_resolver (iw_resolv_is_file W) (iw_resolv_conf W) (Inr (iw_new_consumer W ctx)) initial_plugins s =
      Ret (Inr svr, store, destroyed)"
    and "pr_scopes P = sample_scopes" "pr_context P = None" "pr_plugins P = initial_plugins"
  shows "\<exists>a P'. init_agent W boot P = Ret (Inr a, P') \<and> ba_dns a = svr \<and> pr_context P' = Some ctx"
proof -
  obtain a where a: "init_services W s svr = Ret (Inr a)" "ba_dns a = svr"
    using services_without_mtls[OF assms(7,8)] by blast
  obtain p where p: "sd_polaris s = Some p"
    using assms(6) by blast
  have "\<exists>conf. polaris_api_conf s = Ret conf"
    by (simp add: polaris_api_conf_def p Let_def)
  then obtain conf where "polaris_api_conf s = Ret conf" ..
  then show ?thesis
    using assms a started_logger_configured
    by (simp add: init_agent_def init_with_config_def init_dns_and_services_def get_consumer_api_def
        init_polaris_context_def Let_def)
qed

lemma sample_process_starts_with:
  "\<exists>a P'. init_agent (sample_init\<lparr>iw_new_consumer := f\<rparr>) empty_boot sample_process = Ret (Inr a, P') \<and>
     snd (ba_dns a) = None \<and> pr_context P' = Some ()"
proof -
  obtain svr store destroyed where "init_dns_resolver False (Inl (LibError ''no file'')) (Inr (f ()))
      initial_plugins started_config = Ret (Inr (svr, None), store, destroyed)"
    using started_dns by blast
  then have "init_dns_resolver (iw_resolv_is_file (sample_init\<lparr>iw_new_consumer := f\<rparr>))
      (iw_resolv_conf (sample_init\<lparr>iw_new_consumer := f\<rparr>)) (Inr (iw_new_consumer (sample_init\<lparr>iw_new_consumer := f\<rparr>) ()))
      initial_plugins started_config = Ret (Inr (svr, None), store, destroyed)"
    by (simp add: sample_init_def)
  from sample_agent_starts[OF _ _ _ _ _ _ _ _ this, of empty_boot sample_process] default_config_started show ?thesis
    by (fastforce simp: sample_init_def sample_process_def started_config_def default_sidecar_config_def
        is_mesh_mtls_enabled_def)
qed

lemma sample_process_starts: "\<exists>a P'. init_agent sample_init empty_boot sample_process = Ret (Inr a, P')"
  using sample_process_starts_with[of "iw_new_consumer sample_init"] by auto

theorem start_components_witness:
  "\<exists>l. start_process sample_init empty_boot sample_process = Services l \<and>
     li_phase l DnsServer = Spawned \<and> li_phase l DebugServer = Spawned \<and> li_phase l MtlsAgent = Absent"
proof -
  obtain l where l: "start_process sample_init empty_boot sample_process = Services l"
    using sample_process_starts by (auto simp: start_process_def)
  have "init_config (iw_env sample_init) (iw_local_type sample_init) (iw_decode sample_init) (iw_file sample_init)
      empty_boot = Ret (Inr started_config)"
    by (simp add: sample_init_def default_config_started)
  with start_components[OF l] l show ?thesis
    by (auto simp: run_services_def)
qed

theorem started_agent_has_context_witness:
  "\<exists>a P'. init_agent sample_init empty_boot sample_process = Ret (Inr a, P') \<and>
     get_limit_api (\<lambda>ctx. ctx) (pr_context P') = Inr ()"
  using sample_process_starts started_agent_has_context[of sample_init empty_boot sample_process _ _ "\<lambda>ctx. ctx"]
  by fastforce

theorem debug_server_routes_witness:
  "\<exists>g g'. init_debug_server started_config (Some \<lparr>sv_dns_servers = [], sv_resolvers = [''dnsagent''], sv_destroyed = False\<rparr>) =
     Ret (Some g) \<and> debug_run None g = Ret (Inr g') \<and> length (dg_patterns g') = 7"
proof -
  let ?svr = "\<lparr>sv_dns_servers = [], sv_resolvers = [''dnsagent''], sv_destroyed = False\<rparr>"
  obtain d where "sd_debugger started_config = Some d"
    by (simp add: started_config_def default_sidecar_config_def)
  then obtain g where g: "init_debug_server started_config (Some ?svr) = Ret (Some g)"
    by (simp add: init_debug_server_def)
  from debug_server_routes[OF g] g show ?thesis
    by (auto simp: health_patterns_def pprof_patterns_def)
qed

end
