(* ===== verification/Command.thy ===== *)
theory Command
  imports Bootstrap
begin

text \<open>
  The command line (\<open>src/main.go\<close>, \<open>src/cmd\<close>, \<open>src/version\<close>): the two commands, the flags of \<open>start\<close> with their
  defaults, the boot configuration they are bound to. The library cobra, which parses the arguments against the
  registered commands and flags and runs one of them, is an argument.
\<close>

section \<open>Version\<close>

definition version_get :: "string \<Rightarrow> string" where
  "version_get version = (if version = [] then ''v0.1.0'' else version)"

definition version_revision :: "string \<Rightarrow> string \<Rightarrow> string" where
  "version_revision version build_date =
     (if version = [] \<or> build_date = [] then ''v0.1.0'' else version @ ''.'' @ build_date)"

section \<open>Commands and flags\<close>

datatype flag_value = FlagStr string | FlagInt int

record flag_spec =
  fs_name :: string
  fs_short :: string
  fs_default :: flag_value

text \<open>The eight registrations of \<open>init\<close>, in their order.\<close>

definition start_flags :: "flag_spec list" where
  "start_flags =
     [\<lparr>fs_name = ''config-file'', fs_short = ''c'', fs_default = FlagStr ''polaris-sidecar.yaml''\<rparr>,
      \<lparr>fs_name = ''bind'', fs_short = ''b'', fs_default = FlagStr []\<rparr>,
      \<lparr>fs_name = ''port'', fs_short = ''p'', fs_default = FlagInt 0\<rparr>,
      \<lparr>fs_name = ''log-level'', fs_short = ''l'', fs_default = FlagStr []\<rparr>,
      \<lparr>fs_name = ''recurse-enabled'', fs_short = ''r'', fs_default = FlagStr []\<rparr>,
      \<lparr>fs_name = ''dnsagent-enabled'', fs_short = ''d'', fs_default = FlagStr []\<rparr>,
      \<lparr>fs_name = ''dnsagent-route-labels'', fs_short = ''o'', fs_default = FlagStr []\<rparr>,
      \<lparr>fs_name = ''meshproxy-enabled'', fs_short = ''m'', fs_default = FlagStr []\<rparr>]"

definition root_commands :: "(string \<times> flag_spec list) list" where
  "root_commands = [(''start'', start_flags), (''version'', [])]"

text \<open>What cobra makes of the arguments: an error, help, or a command with the value of each of its flags.\<close>

type_synonym flag_values = "(string, flag_value) gomap"

datatype invocation = ShowHelp | RunCommand string flag_values

type_synonym cobra = "(string \<times> flag_spec list) list \<Rightarrow> string list \<Rightarrow> go_error + invocation"

definition flag_defaults :: "flag_spec list \<Rightarrow> flag_values" where
  "flag_defaults flags = map (\<lambda>f. (fs_name f, fs_default f)) flags"

text \<open>
  Documented behaviour: after the name of a command, any sequence of \<open>--name value\<close> gives its flags their values, a later one
  for the same flag winning, and the flags not given have their defaults. A value of a flag of type string is any
  argument; for one of type int it is the decimal form of a number of 64 bits.
\<close>

type_synonym given_flags = "(flag_spec \<times> flag_value) list"

fun flag_fits :: "flag_value \<Rightarrow> flag_value \<Rightarrow> bool" where
  "flag_fits (FlagStr d) (FlagStr v) \<longleftrightarrow> True"
| "flag_fits (FlagInt d) (FlagInt n) \<longleftrightarrow> int64_range n"
| "flag_fits d v \<longleftrightarrow> False"

definition flags_fit :: "flag_spec list \<Rightarrow> given_flags \<Rightarrow> bool" where
  "flags_fit flags given \<longleftrightarrow> list_all (\<lambda>(f, v). f \<in> set flags \<and> flag_fits (fs_default f) v) given"

primrec flag_text :: "flag_value \<Rightarrow> string" where
  "flag_text (FlagStr v) = v"
| "flag_text (FlagInt n) = int_str n"

definition flag_args :: "given_flags \<Rightarrow> string list" where
  "flag_args given = concat (map (\<lambda>(f, v). [''--'' @ fs_name f, flag_text v]) given)"

definition set_flags :: "given_flags \<Rightarrow> flag_values \<Rightarrow> flag_values" where
  "set_flags given = fold (\<lambda>(f, v). gomap_put (fs_name f) v) given"

definition cobra_law :: "cobra \<Rightarrow> bool" where
  "cobra_law cobra \<longleftrightarrow>
     (\<forall>nm flags given. map_of root_commands nm = Some flags \<longrightarrow> flags_fit flags given \<longrightarrow>
        cobra root_commands (nm # flag_args given) = Inr (RunCommand nm (set_flags given (flag_defaults flags))))"

text \<open>The variables the flags are bound to.\<close>

definition flag_string :: "flag_values \<Rightarrow> string \<Rightarrow> string" where
  "flag_string vals nm = (case gomap_get vals nm of Some (FlagStr v) \<Rightarrow> v | _ \<Rightarrow> [])"

definition flag_int :: "flag_values \<Rightarrow> string \<Rightarrow> int" where
  "flag_int vals nm = (case gomap_get vals nm of Some (FlagInt v) \<Rightarrow> v | _ \<Rightarrow> 0)"

definition config_path_of :: "flag_values \<Rightarrow> string" where
  "config_path_of vals = flag_string vals ''config-file''"

definition boot_config_of :: "flag_values \<Rightarrow> boot_config" where
  "boot_config_of vals = \<lparr>
     bc_bind = flag_string vals ''bind'',
     bc_port = flag_int vals ''port'',
     bc_log_level = flag_string vals ''log-level'',
     bc_recurse_enabled = flag_string vals ''recurse-enabled'',
     bc_dnsagent_enabled = flag_string vals ''dnsagent-enabled'',
     bc_dnsagent_route_labels = flag_string vals ''dnsagent-route-labels'',
     bc_meshproxy_enabled = flag_string vals ''meshproxy-enabled''\<rparr>"

text \<open>
  \<open>Execute\<close>, the body of \<open>main\<close>. What \<open>Start\<close> finds depends on the path of the configuration file.
\<close>

datatype command_outcome = ErrorLogged go_error | Helped | Printed string | Started start_outcome

definition execute ::
  "cobra \<Rightarrow> string \<Rightarrow> (string \<Rightarrow> 'ctx init_world) \<Rightarrow> string list \<Rightarrow> 'ctx process \<Rightarrow> command_outcome" where
  "execute cobra version world args P =
     (case cobra root_commands args of
        Inl err \<Rightarrow> ErrorLogged err
      | Inr ShowHelp \<Rightarrow> Helped
      | Inr (RunCommand nm vals) \<Rightarrow>
          if nm = ''start'' then Started (start_process (world (config_path_of vals)) (boot_config_of vals) P)
          else if nm = ''version'' then Printed (''version: '' @ version_get version @ [CHR 0x0A])
          else Helped)"

section \<open>Lemmas\<close>

text \<open>The library panics on a flag or a shorthand registered twice.\<close>

lemma start_flags_distinct: "distinct (map fs_name start_flags) \<and> distinct (map fs_short start_flags)"
  by (simp add: start_flags_def)

lemma boot_config_of_defaults: "boot_config_of (flag_defaults start_flags) = empty_boot"
  by (simp add: boot_config_of_def flag_defaults_def start_flags_def flag_string_def flag_int_def empty_boot_def
      gomap_get_def)

text \<open>The value a flag ends with: the last one given, or its default.\<close>

definition given_string :: "given_flags \<Rightarrow> string \<Rightarrow> string \<Rightarrow> string" where
  "given_string given nm d = (case map_of (rev (map (\<lambda>(f, v). (fs_name f, v)) given)) nm of Some (FlagStr v) \<Rightarrow> v | _ \<Rightarrow> d)"

definition given_int :: "given_flags \<Rightarrow> string \<Rightarrow> int \<Rightarrow> int" where
  "given_int given nm d = (case map_of (rev (map (\<lambda>(f, v). (fs_name f, v)) given)) nm of Some (FlagInt n) \<Rightarrow> n | _ \<Rightarrow> d)"

lemma set_flags_get:
  "gomap_get (set_flags given vals) k =
     (case map_of (rev (map (\<lambda>(f, v). (fs_name f, v)) given)) k of Some v \<Rightarrow> Some v | None \<Rightarrow> gomap_get vals k)"
  by (induction given arbitrary: vals) (auto simp: set_flags_def map_add_def split: option.splits)

lemma flag_default:
  "f \<in> set start_flags \<Longrightarrow> gomap_get (flag_defaults start_flags) (fs_name f) = Some (fs_default f)"
  by (auto simp: flag_defaults_def start_flags_def gomap_get_def)

text \<open>A given value has the type of its flag.\<close>

lemma given_fits:
  assumes "flags_fit start_flags given" and "map_of (rev (map (\<lambda>(f, v). (fs_name f, v)) given)) k = Some v"
    and "gomap_get (flag_defaults start_flags) k = Some d"
  shows "flag_fits d v"
proof -
  obtain f where "(f, v) \<in> set given" "fs_name f = k"
    using map_of_SomeD[OF assms(2)] by auto
  moreover from this have "f \<in> set start_flags" "flag_fits (fs_default f) v"
    using assms(1) by (auto simp: flags_fit_def list_all_iff)
  ultimately show ?thesis
    using flag_default[of f] assms(3) by simp
qed

lemma flag_string_given:
  assumes "flags_fit start_flags given" and "gomap_get (flag_defaults start_flags) k = Some (FlagStr d)"
  shows "flag_string (set_flags given (flag_defaults start_flags)) k = given_string given k d"
proof (cases "map_of (rev (map (\<lambda>(f, v). (fs_name f, v)) given)) k")
  case (Some v)
  with given_fits[OF assms(1) Some assms(2)] show ?thesis
    by (cases v) (simp_all add: flag_string_def set_flags_get given_string_def)
qed (simp add: flag_string_def set_flags_get given_string_def assms(2))

lemma flag_int_given:
  assumes "flags_fit start_flags given" and "gomap_get (flag_defaults start_flags) k = Some (FlagInt d)"
  shows "flag_int (set_flags given (flag_defaults start_flags)) k = given_int given k d"
proof (cases "map_of (rev (map (\<lambda>(f, v). (fs_name f, v)) given)) k")
  case (Some v)
  with given_fits[OF assms(1) Some assms(2)] show ?thesis
    by (cases v) (simp_all add: flag_int_def set_flags_get given_int_def)
qed (simp add: flag_int_def set_flags_get given_int_def assms(2))

lemma start_defaults:
  "gomap_get (flag_defaults start_flags) ''config-file'' = Some (FlagStr ''polaris-sidecar.yaml'')"
  "gomap_get (flag_defaults start_flags) ''bind'' = Some (FlagStr [])"
  "gomap_get (flag_defaults start_flags) ''port'' = Some (FlagInt 0)"
  "gomap_get (flag_defaults start_flags) ''log-level'' = Some (FlagStr [])"
  "gomap_get (flag_defaults start_flags) ''recurse-enabled'' = Some (FlagStr [])"
  "gomap_get (flag_defaults start_flags) ''dnsagent-enabled'' = Some (FlagStr [])"
  "gomap_get (flag_defaults start_flags) ''dnsagent-route-labels'' = Some (FlagStr [])"
  "gomap_get (flag_defaults start_flags) ''meshproxy-enabled'' = Some (FlagStr [])"
  by (simp_all add: flag_defaults_def start_flags_def gomap_get_def)

text \<open>What \<open>Start\<close> is called with.\<close>

lemma execute_start:
  assumes "cobra_law cobra" and "flags_fit start_flags given"
  shows "execute cobra version world (''start'' # flag_args given) P =
    Started (start_process (world (given_string given ''config-file'' ''polaris-sidecar.yaml''))
      \<lparr>bc_bind = given_string given ''bind'' [], bc_port = given_int given ''port'' 0,
       bc_log_level = given_string given ''log-level'' [],
       bc_recurse_enabled = given_string given ''recurse-enabled'' [],
       bc_dnsagent_enabled = given_string given ''dnsagent-enabled'' [],
       bc_dnsagent_route_labels = given_string given ''dnsagent-route-labels'' [],
       bc_meshproxy_enabled = given_string given ''meshproxy-enabled'' []\<rparr> P)"
proof -
  have "map_of root_commands ''start'' = Some start_flags"
    by (simp add: root_commands_def)
  then have "cobra root_commands (''start'' # flag_args given) =
      Inr (RunCommand ''start'' (set_flags given (flag_defaults start_flags)))"
    using assms unfolding cobra_law_def by blast
  then show ?thesis
    unfolding execute_def config_path_of_def boot_config_of_def
    by (simp only: sum.case invocation.case if_True simp_thms
        flag_string_given[OF assms(2)] flag_int_given[OF assms(2)] start_defaults)
qed

text \<open>The configuration services run with, by the boot configuration they were started with.\<close>

lemma started_configuration:
  assumes "start_process W boot P = Services l"
  shows "\<exists>s s1 s2 lg. init_config (iw_env W) (iw_local_type W) (iw_decode W) (iw_file W) boot = Ret (Inr s) \<and>
    merge_file_config (iw_env W) (iw_decode W) (iw_file W) default_sidecar_config = Inr s1 \<and>
    merge_env (iw_env W) (iw_local_type W) s1 = Ret s2 \<and>
    sd_bind s = (if bc_bind boot \<noteq> [] then bc_bind boot else sd_bind s2) \<and>
    sd_port s = (if bc_port boot > 0 then bc_port boot else sd_port s2) \<and>
    sd_logger s = Some lg \<and> lo_output_level lg = bc_log_level boot \<and>
    (if bc_recurse_enabled boot = [] then sd_recurse s = sd_recurse s2
     else \<exists>b r. parse_bool (bc_recurse_enabled boot) = Inr b \<and> sd_recurse s2 = Some r \<and> sd_recurse s = Some (r\<lparr>rs_enable := b\<rparr>)) \<and>
    (if bc_dnsagent_enabled boot = [] \<and> bc_dnsagent_route_labels boot = [] then sd_resolvers s = sd_resolvers s2
     else entries_from_flags (bc_dnsagent_enabled boot) (bc_dnsagent_route_labels boot) (bc_meshproxy_enabled boot)
       (sd_resolvers s2) (sd_resolvers s))"
proof -
  obtain a P' where "init_agent W boot P = Ret (Inr a, P')"
    using assms by (auto simp: start_process_def split: go.splits sum.splits)
  then obtain s where s: "init_config (iw_env W) (iw_local_type W) (iw_decode W) (iw_file W) boot = Ret (Inr s)"
    using init_agent_ok by blast
  obtain s1 s2 s3 where st: "merge_file_config (iw_env W) (iw_decode W) (iw_file W) default_sidecar_config = Inr s1"
    "merge_env (iw_env W) (iw_local_type W) s1 = Ret s2" "merge_boot_config boot s2 = Ret (s3, None)" "verify s3 = Ret (s, None)"
    using init_config_stages[OF s] .
  have same: "sd_bind s3 = sd_bind s" "sd_port s3 = sd_port s" "sd_logger s3 = sd_logger s" "sd_recurse s3 = sd_recurse s"
    "sd_resolvers s3 = sd_resolvers s"
    using verify_frame[OF st(4)] by auto
  note result = merge_boot_result[OF st(3), unfolded same]
  note accepted = merge_boot_accepted[OF st(3), unfolded same]
  obtain lg where lg: "sd_logger s = Some lg" "lo_output_level lg = bc_log_level boot"
    using result by blast
  show ?thesis
    using s st(1,2) result accepted lg
    by (intro exI[of _ s] exI[of _ s1] exI[of _ s2] exI[of _ lg] conjI) (assumption | elim conjE)+
qed

section \<open>Properties\<close>


section \<open>Witnesses\<close>

text \<open>A parser of the arguments that follows the documented rule.\<close>

definition flag_named :: "flag_spec list \<Rightarrow> string \<Rightarrow> flag_spec option" where
  "flag_named flags arg = (if take 2 arg = ''--'' then map_of (map (\<lambda>f. (fs_name f, f)) flags) (drop 2 arg) else None)"

fun sample_parse :: "flag_spec list \<Rightarrow> string list \<Rightarrow> flag_values \<Rightarrow> flag_values option" where
  "sample_parse flags [] vals = Some vals"
| "sample_parse flags [arg] vals = None"
| "sample_parse flags (arg # v # args) vals =
     (case flag_named flags arg of
        None \<Rightarrow> None
      | Some f \<Rightarrow>
          (case fs_default f of
             FlagStr d \<Rightarrow> sample_parse flags args (gomap_put (fs_name f) (FlagStr v) vals)
           | FlagInt d \<Rightarrow>
               (case atoi v of
                  Inl e \<Rightarrow> None
                | Inr n \<Rightarrow> sample_parse flags args (gomap_put (fs_name f) (FlagInt n) vals))))"

definition sample_cobra :: cobra where
  "sample_cobra commands args =
     (case args of
        [] \<Rightarrow> Inr ShowHelp
      | nm # rest \<Rightarrow>
          (case Option.bind (map_of commands nm) (\<lambda>flags. sample_parse flags rest (flag_defaults flags)) of
             None \<Rightarrow> Inl (LibError ''unknown command or flag'')
           | Some vals \<Rightarrow> Inr (RunCommand nm vals)))"

lemma nat_str_digits: "\<exists>c cs. nat_str n = c # cs \<and> c \<noteq> CHR ''-'' \<and> c \<noteq> CHR ''+''"
proof (cases "nat_str n")
  case Nil
  then show ?thesis
    by (simp add: nat_str.simps[of n] split: if_splits)
next
  case (Cons c cs)
  have "nat_of_digits 0 (c # cs) \<noteq> None"
    by (simp flip: Cons)
  then have "digit_val c \<noteq> None"
    by (auto split: option.splits)
  then have "c \<noteq> CHR ''-'' \<and> c \<noteq> CHR ''+''"
    by (auto simp: digit_val_def)
  with Cons show ?thesis by blast
qed

lemma atoi_int_str: "int64_range n \<Longrightarrow> atoi (int_str n) = Inr n"
proof -
  assume n: "int64_range n"
  obtain c cs where d: "nat_str (nat \<bar>n\<bar>) = c # cs" "c \<noteq> CHR ''-''" "c \<noteq> CHR ''+''"
    using nat_str_digits by blast
  have "nat_of_digits 0 (c # cs) = Some (nat \<bar>n\<bar>)"
    by (simp flip: d(1))
  with n d show ?thesis
    by (cases "n < 0") (simp_all add: atoi_def int_str_def Let_def del: nat_of_digits.simps)
qed

lemma flag_named_given: "distinct (map fs_name flags) \<Longrightarrow> f \<in> set flags \<Longrightarrow> flag_named flags (''--'' @ fs_name f) = Some f"
  by (auto simp: flag_named_def comp_def intro!: map_of_is_SomeI)

lemma sample_parse_given:
  assumes "distinct (map fs_name flags)" and "flags_fit flags given"
  shows "sample_parse flags (flag_args given) vals = Some (set_flags given vals)"
  using assms(2)
proof (induction given arbitrary: vals)
  case Nil
  then show ?case by (simp add: flag_args_def set_flags_def)
next
  case (Cons g given)
  obtain f v where g: "g = (f, v)" by fastforce
  have f: "flag_named flags (''--'' @ fs_name f) = Some f" and fit: "flag_fits (fs_default f) v" and rest: "flags_fit flags given"
    using Cons.prems flag_named_given[OF assms(1), of f] by (auto simp: flags_fit_def g)
  have "sample_parse flags (arg # flag_text v # args) vals = sample_parse flags args (gomap_put (fs_name f) v vals)"
    if "flag_named flags arg = Some f" for arg args
    using that fit by (cases "fs_default f"; cases v) (simp_all add: atoi_int_str)
  moreover have "flag_args (g # given) = (''--'' @ fs_name f) # flag_text v # flag_args given"
    by (simp add: flag_args_def g)
  ultimately have "sample_parse flags (flag_args (g # given)) vals = sample_parse flags (flag_args given) (gomap_put (fs_name f) v vals)"
    using f by simp
  with Cons.IH[OF rest] show ?case
    by (simp add: set_flags_def g)
qed

lemma sample_cobra_law: "cobra_law sample_cobra"
proof -
  have "distinct (map fs_name flags)" if "map_of root_commands nm = Some flags" for nm flags
    using that start_flags_distinct by (auto simp: root_commands_def split: if_splits)
  then show ?thesis
    by (simp add: cobra_law_def sample_cobra_def sample_parse_given)
qed

text \<open>The file, the address and the switch of one resolver on the command line; the file exists only at this path.\<close>

definition path_world :: "string \<Rightarrow> unit init_world" where
  "path_world path = (if path = ''/etc/sidecar.yaml'' then sample_init else sample_init\<lparr>iw_file := Inl (LibError ''open'')\<rparr>)"

definition sample_given :: given_flags where
  "sample_given = [(start_flags ! 1, FlagStr ''10.0.0.9''), (start_flags ! 0, FlagStr ''/etc/sidecar.yaml''),
     (start_flags ! 2, FlagInt 5353), (start_flags ! 5, FlagStr ''true''), (start_flags ! 1, FlagStr ''10.0.0.1'')]"

lemma sample_given_fits: "flags_fit start_flags sample_given"
  by (simp add: flags_fit_def sample_given_def start_flags_def int64_range_def)

definition flagged_boot :: boot_config where
  "flagged_boot = empty_boot\<lparr>bc_bind := ''10.0.0.1'', bc_port := 5353, bc_dnsagent_enabled := ''true''\<rparr>"

lemma sample_given_values:
  "given_string sample_given ''config-file'' ''polaris-sidecar.yaml'' = ''/etc/sidecar.yaml''"
  "given_string sample_given ''bind'' [] = ''10.0.0.1''" "given_int sample_given ''port'' 0 = 5353"
  "given_string sample_given ''log-level'' [] = []" "given_string sample_given ''recurse-enabled'' [] = []"
  "given_string sample_given ''dnsagent-enabled'' [] = ''true''"
  "given_string sample_given ''dnsagent-route-labels'' [] = []" "given_string sample_given ''meshproxy-enabled'' [] = []"
  by (simp_all add: given_string_def given_int_def sample_given_def start_flags_def)

abbreviation flagged_config :: sidecar_config where
  "flagged_config \<equiv> started_config\<lparr>sd_bind := ''10.0.0.1'', sd_port := 5353\<rparr>"

lemma flagged_config_read:
  "init_config no_env ''local'' (\<lambda>d s. Inr s) (Inr None) flagged_boot = Ret (Inr flagged_config)"
  by (simp add: init_config_def merge_file_config_def merge_env_def merge_location_env_def merge_mesh_env_def
      merge_resolver_env_def merge_boot_config_def merge_boot_address_def set_log_level_def merge_boot_recurse_def
      merge_boot_resolvers_def merge_resolver_boot_def parse_bool_into_def parse_bool_def verify_def verify_logger_def
      level_tables verify_entry_def entry_flags_def merge_logger_env_def default_sidecar_config_def empty_boot_def
      multi_error_def started_config_def started_logger_def started_agent_entry_def started_mesh_entry_def
      flagged_boot_def Let_def)

lemma flagged_dns:
  "\<exists>svr store destroyed. init_dns_resolver False (Inl (LibError ''no file'')) (Inr api) initial_plugins flagged_config =
     Ret (Inr (svr, None), store, destroyed)"
  by (simp add: init_dns_resolver_def started_config_def default_sidecar_config_def new_server_def
      started_agent_entry_def started_mesh_entry_def name_resolver_def initial_plugins_def register_def
      plugin_initialize_def dnsagent_initialize_def dnsagent_parse_options_def zero_agent_def build_proxy_def Let_def)

lemma flagged_process_starts: "\<exists>l. start_process sample_init flagged_boot sample_process = Services l"
proof -
  obtain svr store destroyed where "init_dns_resolver (iw_resolv_is_file sample_init) (iw_resolv_conf sample_init)
      (Inr (iw_new_consumer sample_init ())) initial_plugins flagged_config = Ret (Inr (svr, None), store, destroyed)"
    using flagged_dns[of "iw_new_consumer sample_init ()"] by (auto simp: sample_init_def)
  from sample_agent_starts[OF _ _ _ _ _ _ _ _ this, of flagged_boot sample_process] flagged_config_read
  have "\<exists>a P'. init_agent sample_init flagged_boot sample_process = Ret (Inr a, P')"
    by (fastforce simp: sample_init_def sample_process_def started_config_def default_sidecar_config_def
        is_mesh_mtls_enabled_def)
  then show ?thesis
    by (auto simp: start_process_def)
qed


end
