(* ===== verification/Serving.thy ===== *)
theory Serving
  imports Bootstrap
begin

text \<open>
  The DNS server while it runs (\<open>Run\<close> of \<open>src/internal/resolver/server.go\<close>): the started plugins, the queries of its two
  listeners and the reload goroutines of the mesh plugin, in any order, from the agent a configuration makes.
\<close>

section \<open>States and events\<close>

text \<open>
  The plugin objects, the proxy both handlers share, and the local variable \<open>currentServices\<close> of each reload goroutine.
\<close>

record serving =
  sg_store :: plugin_store
  sg_proxy :: "proxy option"
  sg_reloaders :: "string_set list"

text \<open>\<open>Start\<close> of a plugin: the mesh plugin reads its configuration and starts a goroutine, the other does nothing.\<close>

definition plugin_start :: "plugin \<Rightarrow> string_set list \<Rightarrow> string_set list go" where
  "plugin_start p reloaders =
     (case p of
        PlugAgent r \<Rightarrow> Ret reloaders
      | PlugMesh r \<Rightarrow> (case rm_config r of None \<Rightarrow> Panic NilDereference | Some cfg \<Rightarrow> Ret (reloaders @ [[]])))"

fun start_plugins :: "plugin list \<Rightarrow> string_set list \<Rightarrow> string_set list go" where
  "start_plugins [] reloaders = Ret reloaders"
| "start_plugins (p # ps) reloaders = go_bind (plugin_start p reloaders) (start_plugins ps)"

definition server_run :: "server \<times> proxy option \<Rightarrow> plugin_store \<Rightarrow> serving go" where
  "server_run svr store =
     go_bind (start_plugins (List.map_filter store (sv_resolvers (fst svr))) []) (\<lambda>reloaders.
       Ret \<lparr>sg_store = store, sg_proxy = snd svr, sg_reloaders = reloaders\<rparr>)"

text \<open>
  A reload of one goroutine, with the answer of the registry, and a query at one of the listeners. The ticker of the
  goroutine is made before its first reload and panics on an interval that is not positive; no handler recovers that.
\<close>

datatype serving_event = Reload nat services_call | Query nat bool dns_msg

definition reload_interval :: "mesh_config \<Rightarrow> 64 word" where
  "reload_interval cfg = word_of_int (mc_reload_interval_sec cfg) * 1000000000"

definition reload_step :: "nat \<Rightarrow> services_call \<Rightarrow> serving \<Rightarrow> serving go" where
  "reload_step k call st =
     (case sg_store st PluginNameMeshProxy of
        Some (PlugMesh r) \<Rightarrow>
          if k < length (sg_reloaders st) then
            (case rm_config r of
               None \<Rightarrow> Panic NilDereference
             | Some cfg \<Rightarrow>
                 if reload_interval cfg \<le>s 0 then Panic NonPositiveTicker
                 else go_bind (do_reload (sg_reloaders st ! k) call r) (\<lambda>((next_services, changed), r').
                   Ret (st\<lparr>sg_store := (sg_store st)(PluginNameMeshProxy \<mapsto> PlugMesh r'),
                     sg_reloaders := (sg_reloaders st)[k := if changed then next_services else sg_reloaders st ! k]\<rparr>)))
          else Ret st
      | _ \<Rightarrow> Ret st)"

definition query_step ::
  "dns_lib \<Rightarrow> string \<Rightarrow> exchange \<Rightarrow> server \<Rightarrow> nat \<Rightarrow> bool \<Rightarrow> dns_msg \<Rightarrow> serving \<Rightarrow> dns_msg list \<times> serving" where
  "query_step L server_ns ex svr i tcp req st =
     (if i < length (sv_dns_servers svr) then
        (let (sent, px, queries) = serve_dns L server_ns ex (sg_store st) (ds_handler (sv_dns_servers svr ! i)) tcp
               (sg_proxy st) req
         in (sent, st\<lparr>sg_proxy := px\<rparr>))
      else ([], st))"

text \<open>The messages sent for the queries, in order; a panic of a reload goroutine ends the process.\<close>

fun serving_run ::
  "dns_lib \<Rightarrow> string \<Rightarrow> exchange \<Rightarrow> server \<Rightarrow> serving_event list \<Rightarrow> serving \<Rightarrow> (dns_msg list list \<times> serving) go" where
  "serving_run L server_ns ex svr [] st = Ret ([], st)"
| "serving_run L server_ns ex svr (Reload k call # es) st =
     go_bind (reload_step k call st) (serving_run L server_ns ex svr es)"
| "serving_run L server_ns ex svr (Query i tcp req # es) st =
     (let (sent, st') = query_step L server_ns ex svr i tcp req st
      in go_bind (serving_run L server_ns ex svr es st') (\<lambda>(replies, st''). Ret (sent # replies, st'')))"

section \<open>The running mesh plugin\<close>

text \<open>The answers of the registry to one goroutine.\<close>

definition calls_of :: "nat \<Rightarrow> serving_event list \<Rightarrow> services_call list" where
  "calls_of k es = List.map_filter (\<lambda>e. case e of Reload j call \<Rightarrow> if j = k then Some call else None | _ \<Rightarrow> None) es"

lemma calls_of_simps [simp]:
  "calls_of k [] = []"
  "calls_of k (Reload j call # es) = (if j = k then call # calls_of k es else calls_of k es)"
  "calls_of k (Query i tcp req # es) = calls_of k es"
  by (simp_all add: calls_of_def List.map_filter_simps)

lemma do_reload_config: "do_reload cur call r = Ret (res, r') \<Longrightarrow> rm_config r' = rm_config r"
  by (auto simp: do_reload_def split: option.splits sum.splits if_splits)

text \<open>With one goroutine, the state follows the plugin's own reload loop over the calls, whatever queries come between.\<close>

lemma serving_run_mesh:
  assumes "serving_run L server_ns ex svr es st = Ret (replies, st')"
    and "sg_store st PluginNameMeshProxy = Some (PlugMesh r)" and "sg_reloaders st = [cur]" and "rm_config r = Some cfg"
  shows "\<exists>cur' r'. reload_loop (calls_of 0 es) cur r = Ret (cur', r') \<and> sg_reloaders st' = [cur'] \<and>
    sg_store st' = (sg_store st)(PluginNameMeshProxy \<mapsto> PlugMesh r') \<and>
    (calls_of 0 es \<noteq> [] \<longrightarrow> \<not> reload_interval cfg \<le>s 0)"
  using assms
proof (induction es arbitrary: st replies r cur)
  case Nil
  then show ?case by auto
next
  case (Cons e es)
  show ?case
  proof (cases e)
    case (Query i tcp req)
    obtain sent st1 where q: "query_step L server_ns ex svr i tcp req st = (sent, st1)" by fastforce
    have st1: "sg_store st1 = sg_store st" "sg_reloaders st1 = sg_reloaders st"
      using q by (auto simp: query_step_def Let_def split: if_splits prod.splits)
    obtain replies1 where "serving_run L server_ns ex svr es st1 = Ret (replies1, st')"
      using Cons.prems(1) by (auto simp: Query q go_bind_Ret_iff)
    from Cons.IH[OF this] st1 Cons.prems(2-) show ?thesis
      by (simp add: Query)
  next
    case (Reload k call)
    obtain st1 where s: "reload_step k call st = Ret st1" "serving_run L server_ns ex svr es st1 = Ret (replies, st')"
      using Cons.prems(1) by (auto simp: Reload go_bind_Ret_iff)
    show ?thesis
    proof (cases "k = 0")
      case False
      then have "st1 = st"
        using s(1) Cons.prems(2,3) by (simp add: reload_step_def)
      with Cons.IH[OF s(2)] Cons.prems(2-) False show ?thesis
        by (simp add: Reload)
    next
      case True
      obtain next_services changed r1 where d: "do_reload cur call r = Ret ((next_services, changed), r1)"
        and pos: "\<not> reload_interval cfg \<le>s 0"
        and st1: "st1 = st\<lparr>sg_store := (sg_store st)(PluginNameMeshProxy \<mapsto> PlugMesh r1),
          sg_reloaders := [if changed then next_services else cur]\<rparr>"
        using s(1) Cons.prems(2-) True by (auto simp: reload_step_def go_bind_Ret_iff split: if_splits)
      have "rm_config r1 = Some cfg"
        using do_reload_config[OF d] Cons.prems(4) by simp
      from Cons.IH[OF s(2) _ _ this, of "if changed then next_services else cur"] st1 d pos True show ?thesis
        by (auto simp: Reload fun_eq_iff)
    qed
  qed
qed

text \<open>Queries do not change the configuration of the proxy, so a name is stripped of the same search domains at any time.\<close>

lemma handle_dns_config:
  "handle_dns ex tcp px r = (res, px', sent) \<Longrightarrow> map_option px_config px' = map_option px_config px"
  by (auto simp: handle_dns_def Let_def split: option.splits list.splits prod.splits)

lemma serve_dns_config:
  "serve_dns L server_ns ex store d tcp px req = (msgs, px', sent) \<Longrightarrow> map_option px_config px' = map_option px_config px"
  by (auto simp: serve_dns_def serve_dns_body_def split: list.splits go.splits option.splits prod.splits if_splits
      dest!: handle_dns_config)

lemma serving_run_config:
  "serving_run L server_ns ex svr es st = Ret (replies, st') \<Longrightarrow>
     map_option px_config (sg_proxy st') = map_option px_config (sg_proxy st)"
proof (induction es arbitrary: st replies)
  case (Cons e es)
  show ?case
  proof (cases e)
    case (Reload k call)
    obtain st1 where s: "reload_step k call st = Ret st1" "serving_run L server_ns ex svr es st1 = Ret (replies, st')"
      using Cons.prems by (auto simp: Reload go_bind_Ret_iff)
    have "sg_proxy st1 = sg_proxy st"
      using s(1) by (auto simp: reload_step_def go_bind_Ret_iff split: option.splits plugin.splits if_splits)
    with Cons.IH[OF s(2)] show ?thesis by simp
  next
    case (Query i tcp req)
    obtain sent st1 where q: "query_step L server_ns ex svr i tcp req st = (sent, st1)" by fastforce
    obtain replies1 where "serving_run L server_ns ex svr es st1 = Ret (replies1, st')"
      using Cons.prems by (auto simp: Query q go_bind_Ret_iff)
    moreover have "map_option px_config (sg_proxy st1) = map_option px_config (sg_proxy st)"
      using q by (auto simp: query_step_def split: if_splits prod.splits dest: serve_dns_config)
    ultimately show ?thesis
      using Cons.IH by simp
  qed
qed simp

lemma preprocess_config:
  "map_option px_config px = map_option px_config px' \<Longrightarrow> preprocess px qname = preprocess px' qname"
  by (auto simp: preprocess_def split: option.splits)

text \<open>A run does not touch the other plugin.\<close>

lemma serving_run_agent:
  "serving_run L server_ns ex svr es st = Ret (replies, st') \<Longrightarrow> n \<noteq> PluginNameMeshProxy \<Longrightarrow> sg_store st' n = sg_store st n"
proof (induction es arbitrary: st replies)
  case (Cons e es)
  show ?case
  proof (cases e)
    case (Reload k call)
    obtain st1 where s: "reload_step k call st = Ret st1" "serving_run L server_ns ex svr es st1 = Ret (replies, st')"
      using Cons.prems by (auto simp: Reload go_bind_Ret_iff)
    have "sg_store st1 n = sg_store st n"
      using s(1) Cons.prems(2) by (auto simp: reload_step_def go_bind_Ret_iff split: option.splits plugin.splits if_splits)
    with Cons.IH[OF s(2)] Cons.prems(2) show ?thesis by simp
  next
    case (Query i tcp req)
    obtain sent st1 where q: "query_step L server_ns ex svr i tcp req st = (sent, st1)" by fastforce
    obtain replies1 where "serving_run L server_ns ex svr es st1 = Ret (replies1, st')"
      using Cons.prems by (auto simp: Query q go_bind_Ret_iff)
    moreover have "sg_store st1 = sg_store st"
      using q by (auto simp: query_step_def Let_def split: if_splits prod.splits)
    ultimately show ?thesis
      using Cons.IH Cons.prems(2) by simp
  qed
qed simp

section \<open>From the configuration to the running server\<close>

text \<open>The DNS server of an agent is the one its configuration describes.\<close>

lemma init_agent_dns:
  assumes "init_agent W boot P = Ret (Inr a, P')"
    and "init_config (iw_env W) (iw_local_type W) (iw_decode W) (iw_file W) boot = Ret (Inr s)"
  shows "\<exists>destroyed. init_dns_resolver (iw_resolv_is_file W) (iw_resolv_conf W)
    (get_consumer_api (iw_new_consumer W) (pr_context P')) (pr_plugins P) s = Ret (Inr (ba_dns a), pr_plugins P', destroyed)"
proof -
  have i: "init_with_config W s P = Ret (Inr a, P')"
    using init_agent_ok[OF assms(1)] assms(2) by auto
  obtain options where l: "sd_logger s = Some options"
    using i by (cases "sd_logger s") (simp_all add: init_with_config_def)
  let ?r = "configure (iw_log_env W) (iw_new_cores W) options (pr_scopes P)"
  have e: "lr_error ?r = None"
    using i by (cases "lr_error ?r") (simp_all add: init_with_config_def l Let_def)
  obtain conf where c: "polaris_api_conf s = Ret conf"
    using i by (cases "polaris_api_conf s") (simp_all add: init_with_config_def l e Let_def)
  obtain ctx err where x: "init_polaris_context (iw_new_context W) conf (pr_context P) = (ctx, err)"
    by fastforce
  have "err = None"
    using i by (cases err) (simp_all add: init_with_config_def l e c x Let_def)
  then obtain Q where Q: "pr_plugins Q = pr_plugins P" "init_dns_and_services W s Q = Ret (Inr a, P')"
    using i that[of "P\<lparr>pr_scopes := lr_scopes ?r, pr_context := ctx\<rparr>"]
    by (simp add: init_with_config_def l e c x Let_def)
  let ?dns = "init_dns_resolver (iw_resolv_is_file W) (iw_resolv_conf W)
    (get_consumer_api (iw_new_consumer W) (pr_context Q)) (pr_plugins Q) s"
  obtain dns store destroyed where d: "?dns = Ret (dns, store, destroyed)"
    using Q(2) by (cases ?dns) (auto simp: init_dns_and_services_def)
  obtain svr where svr: "dns = Inr svr"
    using Q(2) by (cases dns) (simp_all add: init_dns_and_services_def d)
  obtain r where r: "init_services W s svr = Ret r"
    using Q(2) by (cases "init_services W s svr") (simp_all add: init_dns_and_services_def d svr)
  have "r = Inr a" "P' = Q\<lparr>pr_plugins := store\<rparr>"
    using Q(2) by (simp_all add: init_dns_and_services_def d svr r)
  moreover have "ba_dns a = svr"
  proof -
    obtain m where "init_mtls_agent W s = Inr m"
      using r \<open>r = Inr a\<close> by (cases "init_mtls_agent W s") (auto simp: init_services_def go_bind_Ret_iff)
    then show ?thesis
      using r \<open>r = Inr a\<close> by (auto simp: init_services_def go_bind_Ret_iff)
  qed
  ultimately show ?thesis
    using d svr Q(1) by auto
qed

lemma init_dns_resolver_server:
  assumes "init_dns_resolver isf conf gc store s = Ret (Inr svr, store', destroyed)" and "those (sd_resolvers s) = Some entries"
  shows "init_resolvers gc entries [] store = (Inr (sv_resolvers (fst svr)), store', destroyed) \<and>
    length (sv_dns_servers (fst svr)) = 2 \<and>
    (\<forall>i < 2. ds_handler (sv_dns_servers (fst svr) ! i) =
       \<lparr>dh_protocol = (if i = 0 then UdpProtocol else TcpProtocol), dh_resolvers = sv_resolvers (fst svr)\<rparr>)"
  using assms by (auto simp: init_dns_resolver_def new_server_def Let_def less_Suc_eq numeral_2_eq_2
      split: option.splits sum.splits prod.splits if_splits)

text \<open>Every plugin of the registry stays under its own name.\<close>

definition well_named :: "plugin_store \<Rightarrow> bool" where
  "well_named store \<longleftrightarrow> (\<forall>n p. store n = Some p \<longrightarrow> plugin_name p = n)"

lemma plugin_initialize_name: "plugin_initialize gc c p = (p', err) \<Longrightarrow> plugin_name p' = plugin_name p"
  by (auto simp: plugin_initialize_def map_prod_def split: plugin.splits prod.splits)

lemma init_resolvers_well_named:
  "init_resolvers gc cfgs hs store = (res, store', destroyed) \<Longrightarrow> well_named store \<Longrightarrow> well_named store'"
proof (induction cfgs arbitrary: hs store)
  case (Cons cfg cfgs)
  show ?case
  proof (cases "ce_enable cfg")
    case False
    with Cons show ?thesis by simp
  next
    case True
    show ?thesis
    proof (cases "store (ce_name cfg)")
      case None
      with Cons.prems True show ?thesis by (simp add: name_resolver_def)
    next
      case (Some h)
      obtain h' err where i: "plugin_initialize gc cfg h = (h', err)" by fastforce
      have w: "well_named (store(ce_name cfg \<mapsto> h'))"
        using Cons.prems(2) Some plugin_initialize_name[OF i] by (auto simp: well_named_def)
      with Cons True Some i show ?thesis
        by (cases err) (auto simp: name_resolver_def)
    qed
  qed
qed simp

lemma well_named_initial: "well_named initial_plugins"
  by (auto simp: well_named_def initial_plugins_def register_def split: if_splits)

text \<open>The plugin of an enabled entry that is the last of its name is the one initialised with that entry.\<close>

lemma enabled_plugin:
  assumes "init_resolvers gc cfgs hs store = (Inr names, store', destroyed)" and "well_named store"
    and "enabled cfgs = pre @ c # post" and "ce_name c \<notin> ce_name ` set post"
  obtains p p' where "store' (ce_name c) = Some p'" "plugin_name p' = ce_name c" "plugin_name p = ce_name c"
    "plugin_initialize gc c p = (p', None)"
proof -
  obtain p p' where p: "store' (ce_name c) = Some p'" "plugin_initialize gc c p = (p', None)"
    using init_resolvers_plugins[OF assms(1)] assms(3,4) unfolding initialized_with_def by blast
  moreover have "plugin_name p' = ce_name c"
    using init_resolvers_well_named[OF assms(1,2)] p(1) by (simp add: well_named_def)
  ultimately show ?thesis
    using that plugin_initialize_name by metis
qed

definition mesh_ready :: "resolver_mesh \<Rightarrow> bool" where
  "mesh_ready r \<longleftrightarrow> rm_config r \<noteq> None \<and> rm_registry r \<noteq> None \<and> rm_local r \<noteq> None"

lemma initialized_mesh_ready: "plugin_initialize gc c p = (PlugMesh r, None) \<Longrightarrow> mesh_ready r"
  by (cases p) (auto simp: plugin_initialize_def map_prod_def mesh_ready_def split: prod.splits
      dest!: mesh_initialize_local)

lemma plugin_initialize_kinds:
  "plugin_initialize gc c (PlugMesh r) = (PlugMesh r', None) \<Longrightarrow> \<exists>e. mesh_initialize e c r = (r', None)"
  "plugin_initialize gc c (PlugAgent a) = (PlugAgent a', None) \<Longrightarrow> dnsagent_initialize gc c a = (a', None)"
  by (auto simp: plugin_initialize_def map_prod_def split: prod.splits)

lemma last_of_name: "n \<in> f ` set xs \<Longrightarrow> \<exists>pre c post. xs = pre @ c # post \<and> f c = n \<and> n \<notin> f ` set post"
  using split_list_last_prop[of xs "\<lambda>x. f x = n"] by (auto simp: image_iff) metis

lemma enabled_plugins_ready:
  assumes "init_resolvers gc cfgs hs store = (Inr names, store', destroyed)" and "well_named store"
    and "n \<in> ce_name ` set (enabled cfgs)"
  shows "\<exists>p. store' n = Some p \<and> plugin_name p = n \<and> (\<forall>r. p = PlugMesh r \<longrightarrow> mesh_ready r)"
proof -
  obtain pre c post where c: "enabled cfgs = pre @ c # post" "ce_name c = n" "n \<notin> ce_name ` set post"
    using last_of_name[OF assms(3)] by blast
  obtain p p' where "store' n = Some p'" "plugin_name p' = n" "plugin_initialize gc c p = (p', None)"
    using enabled_plugin[OF assms(1,2) c(1)] c(2,3) by metis
  then show ?thesis
    using initialized_mesh_ready by blast
qed

text \<open>Starting them makes one goroutine for each time the mesh plugin is configured.\<close>

lemma start_plugins_ready:
  assumes "\<forall>n \<in> set names. \<exists>p. store n = Some p \<and> plugin_name p = n \<and> (\<forall>r. p = PlugMesh r \<longrightarrow> mesh_ready r)"
  shows "start_plugins (List.map_filter store names) reloaders =
    Ret (reloaders @ replicate (count_list names PluginNameMeshProxy) [])"
  using assms
proof (induction names arbitrary: reloaders)
  case (Cons n names)
  then obtain p where p: "store n = Some p" "plugin_name p = n" "\<forall>r. p = PlugMesh r \<longrightarrow> mesh_ready r"
    by auto
  with Cons show ?case
    by (cases p) (auto simp: map_filter_simps plugin_start_def mesh_ready_def)
qed (simp add: map_filter_simps)

text \<open>An initialised mesh plugin stays initialised; the process panics at a reload only for the interval of its ticker.\<close>

lemma serving_run_panics:
  assumes "serving_run L server_ns ex svr es st = Panic p"
    and "sg_store st PluginNameMeshProxy = Some (PlugMesh r)"
    and "rm_config r = Some cfg" "rm_registry r = Some reg" "rm_local r = Some srv"
  shows "p = NonPositiveTicker \<and> reload_interval cfg \<le>s 0"
  using assms
proof (induction es arbitrary: st r srv)
  case (Cons e es)
  show ?case
  proof (cases e)
    case (Query i tcp req)
    obtain sent st1 where q: "query_step L server_ns ex svr i tcp req st = (sent, st1)" by fastforce
    have "sg_store st1 = sg_store st"
      using q by (auto simp: query_step_def Let_def split: if_splits prod.splits)
    moreover have "serving_run L server_ns ex svr es st1 = Panic p"
      using Cons.prems(1) by (auto simp: Query q go_bind_Panic_iff)
    ultimately show ?thesis
      using Cons.IH Cons.prems by simp
  next
    case (Reload k call)
    show ?thesis
    proof (cases "k < length (sg_reloaders st) \<and> \<not> reload_interval cfg \<le>s 0")
      case True
      let ?r = "r\<lparr>rm_local := Some (snd (mesh.receive (mc_dns_answer_ip cfg) (get_current_ns_service reg call)
        (sg_reloaders st ! k, srv)))\<rparr>"
      obtain nxt ch where "do_reload (sg_reloaders st ! k) call r = Ret ((nxt, ch), ?r)"
        using do_reload_receive[OF Cons.prems(4,5,3), of "sg_reloaders st ! k" call] by blast
      then obtain st1 where "reload_step k call st = Ret st1" "sg_store st1 PluginNameMeshProxy = Some (PlugMesh ?r)"
        using True Cons.prems(2,3) by (simp add: reload_step_def)
      with Cons.prems Cons.IH[of st1 ?r] Reload show ?thesis
        by simp
    next
      case False
      with Cons show ?thesis
        by (auto simp: Reload reload_step_def split: if_splits)
    qed
  qed
qed simp

lemma serving_run_no_reloader:
  "sg_reloaders st = [] \<Longrightarrow> serving_run L server_ns ex svr es st \<noteq> Panic p"
proof (induction es arbitrary: st)
  case (Cons e es)
  show ?case
  proof (cases e)
    case (Reload k call)
    have "reload_step k call st = Ret st"
      using Cons.prems by (auto simp: reload_step_def split: option.splits plugin.splits)
    with Cons Reload show ?thesis by simp
  next
    case (Query i tcp req)
    obtain sent st1 where q: "query_step L server_ns ex svr i tcp req st = (sent, st1)" by fastforce
    have "sg_reloaders st1 = []"
      using q Cons.prems by (auto simp: query_step_def Let_def split: if_splits prod.splits)
    from Cons.IH[OF this] show ?thesis
      by (auto simp: Query q go_bind_Panic_iff)
  qed
qed simp

text \<open>The query of a service, when the first resolver is the other plugin.\<close>

lemma query_step_agent:
  assumes "i < 2" and "length (sv_dns_servers svr) = 2"
    and "ds_handler (sv_dns_servers svr ! i) = \<lparr>dh_protocol = proto, dh_resolvers = PluginNameDnsAgent # names\<rparr>"
    and "sg_store st PluginNameDnsAgent = Some (PlugAgent r)"
    and "m_question req = [q]" and "q_type q = TypeA"
    and "dnsagent_serve L server_ns r q (preprocess (sg_proxy st) (q_name q)) = Ret (Some m)"
  shows "query_step L server_ns ex svr i tcp req st = (write_dns_response L proto req m [], st)"
  using assms by (simp add: query_step_def serve_dns_def serve_dns_body_def can_do_resolve_def map_filter_simps
      plugin_serve_def)

text \<open>A query for a host of the registry while the server runs.\<close>

lemma query_step_answer:
  assumes "i < 2" and "length (sv_dns_servers svr) = 2"
    and "ds_handler (sv_dns_servers svr ! i) = \<lparr>dh_protocol = proto, dh_resolvers = PluginNameMeshProxy # names\<rparr>"
    and "sg_store st PluginNameMeshProxy = Some (PlugMesh r)"
    and "m_question req = [q]" and "q_type q = TypeA"
    and "mesh_serve r q (preprocess (sg_proxy st) (q_name q)) = Ret (Some m)"
  shows "query_step L server_ns ex svr i tcp req st = (write_dns_response L proto req m [], st)"
  using assms by (simp add: query_step_def serve_dns_def serve_dns_body_def can_do_resolve_def map_filter_simps
      plugin_serve_def)

lemma agent_server:
  assumes "init_agent W boot P = Ret (Inr a, P')" and "pr_plugins P = initial_plugins"
    and "init_config (iw_env W) (iw_local_type W) (iw_decode W) (iw_file W) boot = Ret (Inr s)"
    and "those (sd_resolvers s) = Some entries"
  shows "server_run (ba_dns a) (pr_plugins P') = Ret \<lparr>sg_store = pr_plugins P', sg_proxy = snd (ba_dns a),
      sg_reloaders = replicate (count_list (map ce_name (enabled entries)) PluginNameMeshProxy) []\<rparr> \<and>
    length (sv_dns_servers (fst (ba_dns a))) = 2 \<and>
    (\<forall>i < 2. ds_handler (sv_dns_servers (fst (ba_dns a)) ! i) =
       \<lparr>dh_protocol = (if i = 0 then UdpProtocol else TcpProtocol), dh_resolvers = map ce_name (enabled entries)\<rparr>) \<and>
    (PluginNameMeshProxy \<in> ce_name ` set (enabled entries) \<longrightarrow>
       (\<exists>r. pr_plugins P' PluginNameMeshProxy = Some (PlugMesh r) \<and> mesh_ready r)) \<and>
    (\<forall>pre c post. enabled entries = pre @ c # post \<longrightarrow> ce_name c \<notin> ce_name ` set post \<longrightarrow>
       (\<exists>p p'. pr_plugins P' (ce_name c) = Some p' \<and> plugin_name p' = ce_name c \<and> plugin_name p = ce_name c \<and>
          plugin_initialize (get_consumer_api (iw_new_consumer W) (pr_context P')) c p = (p', None)))"
proof -
  let ?gc = "get_consumer_api (iw_new_consumer W) (pr_context P')"
  obtain destroyed where "init_dns_resolver (iw_resolv_is_file W) (iw_resolv_conf W) ?gc initial_plugins s =
      Ret (Inr (ba_dns a), pr_plugins P', destroyed)"
    using init_agent_dns[OF assms(1,3)] assms(2) by auto
  note svr = init_dns_resolver_server[OF this assms(4)]
  then have i: "init_resolvers ?gc entries [] initial_plugins = (Inr (sv_resolvers (fst (ba_dns a))), pr_plugins P', destroyed)"
    by blast
  have names: "sv_resolvers (fst (ba_dns a)) = map ce_name (enabled entries)"
    using init_resolvers_names[OF i] by simp
  have ready: "\<exists>p. pr_plugins P' n = Some p \<and> plugin_name p = n \<and> (\<forall>r. p = PlugMesh r \<longrightarrow> mesh_ready r)"
    if "n \<in> ce_name ` set (enabled entries)" for n
    using enabled_plugins_ready[OF i well_named_initial that] .
  then have "server_run (ba_dns a) (pr_plugins P') = Ret \<lparr>sg_store = pr_plugins P', sg_proxy = snd (ba_dns a),
      sg_reloaders = replicate (count_list (map ce_name (enabled entries)) PluginNameMeshProxy) []\<rparr>"
    by (simp add: server_run_def names start_plugins_ready)
  moreover have "\<exists>r. pr_plugins P' PluginNameMeshProxy = Some (PlugMesh r) \<and> mesh_ready r"
    if mesh: "PluginNameMeshProxy \<in> ce_name ` set (enabled entries)"
  proof -
    obtain p where "pr_plugins P' PluginNameMeshProxy = Some p" "plugin_name p = PluginNameMeshProxy"
      "\<forall>r. p = PlugMesh r \<longrightarrow> mesh_ready r"
      using ready[OF mesh] by blast
    then show ?thesis
      by (cases p) auto
  qed
  moreover have "\<exists>p p'. pr_plugins P' (ce_name c) = Some p' \<and> plugin_name p' = ce_name c \<and> plugin_name p = ce_name c \<and>
      plugin_initialize ?gc c p = (p', None)"
    if "enabled entries = pre @ c # post" "ce_name c \<notin> ce_name ` set post" for pre c post
    using enabled_plugin[OF i well_named_initial that] by metis
  ultimately show ?thesis
    using svr names by simp
qed

lemma started_mesh_server:
  assumes "init_agent W boot P = Ret (Inr a, P')" and "pr_plugins P = initial_plugins"
    and "init_config (iw_env W) (iw_local_type W) (iw_decode W) (iw_file W) boot = Ret (Inr s)"
    and "those (sd_resolvers s) = Some entries" and "enabled entries = c # cs"
    and "ce_name c = PluginNameMeshProxy" and "PluginNameMeshProxy \<notin> ce_name ` set cs"
  shows "\<exists>e r r0. mesh_initialize e c r = (r0, None) \<and> pr_plugins P' PluginNameMeshProxy = Some (PlugMesh r0) \<and>
    server_run (ba_dns a) (pr_plugins P') = Ret \<lparr>sg_store = pr_plugins P', sg_proxy = snd (ba_dns a), sg_reloaders = [[]]\<rparr>"
proof -
  note agent = agent_server[OF assms(1-4)]
  have "ce_name c \<notin> ce_name ` set cs" "enabled entries = [] @ c # cs"
    using assms(5-7) by simp_all
  then obtain p p' where p: "pr_plugins P' (ce_name c) = Some p'" "plugin_name p' = ce_name c" "plugin_name p = ce_name c"
    "plugin_initialize (get_consumer_api (iw_new_consumer W) (pr_context P')) c p = (p', None)"
    using agent by blast
  then obtain r r0 where r: "p = PlugMesh r" "p' = PlugMesh r0"
    using assms(6) by (cases p; cases p') auto
  then obtain e where "mesh_initialize e c r = (r0, None)"
    using plugin_initialize_kinds(1) p(4) by blast
  with p(1) r agent assms(5-7) show ?thesis
    by (intro exI[of _ e] exI[of _ r] exI[of _ r0]) (auto simp: count_list_0_iff)
qed

text \<open>The address a configuration answers with.\<close>

lemma mesh_initialize_options:
  "mesh_initialize e c r = (r', None) \<Longrightarrow>
     \<exists>cfg. mesh_parse_options (ce_option c) = Inr cfg \<and> rm_config r' = Some (cfg\<lparr>mc_namespace := ce_namespace c\<rparr>)"
  by (auto simp: mesh_initialize_def Let_def split: sum.splits option.splits)

section \<open>Properties\<close>

text \<open>
  From the configuration to the answer on the wire. When the first enabled resolver of the configuration is the mesh
  plugin, configured once and with the suffix \<open>.\<close>, the server of the started agent runs; then, over any run of reloads
  and queries, the process panics only when the configured reload interval is not positive, and otherwise both listeners
  answer an A query for a host of the latest list of the registry with the configured address and TTL.
\<close>

theorem running_server_answers:
  assumes "init_agent W boot P = Ret (Inr a, P')" and "pr_plugins P = initial_plugins"
    and "init_config (iw_env W) (iw_local_type W) (iw_decode W) (iw_file W) boot = Ret (Inr s)"
    and "those (sd_resolvers s) = Some entries" and "enabled entries = c # cs"
    and "ce_name c = PluginNameMeshProxy" and "PluginNameMeshProxy \<notin> ce_name ` set cs" and "ce_suffix c = ''.''"
    and "i < 2" and "m_question req = [q]" and "q_type q = TypeA"
    and "to_lower (preprocess (snd (ba_dns a)) (q_name q)) \<in> registry_hosts (latest_value (calls_of 0 es))"
  shows "\<exists>cfg st0. mesh_parse_options (ce_option c) = Inr cfg \<and> server_run (ba_dns a) (pr_plugins P') = Ret st0 \<and>
    (case serving_run L server_ns ex (fst (ba_dns a)) es st0 of
       Panic p \<Rightarrow> p = NonPositiveTicker \<and> reload_interval cfg \<le>s 0
     | Ret (replies, st) \<Rightarrow>
         query_step L server_ns ex (fst (ba_dns a)) i tcp req st =
           (write_dns_response L (if i = 0 then UdpProtocol else TcpProtocol) req
              (empty_msg\<lparr>m_answer := [Some (RR_A
                 \<lparr>h_name = q_name q, h_rrtype = TypeA, h_class = ClassINET, h_ttl = word_of_int (ce_dns_ttl c)\<rparr>
                 (parse_ip (mc_dns_answer_ip cfg)))]\<rparr>) [], st))"
proof -
  obtain e r r0 where r0: "mesh_initialize e c r = (r0, None)" "pr_plugins P' PluginNameMeshProxy = Some (PlugMesh r0)"
    and run: "server_run (ba_dns a) (pr_plugins P') =
      Ret \<lparr>sg_store = pr_plugins P', sg_proxy = snd (ba_dns a), sg_reloaders = [[]]\<rparr>"
    using started_mesh_server[OF assms(1-7)] by blast
  have svr: "length (sv_dns_servers (fst (ba_dns a))) = 2"
    "ds_handler (sv_dns_servers (fst (ba_dns a)) ! i) =
       \<lparr>dh_protocol = (if i = 0 then UdpProtocol else TcpProtocol), dh_resolvers = PluginNameMeshProxy # map ce_name cs\<rparr>"
    using agent_server[OF assms(1-4)] assms(5,6,9) by auto
  let ?st0 = "\<lparr>sg_store = pr_plugins P', sg_proxy = snd (ba_dns a), sg_reloaders = [[]]\<rparr>"
  let ?calls = "calls_of 0 es"
  obtain cfg where cfg: "mesh_parse_options (ce_option c) = Inr cfg" "rm_config r0 = Some (cfg\<lparr>mc_namespace := ce_namespace c\<rparr>)"
    using mesh_initialize_options[OF r0(1)] by blast
  have interval: "reload_interval (cfg\<lparr>mc_namespace := ce_namespace c\<rparr>) = reload_interval cfg"
    by (simp add: reload_interval_def)
  show ?thesis
  proof (cases "serving_run L server_ns ex (fst (ba_dns a)) es ?st0")
    case (Panic p)
    obtain reg srv where "rm_registry r0 = Some reg" "rm_local r0 = Some srv"
      using mesh_initialize_local[OF r0(1)] by blast
    from serving_run_panics[OF Panic _ cfg(2) this] r0(2) cfg(1) run Panic interval show ?thesis
      by simp
  next
    case (Ret res)
    obtain replies st where res: "res = (replies, st)" by fastforce
    note ran = Ret[unfolded res]
    obtain cur r1 where r1: "reload_loop ?calls [] r0 = Ret (cur, r1)" "sg_store st PluginNameMeshProxy = Some (PlugMesh r1)"
      "?calls \<noteq> [] \<Longrightarrow> \<not> reload_interval cfg \<le>s 0"
      using serving_run_mesh[OF ran _ _ cfg(2)] r0(2) interval by auto
    have "?calls \<noteq> []"
      using assms(12) by (auto simp: latest_value_def registry_hosts_def)
    with r1(1,3) cfg(2) have start: "mesh_start ?calls r0 = Ret (cur, r1)"
      by (simp add: mesh_start_def reload_interval_def)
    have pre: "preprocess (sg_proxy st) (q_name q) = preprocess (snd (ba_dns a)) (q_name q)"
      using preprocess_config[OF serving_run_config[OF ran]] by simp
    have "snd (match_suffix (preprocess (sg_proxy st) (q_name q)) ''.'')"
      by (simp add: match_suffix_def add_quota_def Let_def)
    then have "mesh_serve r1 q (preprocess (sg_proxy st) (q_name q)) = Ret (Some (empty_msg\<lparr>m_answer := [Some (RR_A
         \<lparr>h_name = q_name q, h_rrtype = TypeA, h_class = ClassINET, h_ttl = word_of_int (ce_dns_ttl c)\<rparr>
         (parse_ip (mc_dns_answer_ip cfg)))]\<rparr>))"
      using mesh_start_serve[OF r0(1) start, of q "preprocess (sg_proxy st) (q_name q)"] cfg(2) assms(8,11,12) pre
      by (auto simp del: to_lower_append)
    from query_step_answer[OF assms(9) svr r1(2) assms(10,11) this] cfg(1) run ran show ?thesis
      by (intro exI[of _ cfg] exI[of _ ?st0]) simp
  qed
qed

text \<open>
  C8. The same for the plugin \<open>dnsagent\<close> as the first enabled resolver, without route labels: the server of the started
  agent runs; over any run of reloads and queries the process panics only for the ticker of a reload goroutine, and both
  listeners answer an A query with the addresses of the instances the SDK returns for the service and namespace the
  name stands for, with the configured TTL.
\<close>

theorem running_server_resolves:
  assumes "init_agent W boot P = Ret (Inr a, P')" and "pr_plugins P = initial_plugins"
    and "init_config (iw_env W) (iw_local_type W) (iw_decode W) (iw_file W) boot = Ret (Inr s)"
    and "those (sd_resolvers s) = Some entries" and "enabled entries = c # cs"
    and "ce_name c = PluginNameDnsAgent" and "PluginNameDnsAgent \<notin> ce_name ` set cs"
    and "dnsagent_parse_options (ce_option c) = Inr \<lparr>dc_route_labels_map = None, dc_route_labels = []\<rparr>"
    and "i < 2" and "m_question req = [q]" and "q_type q = TypeA"
    and "addr_index (lib_split_domain L (preprocess (snd (ba_dns a)) (q_name q))) = None"
    and "parse_qname server_ns (preprocess (snd (ba_dns a)) (q_name q)) (add_quota (ce_suffix c)) (ce_namespace c) = Some k"
    and "pr_context P' = Some ctx"
    and "iw_new_consumer W ctx \<lparr>ir_namespace = key_namespace k, ir_service = key_service k, ir_source_labels = None\<rparr> = Inr ins"
    and "ins \<noteq> []"
  shows "\<exists>st0. server_run (ba_dns a) (pr_plugins P') = Ret st0 \<and>
    (case serving_run L server_ns ex (fst (ba_dns a)) es st0 of
       Panic p \<Rightarrow> p = NonPositiveTicker \<and> PluginNameMeshProxy \<in> ce_name ` set cs
     | Ret (replies, st) \<Rightarrow>
         query_step L server_ns ex (fst (ba_dns a)) i tcp req st =
           (write_dns_response L (if i = 0 then UdpProtocol else TcpProtocol) req
              (empty_msg\<lparr>m_answer := map (\<lambda>ins. Some (RR_A
                 \<lparr>h_name = q_name q, h_rrtype = TypeA, h_class = ClassINET, h_ttl = word_of_int (ce_dns_ttl c)\<rparr>
                 (parse_ip (in_host ins)))) ins\<rparr>) [], st))"
proof -
  note agent = agent_server[OF assms(1-4)]
  have svr: "length (sv_dns_servers (fst (ba_dns a))) = 2"
    "ds_handler (sv_dns_servers (fst (ba_dns a)) ! i) =
       \<lparr>dh_protocol = (if i = 0 then UdpProtocol else TcpProtocol), dh_resolvers = PluginNameDnsAgent # map ce_name cs\<rparr>"
    using agent assms(5,6,9) by auto
  let ?st0 = "\<lparr>sg_store = pr_plugins P', sg_proxy = snd (ba_dns a),
      sg_reloaders = replicate (count_list (map ce_name (enabled entries)) PluginNameMeshProxy) []\<rparr>"
  have run: "server_run (ba_dns a) (pr_plugins P') = Ret ?st0"
    using agent by blast
  show ?thesis
  proof (cases "serving_run L server_ns ex (fst (ba_dns a)) es ?st0")
    case (Panic p)
    then have "sg_reloaders ?st0 \<noteq> []"
      using serving_run_no_reloader by blast
    then have mesh: "PluginNameMeshProxy \<in> ce_name ` set cs"
      using assms(5,6) by (auto simp: count_list_0_iff split: if_splits)
    then obtain r where "pr_plugins P' PluginNameMeshProxy = Some (PlugMesh r)" "mesh_ready r"
      using agent assms(5) by auto
    then have "p = NonPositiveTicker"
      using serving_run_panics[OF Panic, of r] by (auto simp: mesh_ready_def)
    with mesh run Panic show ?thesis by simp
  next
    case (Ret res)
    obtain replies st where res: "res = (replies, st)" by fastforce
    note ran = Ret[unfolded res]
    have "ce_name c \<notin> ce_name ` set cs" "enabled entries = [] @ c # cs"
      using assms(5-7) by simp_all
    then obtain p p' where p: "pr_plugins P' (ce_name c) = Some p'" "plugin_name p' = ce_name c" "plugin_name p = ce_name c"
      "plugin_initialize (get_consumer_api (iw_new_consumer W) (pr_context P')) c p = (p', None)"
      using agent by blast
    then obtain r0 r where r: "p = PlugAgent r0" "p' = PlugAgent r"
      using assms(6) by (cases p; cases p') auto
    then have init: "dnsagent_initialize (Inr (iw_new_consumer W ctx)) c r0 = (r, None)"
      using plugin_initialize_kinds(2) p(4) assms(14) by (auto simp: get_consumer_api_def)
    have agent_state: "rd_config r = Some \<lparr>dc_route_labels_map = None, dc_route_labels = []\<rparr>"
      "rd_consumer r = Some (iw_new_consumer W ctx)" "rd_suffix r = add_quota (ce_suffix c)" "rd_dns_ttl r = ce_dns_ttl c"
      "rd_namespace r = ce_namespace c"
      using init assms(8) by (auto simp: dnsagent_initialize_def Let_def)
    have pre: "preprocess (sg_proxy st) (q_name q) = preprocess (snd (ba_dns a)) (q_name q)"
      using preprocess_config[OF serving_run_config[OF ran]] by simp
    have "sg_store st PluginNameDnsAgent = Some (PlugAgent r)"
      using serving_run_agent[OF ran, of PluginNameDnsAgent] p(1) r(2) assms(6) by simp
    from query_step_agent[OF assms(9) svr this assms(10,11)]
      serve_instances[OF assms(12) _ agent_state(1,2), of server_ns k ins q] assms(11,13,15,16) agent_state pre ran run
    show ?thesis
      by (intro exI[of _ ?st0]) (simp add: mark_record_def)
  qed
qed

text \<open>For the witnesses: a run whose panics are excluded returns.\<close>

lemma run_returns:
  assumes "\<exists>st0. A st0 \<and> (case R st0 of Panic p \<Rightarrow> N p | Ret (replies, st) \<Rightarrow> Q st)" and "\<And>p. \<not> N p"
  shows "\<exists>st0 replies st. A st0 \<and> R st0 = Ret (replies, st) \<and> Q st"
proof -
  obtain st0 where "A st0" "case R st0 of Panic p \<Rightarrow> N p | Ret (replies, st) \<Rightarrow> Q st"
    using assms(1) by blast
  with assms(2) show ?thesis
    by (cases "R st0") (auto split: prod.splits)
qed

definition served_entry :: config_entry where
  "served_entry = started_mesh_entry\<lparr>ce_enable := True\<rparr>"

definition served_config :: sidecar_config where
  "served_config = started_config\<lparr>sd_resolvers := [Some served_entry], sd_dns_enabled := False, sd_mesh_enabled := True\<rparr>"

definition served_init :: "unit init_world" where
  "served_init = sample_init\<lparr>iw_file := Inr (Some ''resolvers: ...''),
     iw_decode := (\<lambda>d s. Inr (s\<lparr>sd_resolvers := [Some served_entry]\<rparr>))\<rparr>"

lemma served_config_read:
  "init_config no_env ''local'' (\<lambda>d s. Inr (s\<lparr>sd_resolvers := [Some served_entry]\<rparr>)) (Inr (Some ''resolvers: ...'')) empty_boot =
     Ret (Inr served_config)"
  by (simp add: init_config_def merge_file_config_def merge_env_def merge_location_env_def merge_mesh_env_def
      merge_resolver_env_def merge_boot_config_def merge_boot_address_def set_log_level_def merge_boot_recurse_def
      merge_boot_resolvers_def verify_def verify_logger_def level_tables verify_entry_def entry_flags_def merge_logger_env_def
      default_sidecar_config_def empty_boot_def multi_error_def started_config_def started_logger_def
      parse_yaml_content_def served_config_def served_entry_def started_mesh_entry_def Let_def)

lemma served_mesh_init: "\<exists>r'. mesh_initialize None served_entry r = (r', None)"
  by (simp add: mesh_initialize_def served_entry_def started_mesh_entry_def mesh_parse_options_def json_options_def
      mesh_field_def int64_range_def to_lower_def lower_char_def char_eval Let_def)

lemma served_dns:
  "\<exists>svr store. init_dns_resolver False (Inl (LibError ''no file'')) (Inr (\<lambda>req. Inr [])) initial_plugins served_config =
     Ret (Inr (svr, None), store, [])"
proof -
  obtain r' where "mesh_initialize None served_entry zero_mesh = (r', None)"
    using served_mesh_init by blast
  moreover have "ce_enable served_entry" "ce_name served_entry = PluginNameMeshProxy"
    by (simp_all add: served_entry_def started_mesh_entry_def)
  ultimately show ?thesis
    by (simp add: init_dns_resolver_def served_config_def started_config_def default_sidecar_config_def new_server_def
      name_resolver_def initial_plugins_def register_def plugin_initialize_def build_proxy_def Let_def)
qed

lemma served_process_starts:
  "\<exists>a P'. init_agent served_init empty_boot sample_process = Ret (Inr a, P') \<and> snd (ba_dns a) = None"
proof -
  obtain svr store where "init_dns_resolver (iw_resolv_is_file served_init) (iw_resolv_conf served_init)
      (Inr (iw_new_consumer served_init ())) initial_plugins served_config = Ret (Inr (svr, None), store, [])"
    using served_dns by (auto simp: served_init_def sample_init_def)
  from sample_agent_starts[OF _ _ _ _ _ _ _ _ this, of empty_boot sample_process] served_config_read show ?thesis
    by (fastforce simp: served_init_def sample_init_def sample_process_def served_config_def started_config_def
        default_sidecar_config_def is_mesh_mtls_enabled_def)
qed

theorem running_server_answers_witness:
  "\<exists>a P' cfg st0 replies st m. init_agent served_init empty_boot sample_process = Ret (Inr a, P') \<and>
     server_run (ba_dns a) (pr_plugins P') = Ret st0 \<and>
     serving_run sample_lib ''Polaris'' sample_exchange (fst (ba_dns a))
       [Reload 0 (\<lambda>b. Inr [\<lparr>key_namespace = ''svc'', key_service = ''db''\<rparr>]), Query 0 False web_query, Reload 0 (\<lambda>b. Inl (LibError ''timeout''))] st0 =
       Ret (replies, st) \<and>
     query_step sample_lib ''Polaris'' sample_exchange (fst (ba_dns a)) 1 True
       (empty_msg\<lparr>m_question := [sample_question TypeA ''DB.svc.'']\<rparr>) st = ([m], st) \<and> length (m_answer m) = 1"
proof -
  obtain a P' where a: "init_agent served_init empty_boot sample_process = Ret (Inr a, P')" "snd (ba_dns a) = None"
    using served_process_starts by blast
  let ?es = "[Reload 0 (\<lambda>b. Inr [\<lparr>key_namespace = ''svc'', key_service = ''db''\<rparr>]), Query 0 False web_query, Reload 0 (\<lambda>b. Inl (LibError ''timeout''))]"
  let ?q = "sample_question TypeA ''DB.svc.''"
  let ?req = "empty_msg\<lparr>m_question := [?q]\<rparr>"
  have host: "to_lower (preprocess (snd (ba_dns a)) (q_name ?q)) \<in> registry_hosts (latest_value (calls_of 0 ?es))"
    by (simp add: a(2) preprocess_def sample_question_def latest_value_def registry_hosts_def to_lower_def lower_char_def
        char_eval)
  have pre: "pr_plugins sample_process = initial_plugins"
    "init_config (iw_env served_init) (iw_local_type served_init) (iw_decode served_init) (iw_file served_init) empty_boot =
      Ret (Inr served_config)"
    using served_config_read by (simp_all add: sample_process_def served_init_def sample_init_def)
  have entries: "those (sd_resolvers served_config) = Some [served_entry]"
    by (simp add: served_config_def)
  have e: "enabled [served_entry] = [served_entry]" "ce_name served_entry = PluginNameMeshProxy"
    "ce_suffix served_entry = ''.''" "m_question ?req = [?q]" "q_type ?q = TypeA"
    by (simp_all add: served_entry_def started_mesh_entry_def sample_question_def)
  obtain cfg st0 where cfg: "mesh_parse_options (ce_option served_entry) = Inr cfg"
    and st0: "server_run (ba_dns a) (pr_plugins P') = Ret st0"
    and run: "case serving_run sample_lib ''Polaris'' sample_exchange (fst (ba_dns a)) ?es st0 of
       Panic p \<Rightarrow> p = NonPositiveTicker \<and> reload_interval cfg \<le>s 0
     | Ret (replies, st) \<Rightarrow>
         query_step sample_lib ''Polaris'' sample_exchange (fst (ba_dns a)) 1 True ?req st =
           (write_dns_response sample_lib (if 1 = (0::nat) then UdpProtocol else TcpProtocol) ?req
              (empty_msg\<lparr>m_answer := [Some (RR_A
                 \<lparr>h_name = q_name ?q, h_rrtype = TypeA, h_class = ClassINET, h_ttl = word_of_int (ce_dns_ttl served_entry)\<rparr>
                 (parse_ip (mc_dns_answer_ip cfg)))]\<rparr>) [], st)"
    using running_server_answers[OF a(1) pre entries e(1-2) _ e(3) _ e(4-5) host, of 1 sample_lib "''Polaris''"
        sample_exchange True]
    by fastforce
  have "mc_reload_interval_sec cfg = 30"
    using cfg by (simp add: served_entry_def started_mesh_entry_def mesh_parse_options_def json_options_def
      mesh_field_def int64_range_def to_lower_def lower_char_def char_eval Let_def) auto
  then have "\<not> reload_interval cfg \<le>s 0"
    by (simp add: reload_interval_def word_sle_eq)
  with run obtain replies st where "serving_run sample_lib ''Polaris'' sample_exchange (fst (ba_dns a)) ?es st0 = Ret (replies, st)"
    by (cases "serving_run sample_lib ''Polaris'' sample_exchange (fst (ba_dns a)) ?es st0") auto
  moreover have "\<exists>m. write_dns_response sample_lib proto ?req (empty_msg\<lparr>m_answer := [rr]\<rparr>) [] = [m] \<and> length (m_answer m) = 1"
    for proto rr
    by (simp add: write_dns_response_def sample_lib_def empty_msg_def Let_def)
  ultimately show ?thesis
    using a(1) st0 run by simp
qed

text \<open>The default configuration, without file, environment and flags.\<close>

theorem running_server_resolves_witness:
  "\<exists>a P' st0 replies st m. init_agent (sample_init\<lparr>iw_new_consumer := (\<lambda>ctx req. Inr [sample_instance])\<rparr>) empty_boot
       sample_process = Ret (Inr a, P') \<and> server_run (ba_dns a) (pr_plugins P') = Ret st0 \<and>
     serving_run sample_lib ''Polaris'' sample_exchange (fst (ba_dns a)) [Query 1 True web_query, Reload 0 (\<lambda>b. Inr [])] st0 =
       Ret (replies, st) \<and>
     query_step sample_lib ''Polaris'' sample_exchange (fst (ba_dns a)) 0 False
       (empty_msg\<lparr>m_question := [sample_question TypeA ''web.prod.'']\<rparr>) st = ([m], st) \<and> length (m_answer m) = 1"
proof -
  let ?W = "sample_init\<lparr>iw_new_consumer := (\<lambda>ctx req. Inr [sample_instance])\<rparr>"
  let ?es = "[Query 1 True web_query, Reload 0 (\<lambda>b. Inr [])]"
  let ?q = "sample_question TypeA ''web.prod.''"
  let ?req = "empty_msg\<lparr>m_question := [?q]\<rparr>"
  obtain a P' where a: "init_agent ?W empty_boot sample_process = Ret (Inr a, P')" "snd (ba_dns a) = None"
    "pr_context P' = Some ()"
    using sample_process_starts_with by blast
  have pre: "pr_plugins sample_process = initial_plugins"
    "init_config (iw_env ?W) (iw_local_type ?W) (iw_decode ?W) (iw_file ?W) empty_boot = Ret (Inr started_config)"
    using default_config_started by (simp_all add: sample_process_def sample_init_def)
  have entries: "those (sd_resolvers started_config) = Some [started_agent_entry, started_mesh_entry]"
    by (simp add: started_config_def)
  have e: "enabled [started_agent_entry, started_mesh_entry] = [started_agent_entry]"
    "ce_name started_agent_entry = PluginNameDnsAgent"
    "dnsagent_parse_options (ce_option started_agent_entry) = Inr \<lparr>dc_route_labels_map = None, dc_route_labels = []\<rparr>"
    "m_question ?req = [?q]" "q_type ?q = TypeA"
    by (simp_all add: started_agent_entry_def started_mesh_entry_def sample_question_def dnsagent_parse_options_def)
  have name: "addr_index (lib_split_domain sample_lib (preprocess (snd (ba_dns a)) (q_name ?q))) = None"
    "parse_qname ''Polaris'' (preprocess (snd (ba_dns a)) (q_name ?q)) (add_quota (ce_suffix started_agent_entry))
       (ce_namespace started_agent_entry) = Some \<lparr>key_namespace = ''prod'', key_service = ''web''\<rparr>"
    using sample_web_name
    by (simp_all add: a(2) preprocess_def sample_question_def started_agent_entry_def add_quota_def has_suffix_def)
  have ins: "iw_new_consumer ?W () \<lparr>ir_namespace = key_namespace \<lparr>key_namespace = ''prod'', key_service = ''web''\<rparr>,
      ir_service = key_service \<lparr>key_namespace = ''prod'', key_service = ''web''\<rparr>, ir_source_labels = None\<rparr> = Inr [sample_instance]"
    by simp
  have side: "PluginNameDnsAgent \<notin> ce_name ` set ([] :: config_entry list)" "(0 :: nat) < 2" "[sample_instance] \<noteq> []"
    by simp_all
  note main = running_server_resolves[OF a(1) pre entries e(1,2) side(1) e(3) side(2) e(4,5) name a(3) ins side(3),
      where ex = sample_exchange and es = ?es and tcp = False]
  have "\<exists>st0 replies st. server_run (ba_dns a) (pr_plugins P') = Ret st0 \<and>
      serving_run sample_lib ''Polaris'' sample_exchange (fst (ba_dns a)) ?es st0 = Ret (replies, st) \<and>
      query_step sample_lib ''Polaris'' sample_exchange (fst (ba_dns a)) 0 False ?req st =
        (write_dns_response sample_lib (if 0 = (0::nat) then UdpProtocol else TcpProtocol) ?req
           (empty_msg\<lparr>m_answer := map (\<lambda>ins. Some (RR_A
              \<lparr>h_name = q_name ?q, h_rrtype = TypeA, h_class = ClassINET, h_ttl = word_of_int (ce_dns_ttl started_agent_entry)\<rparr>
              (parse_ip (in_host ins)))) [sample_instance]\<rparr>) [], st)"
    by (rule run_returns[OF main]) simp
  then obtain st0 replies st where run: "server_run (ba_dns a) (pr_plugins P') = Ret st0"
    "serving_run sample_lib ''Polaris'' sample_exchange (fst (ba_dns a)) ?es st0 = Ret (replies, st)"
    "query_step sample_lib ''Polaris'' sample_exchange (fst (ba_dns a)) 0 False ?req st =
       (write_dns_response sample_lib UdpProtocol ?req (empty_msg\<lparr>m_answer := [Some (RR_A
          \<lparr>h_name = q_name ?q, h_rrtype = TypeA, h_class = ClassINET, h_ttl = word_of_int (ce_dns_ttl started_agent_entry)\<rparr>
          (parse_ip (in_host sample_instance)))]\<rparr>) [], st)"
    by (simp only: list.map if_True refl) metis
  moreover have "\<exists>m. write_dns_response sample_lib proto ?req (empty_msg\<lparr>m_answer := [rr]\<rparr>) [] = [m] \<and> length (m_answer m) = 1"
    for proto rr
    by (simp add: write_dns_response_def sample_lib_def empty_msg_def Let_def)
  ultimately show ?thesis
    using a(1) run by metis
qed

end
