(* ===== verification/Forwarding.thy ===== *)
theory Forwarding
  imports Recursor
begin

text \<open>
  The recursor under concurrent queries (\<open>src/internal/resolver/recursor/proxy.go\<close>): the DNS library runs
  \<open>HandleDNS\<close> of every query in a goroutine of its own, and all of them share one rotating upstream, whose \<open>Next\<close> holds
  a lock. A state has the control point of each query; a step moves one of them.
\<close>

section \<open>States and steps\<close>

text \<open>
  Where a query is: at the top of the loop over the names, with the names left; at the top of the loop over the
  attempts, with the attempts left, the request and the names left; waiting for the answer of an upstream; returned;
  ended by a panic, which the handler recovers.
\<close>

datatype forward_pc =
    AtDomains "string list"
  | AtAttempts nat dns_msg "string list"
  | Exchanging nat dns_msg string "string list"
  | Returns "dns_msg option"
  | Crashed go_panic

record worker =
  wk_query :: dns_msg
  wk_client :: dns_client
  wk_pc :: forward_pc
  wk_sent :: "query list"

text \<open>The upstreams handed out by \<open>Next\<close> are recorded with the query that got them.\<close>

record forwarding =
  fw_proxy :: proxy
  fw_workers :: "nat \<rightharpoonup> worker"
  fw_turns :: "(nat \<times> string) list"

datatype forward_event =
    Arrive nat bool dns_msg
  | Control nat
  | TakeTurn nat
  | Answered nat "dns_msg option" "go_error option"

definition forwarding_of :: "proxy \<Rightarrow> forwarding" where
  "forwarding_of p = \<lparr>fw_proxy = p, fw_workers = Map.empty, fw_turns = []\<rparr>"

definition new_worker :: "proxy \<Rightarrow> bool \<Rightarrow> dns_msg \<Rightarrow> worker" where
  "new_worker p remote_tcp r = \<lparr>wk_query = r, wk_client = query_client remote_tcp p,
     wk_pc = (case m_question r of
                [] \<Rightarrow> Crashed IndexOutOfRange
              | q # _ \<Rightarrow> AtDomains (expand_query p (q_name q))),
     wk_sent = []\<rparr>"

text \<open>The loop heads.\<close>

fun loop_head :: "proxy \<Rightarrow> dns_msg \<Rightarrow> forward_pc \<Rightarrow> forward_pc option" where
  "loop_head p r (AtDomains []) = Some (Returns None)"
| "loop_head p r (AtDomains (d # ds)) = Some (AtAttempts (nat (rc_attempts (px_config p))) (set_qname d r) ds)"
| "loop_head p r (AtAttempts 0 req ds) = Some (AtDomains ds)"
| "loop_head p r pc = None"

text \<open>\<open>Next\<close>, under its lock, and the start of the exchange.\<close>

definition take_turn :: "nat \<Rightarrow> worker \<Rightarrow> forwarding \<Rightarrow> forwarding option" where
  "take_turn i w s =
     (case wk_pc w of
        AtAttempts (Suc n) req ds \<Rightarrow>
          (case rotate_next (px_rotate (fw_proxy s)) of
             Panic e \<Rightarrow> Some (s\<lparr>fw_workers := (fw_workers s)(i \<mapsto> w\<lparr>wk_pc := Crashed e\<rparr>)\<rparr>)
           | Ret (upstream, ro) \<Rightarrow>
               Some (s\<lparr>fw_proxy := (fw_proxy s)\<lparr>px_rotate := ro\<rparr>,
                  fw_workers := (fw_workers s)(i \<mapsto> w\<lparr>wk_pc := Exchanging n req upstream ds,
                    wk_sent := wk_sent w @ [(req, upstream)]\<rparr>),
                  fw_turns := fw_turns s @ [(i, upstream)]\<rparr>))
      | _ \<Rightarrow> None)"

definition after_answer :: "dns_msg option \<Rightarrow> go_error option \<Rightarrow> forward_pc \<Rightarrow> forward_pc option" where
  "after_answer resp err pc =
     (case pc of
        Exchanging n req upstream ds \<Rightarrow>
          Some (if returns_response resp err then Returns resp else AtAttempts n req ds)
      | _ \<Rightarrow> None)"

definition move_worker :: "nat \<Rightarrow> (worker \<Rightarrow> forward_pc option) \<Rightarrow> forwarding \<Rightarrow> forwarding option" where
  "move_worker i f s =
     (case fw_workers s i of
        None \<Rightarrow> None
      | Some w \<Rightarrow> map_option (\<lambda>pc. s\<lparr>fw_workers := (fw_workers s)(i \<mapsto> w\<lparr>wk_pc := pc\<rparr>)\<rparr>) (f w))"

fun forward_step :: "forward_event \<Rightarrow> forwarding \<Rightarrow> forwarding option" where
  "forward_step (Arrive i tcp r) s =
     (case fw_workers s i of
        Some w \<Rightarrow> None
      | None \<Rightarrow> Some (s\<lparr>fw_workers := (fw_workers s)(i \<mapsto> new_worker (fw_proxy s) tcp r)\<rparr>))"
| "forward_step (Control i) s = move_worker i (\<lambda>w. loop_head (fw_proxy s) (wk_query w) (wk_pc w)) s"
| "forward_step (TakeTurn i) s = Option.bind (fw_workers s i) (\<lambda>w. take_turn i w s)"
| "forward_step (Answered i resp err) s = move_worker i (\<lambda>w. after_answer resp err (wk_pc w)) s"

fun forward_run :: "forward_event list \<Rightarrow> forwarding \<Rightarrow> forwarding option" where
  "forward_run [] s = Some s"
| "forward_run (e # es) s = (case forward_step e s of None \<Rightarrow> None | Some s' \<Rightarrow> forward_run es s')"

inductive forward_reach :: "forwarding \<Rightarrow> forwarding \<Rightarrow> bool" for s0 where
  start: "forward_reach s0 s0"
| step: "forward_reach s0 s \<Longrightarrow> forward_step e s = Some s' \<Longrightarrow> forward_reach s0 s'"

lemma forward_run_reach: "forward_run es s = Some s' \<Longrightarrow> forward_reach s0 s \<Longrightarrow> forward_reach s0 s'"
  by (induction es arbitrary: s) (auto split: option.splits intro: forward_reach.step)

lemma forward_run_append:
  "forward_run (es @ es') s = Option.bind (forward_run es s) (forward_run es')"
  by (induction es arbitrary: s) (auto split: option.splits)

section \<open>The order of the turns\<close>

text \<open>
  The steps of the shared object: with an upstream in range, \<open>Next\<close> advances the rotation by one, and no other step
  touches it.
\<close>

definition turns_ok :: "proxy \<Rightarrow> forwarding \<Rightarrow> bool" where
  "turns_ok p s \<longleftrightarrow> fw_proxy s = p\<lparr>px_rotate := advance (length (fw_turns s)) (px_rotate p)\<rparr> \<and>
     map snd (fw_turns s) = map (turn (px_rotate p)) [0..<length (fw_turns s)]"

lemma turns_ok_start: "rotate_ok (px_rotate p) \<Longrightarrow> turns_ok p (forwarding_of p)"
  by (simp add: turns_ok_def forwarding_of_def)

lemma move_worker_Some:
  "move_worker i f s = Some s' \<longleftrightarrow>
     (\<exists>w pc. fw_workers s i = Some w \<and> f w = Some pc \<and>
        s' = s\<lparr>fw_workers := (fw_workers s)(i \<mapsto> w\<lparr>wk_pc := pc\<rparr>)\<rparr>)"
  by (auto simp: move_worker_def split: option.splits)

lemma take_turn_ok:
  assumes "rotate_ok (px_rotate p)" and "turns_ok p s" and "take_turn i w s = Some s'"
  obtains n req ds upstream where "wk_pc w = AtAttempts (Suc n) req ds"
    "upstream = turn (px_rotate p) (length (fw_turns s))"
    "s' = s\<lparr>fw_proxy := p\<lparr>px_rotate := advance (length (fw_turns s) + 1) (px_rotate p)\<rparr>,
       fw_workers := (fw_workers s)(i \<mapsto> w\<lparr>wk_pc := Exchanging n req upstream ds,
         wk_sent := wk_sent w @ [(req, upstream)]\<rparr>),
       fw_turns := fw_turns s @ [(i, upstream)]\<rparr>"
proof -
  have px: "fw_proxy s = p\<lparr>px_rotate := advance (length (fw_turns s)) (px_rotate p)\<rparr>"
    using assms(2) by (simp add: turns_ok_def)
  then have "rotate_next (px_rotate (fw_proxy s)) =
      Ret (turn (px_rotate p) (length (fw_turns s)), advance (length (fw_turns s) + 1) (px_rotate p))"
    using assms(1) by (simp add: rotate_next_ok)
  with assms(3) px that show ?thesis
    by (auto simp: take_turn_def split: forward_pc.splits nat.splits)
qed

lemma forward_step_frame:
  assumes "forward_step e s = Some s'" and "\<And>i. e \<noteq> TakeTurn i"
  shows "fw_proxy s' = fw_proxy s \<and> fw_turns s' = fw_turns s"
  using assms by (cases e) (auto simp: move_worker_Some split: option.splits)

lemma turns_ok_step:
  assumes "rotate_ok (px_rotate p)" and "turns_ok p s" and "forward_step e s = Some s'"
  shows "turns_ok p s'"
proof (cases "\<exists>i. e = TakeTurn i")
  case True
  then obtain i w where "fw_workers s i = Some w" "take_turn i w s = Some s'"
    using assms(3) by (auto simp: bind_eq_Some_conv)
  obtain u where "fw_turns s' = fw_turns s @ [(i, u)]" "u = turn (px_rotate p) (length (fw_turns s))"
    "fw_proxy s' = p\<lparr>px_rotate := advance (length (fw_turns s) + 1) (px_rotate p)\<rparr>"
    by (rule take_turn_ok[OF assms(1,2) \<open>take_turn i w s = Some s'\<close>]) simp
  with assms(2) show ?thesis
    by (simp add: turns_ok_def)
next
  case False
  then have "fw_proxy s' = fw_proxy s \<and> fw_turns s' = fw_turns s"
    using forward_step_frame[OF assms(3)] by blast
  with assms(2) show ?thesis
    by (simp add: turns_ok_def)
qed

lemma turns_ok_reach:
  assumes "rotate_ok (px_rotate p)" and "forward_reach (forwarding_of p) s"
  shows "turns_ok p s"
  using assms(2) by (induction rule: forward_reach.induct)
    (use assms(1) in \<open>auto intro: turns_ok_start turns_ok_step\<close>)

lemma turns_block:
  "rotate_ok ro \<Longrightarrow> map (turn ro) [0..<length (ru_servers ro)] = rotate (ru_index ro) (ru_servers ro)"
  by (intro nth_equalityI) (simp_all add: turn_def nth_rotate)

lemma count_list_distinct: "distinct xs \<Longrightarrow> count_list xs u = (if u \<in> set xs then 1 else 0)"
  by (induction xs) auto

lemma turn_wrap: "turn ro (length (ru_servers ro) + k) = turn ro k"
proof -
  have "(ru_index ro + (length (ru_servers ro) + k)) mod length (ru_servers ro) =
      (ru_index ro + k) mod length (ru_servers ro)"
    by (metis add.left_commute mod_add_self1)
  then show ?thesis
    by (simp add: turn_def)
qed

lemma turns_wrap:
  "map (turn ro) [0..<length (ru_servers ro) + k] =
     map (turn ro) [0..<length (ru_servers ro)] @ map (turn ro) [0..<k]"
proof -
  have "[length (ru_servers ro)..<length (ru_servers ro) + k] = map (\<lambda>i. i + length (ru_servers ro)) [0..<k]"
    by (simp only: map_add_upt add.commute)
  moreover have "turn ro (i + length (ru_servers ro)) = turn ro i" for i
    using turn_wrap[of ro i] by (simp only: add.commute)
  ultimately have "map (turn ro) [length (ru_servers ro)..<length (ru_servers ro) + k] = map (turn ro) [0..<k]"
    by (simp only: map_map comp_def)
  then show ?thesis
    by (simp only: upt_add_eq_append[OF le0] map_append)
qed

lemma count_turns_prefix:
  "m \<le> n \<Longrightarrow> count_list (map (turn ro) [0..<m]) u \<le> count_list (map (turn ro) [0..<n]) u"
  using upt_add_eq_append[of 0 m "n - m"] by simp

text \<open>After any number of turns the counts of the upstreams are two neighbouring numbers.\<close>

lemma turns_counts:
  assumes "rotate_ok ro" and "distinct (ru_servers ro)"
  shows "\<exists>k. \<forall>u \<in> set (ru_servers ro). count_list (map (turn ro) [0..<m]) u \<in> {k, Suc k}"
proof (induction m rule: less_induct)
  case (less m)
  let ?n = "length (ru_servers ro)"
  have n: "0 < ?n"
    using assms(1) by (auto simp: rotate_ok_def)
  have block: "count_list (map (turn ro) [0..<?n]) u = 1" if "u \<in> set (ru_servers ro)" for u
    using that assms(2) by (simp add: turns_block[OF assms(1)] count_list_distinct)
  show ?case
  proof (cases "m < ?n")
    case True
    have "count_list (map (turn ro) [0..<m]) u \<in> {0, Suc 0}" if "u \<in> set (ru_servers ro)" for u
    proof -
      have "count_list (map (turn ro) [0..<m]) u \<le> 1"
        using count_turns_prefix[of m ?n ro u] True block[OF that] by linarith
      then show ?thesis by auto
    qed
    then show ?thesis by blast
  next
    case False
    then obtain k where m: "m = ?n + k"
      using le_Suc_ex[of ?n m] by auto
    have step: "count_list (map (turn ro) [0..<m]) u = Suc (count_list (map (turn ro) [0..<k]) u)"
      if "u \<in> set (ru_servers ro)" for u
      unfolding m turns_wrap count_list_append using block[OF that] by simp
    have "k < m"
      using n m by simp
    then obtain j where "\<forall>u \<in> set (ru_servers ro). count_list (map (turn ro) [0..<k]) u \<in> {j, Suc j}"
      using less by blast
    then have "\<forall>u \<in> set (ru_servers ro). count_list (map (turn ro) [0..<m]) u \<in> {Suc j, Suc (Suc j)}"
      using step by simp
    then show ?thesis ..
  qed
qed

section \<open>What a query sends\<close>

text \<open>
  The requests a query has still to send, and what holds of a query in every state: what it has sent and what is left
  are its plan, the upstreams it asked are the turns it took, and it has not crashed.
\<close>

definition plan_of :: "proxy \<Rightarrow> dns_msg \<Rightarrow> dns_msg list" where
  "plan_of p r = requests_for r (nat (rc_attempts (px_config p))) (expand_query p (q_name (hd (m_question r))))"

fun left_to_send :: "proxy \<Rightarrow> dns_msg \<Rightarrow> forward_pc \<Rightarrow> dns_msg list \<Rightarrow> bool" where
  "left_to_send p r (AtDomains ds) reqs \<longleftrightarrow> reqs = requests_for r (nat (rc_attempts (px_config p))) ds"
| "left_to_send p r (AtAttempts n req ds) reqs \<longleftrightarrow>
     reqs = replicate n req @ requests_for r (nat (rc_attempts (px_config p))) ds"
| "left_to_send p r (Exchanging n req up ds) reqs \<longleftrightarrow>
     reqs = replicate n req @ requests_for r (nat (rc_attempts (px_config p))) ds"
| "left_to_send p r (Returns None) reqs \<longleftrightarrow> reqs = []"
| "left_to_send p r (Returns (Some m)) reqs \<longleftrightarrow> True"
| "left_to_send p r (Crashed e) reqs \<longleftrightarrow> False"

definition worker_ok :: "proxy \<Rightarrow> (nat \<times> string) list \<Rightarrow> nat \<Rightarrow> worker \<Rightarrow> bool" where
  "worker_ok p turns i w \<longleftrightarrow>
     (\<exists>reqs. left_to_send p (wk_query w) (wk_pc w) reqs \<and> map fst (wk_sent w) @ reqs = plan_of p (wk_query w)) \<and>
     map snd (wk_sent w) = map snd (filter (\<lambda>t. fst t = i) turns)"

definition workers_ok :: "proxy \<Rightarrow> forwarding \<Rightarrow> bool" where
  "workers_ok p s \<longleftrightarrow>
     (\<forall>i w. fw_workers s i = Some w \<longrightarrow> m_question (wk_query w) = [] \<or> worker_ok p (fw_turns s) i w) \<and>
     (\<forall>i. fw_workers s i = None \<longrightarrow> i \<notin> fst ` set (fw_turns s))"

text \<open>The documented behaviour of \<open>Exchange\<close>: a response or an error.\<close>

fun lawful_answer :: "forward_event \<Rightarrow> bool" where
  "lawful_answer (Answered i resp err) \<longleftrightarrow> resp \<noteq> None \<or> err \<noteq> None"
| "lawful_answer e \<longleftrightarrow> True"

lemma rotation_irrelevant [simp]:
  "expand_query (p\<lparr>px_rotate := ro\<rparr>) nm = expand_query p nm"
  "query_client tcp (p\<lparr>px_rotate := ro\<rparr>) = query_client tcp p"
  "loop_head (p\<lparr>px_rotate := ro\<rparr>) r pc = loop_head p r pc"
  by (simp_all add: expand_query_def query_client_def, cases "(p, r, pc)" rule: loop_head.cases) simp_all

lemma loop_head_plan:
  "loop_head p r pc = Some pc' \<Longrightarrow> left_to_send p r pc reqs \<Longrightarrow> left_to_send p r pc' reqs"
  by (cases "(p, r, pc)" rule: loop_head.cases) (auto simp: requests_for_def)

lemma answer_plan:
  assumes "after_answer resp err pc = Some pc'" and "resp \<noteq> None \<or> err \<noteq> None" and "left_to_send p r pc reqs"
  shows "left_to_send p r pc' reqs"
  using assms by (cases pc; cases resp) (auto simp: after_answer_def returns_response_def split: if_splits)

text \<open>A step of one query leaves the others as they are.\<close>

lemma workers_ok_upd:
  assumes "workers_ok p s" and "fw_workers s' = (fw_workers s)(i \<mapsto> w')" and "fw_turns s' = fw_turns s @ ts"
    and "\<forall>t \<in> set ts. fst t = i" and "m_question (wk_query w') = [] \<or> worker_ok p (fw_turns s') i w'"
  shows "workers_ok p s'"
proof -
  have "filter (\<lambda>t. fst t = j) (fw_turns s') = filter (\<lambda>t. fst t = j) (fw_turns s)" if "j \<noteq> i" for j
    using assms(3,4) that by (auto simp: filter_empty_conv)
  then have same: "worker_ok p (fw_turns s') j w \<longleftrightarrow> worker_ok p (fw_turns s) j w" if "j \<noteq> i" for j w
    using that by (simp add: worker_ok_def)
  have turns: "fst ` set (fw_turns s') \<subseteq> insert i (fst ` set (fw_turns s))"
    using assms(3,4) by auto
  show ?thesis
    unfolding workers_ok_def
  proof (intro conjI allI impI)
    fix j w assume "fw_workers s' j = Some w"
    then show "m_question (wk_query w) = [] \<or> worker_ok p (fw_turns s') j w"
      using assms(1,2,5) same[of j w] by (cases "j = i") (auto simp: workers_ok_def)
  next
    fix j assume "fw_workers s' j = None"
    then have "j \<noteq> i" "j \<notin> fst ` set (fw_turns s)"
      using assms(1,2) by (auto simp: workers_ok_def split: if_splits)
    then show "j \<notin> fst ` set (fw_turns s')"
      using turns by blast
  qed
qed

lemma worker_ok_move:
  assumes "m_question (wk_query w) = [] \<or> worker_ok p turns i w"
    and "\<And>reqs. left_to_send p (wk_query w) (wk_pc w) reqs \<Longrightarrow> left_to_send p (wk_query w) pc reqs"
  shows "m_question (wk_query (w\<lparr>wk_pc := pc\<rparr>)) = [] \<or> worker_ok p turns i (w\<lparr>wk_pc := pc\<rparr>)"
  using assms by (auto simp: worker_ok_def)

lemma worker_ok_arrive:
  assumes "i \<notin> fst ` set turns"
  shows "m_question (wk_query (new_worker (p\<lparr>px_rotate := ro\<rparr>) tcp r)) = [] \<or>
    worker_ok p turns i (new_worker (p\<lparr>px_rotate := ro\<rparr>) tcp r)"
  using assms by (cases "m_question r") (auto simp: new_worker_def worker_ok_def plan_of_def filter_empty_conv)

lemma worker_ok_turn:
  assumes "m_question (wk_query w) = [] \<or> worker_ok p turns i w" and "wk_pc w = AtAttempts (Suc n) req ds"
  shows "m_question (wk_query w) = [] \<or> worker_ok p (turns @ [(i, up)]) i
    (w\<lparr>wk_pc := Exchanging n req up ds, wk_sent := wk_sent w @ [(req, up)]\<rparr>)"
  using assms by (auto simp: worker_ok_def)

lemma workers_ok_step:
  assumes "rotate_ok (px_rotate p)" and "turns_ok p s" and "workers_ok p s" and "forward_step e s = Some s'"
    and "lawful_answer e"
  shows "workers_ok p s'"
proof -
  have px: "fw_proxy s = p\<lparr>px_rotate := advance (length (fw_turns s)) (px_rotate p)\<rparr>"
    using assms(2) by (simp add: turns_ok_def)
  have ok: "m_question (wk_query w) = [] \<or> worker_ok p (fw_turns s) i w" if "fw_workers s i = Some w" for i w
    using assms(3) that by (simp add: workers_ok_def)
  show ?thesis
  proof (cases e)
    case (Arrive i tcp r)
    then have "fw_workers s i = None" and s': "s' = s\<lparr>fw_workers := (fw_workers s)(i \<mapsto> new_worker (fw_proxy s) tcp r)\<rparr>"
      using assms(4) by (auto split: option.splits)
    then have "i \<notin> fst ` set (fw_turns s)"
      using assms(3) by (simp add: workers_ok_def)
    then show ?thesis
      using worker_ok_arrive by (intro workers_ok_upd[OF assms(3), of s' i _ "[]"]) (simp_all add: s' px)
  next
    case (Control i)
    then obtain w pc where w: "fw_workers s i = Some w" "loop_head p (wk_query w) (wk_pc w) = Some pc"
      "s' = s\<lparr>fw_workers := (fw_workers s)(i \<mapsto> w\<lparr>wk_pc := pc\<rparr>)\<rparr>"
      using assms(4) by (auto simp: move_worker_Some px)
    have "m_question (wk_query (w\<lparr>wk_pc := pc\<rparr>)) = [] \<or> worker_ok p (fw_turns s') i (w\<lparr>wk_pc := pc\<rparr>)"
      unfolding w(3) using worker_ok_move[OF ok[OF w(1)] loop_head_plan[OF w(2)]] by simp
    then show ?thesis
      by (rule workers_ok_upd[OF assms(3), of s' i _ "[]", rotated 3]) (simp_all add: w(3))
  next
    case (TakeTurn i)
    then obtain w where w: "fw_workers s i = Some w" "take_turn i w s = Some s'"
      using assms(4) by (auto simp: bind_eq_Some_conv)
    obtain n req ds up where t: "wk_pc w = AtAttempts (Suc n) req ds" and
      s': "s' = s\<lparr>fw_proxy := p\<lparr>px_rotate := advance (length (fw_turns s) + 1) (px_rotate p)\<rparr>,
        fw_workers := (fw_workers s)(i \<mapsto> w\<lparr>wk_pc := Exchanging n req up ds, wk_sent := wk_sent w @ [(req, up)]\<rparr>),
        fw_turns := fw_turns s @ [(i, up)]\<rparr>"
      by (rule take_turn_ok[OF assms(1,2) w(2)])
    let ?w = "w\<lparr>wk_pc := Exchanging n req up ds, wk_sent := wk_sent w @ [(req, up)]\<rparr>"
    have "m_question (wk_query ?w) = [] \<or> worker_ok p (fw_turns s') i ?w"
      unfolding s' using worker_ok_turn[OF ok[OF w(1)] t, of up] by simp
    then show ?thesis
      by (rule workers_ok_upd[OF assms(3), of s' i _ "[(i, up)]", rotated 3]) (simp_all add: s')
  next
    case (Answered i resp err)
    then obtain w pc where w: "fw_workers s i = Some w" "after_answer resp err (wk_pc w) = Some pc"
      "s' = s\<lparr>fw_workers := (fw_workers s)(i \<mapsto> w\<lparr>wk_pc := pc\<rparr>)\<rparr>"
      using assms(4) by (auto simp: move_worker_Some)
    have "resp \<noteq> None \<or> err \<noteq> None"
      using assms(5) Answered by simp
    then have "m_question (wk_query (w\<lparr>wk_pc := pc\<rparr>)) = [] \<or> worker_ok p (fw_turns s') i (w\<lparr>wk_pc := pc\<rparr>)"
      unfolding w(3) using worker_ok_move[OF ok[OF w(1)] answer_plan[OF w(2)]] by simp
    then show ?thesis
      by (rule workers_ok_upd[OF assms(3), of s' i _ "[]", rotated 3]) (simp_all add: w(3))
  qed
qed

lemma forward_run_ok:
  assumes "rotate_ok (px_rotate p)" and "forward_run es s = Some s'" and "turns_ok p s" and "workers_ok p s"
    and "list_all lawful_answer es"
  shows "turns_ok p s' \<and> workers_ok p s'"
  using assms(2-)
proof (induction es arbitrary: s)
  case (Cons e es)
  then obtain s1 where s1: "forward_step e s = Some s1" "forward_run es s1 = Some s'"
    by (auto split: option.splits)
  show ?case
    using Cons.prems(4) by (intro Cons.IH[OF s1(2) turns_ok_step[OF assms(1) Cons.prems(2) s1(1)]
        workers_ok_step[OF assms(1) Cons.prems(2,3) s1(1)]]) simp_all
qed simp

lemma workers_ok_start: "workers_ok p (forwarding_of p)"
  by (simp add: workers_ok_def forwarding_of_def)

section \<open>A query on its own\<close>

text \<open>The steps of one query against the environment of the sequential model, while no other query moves.\<close>

definition next_alone :: "exchange \<Rightarrow> nat \<Rightarrow> worker \<Rightarrow> forward_event option" where
  "next_alone ex i w =
     (case wk_pc w of
        AtDomains ds \<Rightarrow> Some (Control i)
      | AtAttempts 0 req ds \<Rightarrow> Some (Control i)
      | AtAttempts (Suc n) req ds \<Rightarrow> Some (TakeTurn i)
      | Exchanging n req up ds \<Rightarrow>
          (let (resp, err) = ex (wk_client w) (butlast (wk_sent w)) req up in Some (Answered i resp err))
      | _ \<Rightarrow> None)"

definition alone_step :: "exchange \<Rightarrow> nat \<Rightarrow> forwarding \<Rightarrow> forwarding \<Rightarrow> bool" where
  "alone_step ex i s s' \<longleftrightarrow>
     (\<exists>w e. fw_workers s i = Some w \<and> next_alone ex i w = Some e \<and> forward_step e s = Some s')"

text \<open>The query \<open>i\<close> with its control point, rotation and requests: what the two loops work on.\<close>

definition at :: "nat \<Rightarrow> proxy \<Rightarrow> worker \<Rightarrow> forward_pc \<Rightarrow> rotating_upstream \<times> query list \<Rightarrow> forwarding \<Rightarrow> bool" where
  "at i p w pc st s \<longleftrightarrow> fw_proxy s = p\<lparr>px_rotate := fst st\<rparr> \<and>
     fw_workers s i = Some (w\<lparr>wk_pc := pc, wk_sent := snd st\<rparr>)"

lemma at_control:
  assumes "at i p w pc st s" and "loop_head p (wk_query w) pc = Some pc'"
  shows "\<exists>s'. alone_step ex i s s' \<and> at i p w pc' st s'"
proof -
  let ?w = "w\<lparr>wk_pc := pc, wk_sent := snd st\<rparr>"
  have "next_alone ex i ?w = Some (Control i)"
    using assms(2) by (cases "(p, wk_query w, pc)" rule: loop_head.cases) (simp_all add: next_alone_def)
  moreover have "forward_step (Control i) s = Some (s\<lparr>fw_workers := (fw_workers s)(i \<mapsto> ?w\<lparr>wk_pc := pc'\<rparr>)\<rparr>)"
    using assms by (simp add: at_def move_worker_def)
  ultimately show ?thesis
    using assms(1) by (intro exI[of _ "s\<lparr>fw_workers := (fw_workers s)(i \<mapsto> ?w\<lparr>wk_pc := pc'\<rparr>)\<rparr>"])
      (auto simp: alone_step_def at_def)
qed

lemma at_turn:
  assumes "at i p w (AtAttempts (Suc n) req ds) (ro, sent) s"
  shows "\<exists>s'. alone_step ex i s s' \<and>
    (case rotate_next ro of
       Panic e \<Rightarrow> at i p w (Crashed e) (ro, sent) s'
     | Ret (up, ro') \<Rightarrow> at i p w (Exchanging n req up ds) (ro', sent @ [(req, up)]) s')"
proof -
  let ?w = "w\<lparr>wk_pc := AtAttempts (Suc n) req ds, wk_sent := sent\<rparr>"
  have w: "fw_workers s i = Some ?w" and px: "px_rotate (fw_proxy s) = ro" "fw_proxy s = p\<lparr>px_rotate := ro\<rparr>"
    using assms by (simp_all add: at_def)
  have n: "next_alone ex i ?w = Some (TakeTurn i)"
    by (simp add: next_alone_def)
  show ?thesis
  proof (cases "rotate_next ro")
    case (Ret x)
    obtain up ro' where x: "x = (up, ro')" by fastforce
    have "forward_step (TakeTurn i) s = Some (s\<lparr>fw_proxy := p\<lparr>px_rotate := ro'\<rparr>,
        fw_workers := (fw_workers s)(i \<mapsto> ?w\<lparr>wk_pc := Exchanging n req up ds, wk_sent := sent @ [(req, up)]\<rparr>),
        fw_turns := fw_turns s @ [(i, up)]\<rparr>)" (is "_ = Some ?s'")
      using Ret x w px by (simp add: take_turn_def)
    with w n have "alone_step ex i s ?s'"
      by (auto simp: alone_step_def)
    then show ?thesis
      by (intro exI[of _ ?s']) (simp add: Ret x at_def)
  next
    case (Panic e)
    have "forward_step (TakeTurn i) s = Some (s\<lparr>fw_workers := (fw_workers s)(i \<mapsto> ?w\<lparr>wk_pc := Crashed e\<rparr>)\<rparr>)"
      (is "_ = Some ?s'")
      using Panic w px by (simp add: take_turn_def)
    with w n have "alone_step ex i s ?s'"
      by (auto simp: alone_step_def)
    then show ?thesis
      using px by (intro exI[of _ ?s']) (simp add: Panic at_def)
  qed
qed

lemma at_answer:
  assumes "at i p w (Exchanging n req up ds) (ro, sent @ [(req, up)]) s"
    and "ex (wk_client w) sent req up = (resp, err)"
  shows "\<exists>s'. alone_step ex i s s' \<and>
    at i p w (if returns_response resp err then Returns resp else AtAttempts n req ds) (ro, sent @ [(req, up)]) s'"
proof -
  let ?w = "w\<lparr>wk_pc := Exchanging n req up ds, wk_sent := sent @ [(req, up)]\<rparr>"
  let ?pc = "if returns_response resp err then Returns resp else AtAttempts n req ds"
  have w: "fw_workers s i = Some ?w"
    using assms(1) by (simp add: at_def)
  have "next_alone ex i ?w = Some (Answered i resp err)"
    using assms(2) by (simp add: next_alone_def)
  moreover have "forward_step (Answered i resp err) s = Some (s\<lparr>fw_workers := (fw_workers s)(i \<mapsto> ?w\<lparr>wk_pc := ?pc\<rparr>)\<rparr>)"
    (is "_ = Some ?s'")
    using w by (simp add: move_worker_def after_answer_def)
  ultimately have "alone_step ex i s ?s'"
    using w by (auto simp: alone_step_def)
  then show ?thesis
    using assms(1) by (intro exI[of _ ?s']) (simp add: at_def)
qed

text \<open>The control point a query reaches with the result of the inner and of the outer loop.\<close>

fun pc_of :: "forward_pc \<Rightarrow> dns_msg option option go \<Rightarrow> forward_pc" where
  "pc_of pc (Ret None) = pc"
| "pc_of pc (Ret (Some resp)) = Returns resp"
| "pc_of pc (Panic e) = Crashed e"

lemma alone_ask_upstreams:
  assumes "at i p w (AtAttempts n req ds) st s" and "ask_upstreams ex (wk_client w) n req st = (res, st')"
  shows "\<exists>s'. rtranclp (alone_step ex i) s s' \<and> at i p w (pc_of (AtAttempts 0 req ds) res) st' s'"
  using assms
proof (induction n arbitrary: st s)
  case 0
  then show ?case by auto
next
  case (Suc n)
  obtain ro sent where st: "st = (ro, sent)" by fastforce
  obtain s1 where s1: "alone_step ex i s s1" "case rotate_next ro of
       Panic e \<Rightarrow> at i p w (Crashed e) (ro, sent) s1
     | Ret (up, ro') \<Rightarrow> at i p w (Exchanging n req up ds) (ro', sent @ [(req, up)]) s1"
    using at_turn[OF Suc.prems(1)[unfolded st]] by blast
  show ?case
  proof (cases "rotate_next ro")
    case (Panic e)
    then have "res = Panic e" "st' = (ro, sent)" "at i p w (Crashed e) (ro, sent) s1"
      using s1(2) Suc.prems(2) by (simp_all add: st)
    then show ?thesis
      using s1(1) by (intro exI[of _ s1]) (simp add: r_into_rtranclp)
  next
    case (Ret x)
    obtain up ro' where x: "x = (up, ro')" by fastforce
    obtain resp err where e: "ex (wk_client w) sent req up = (resp, err)" by fastforce
    obtain s2 where s2: "alone_step ex i s1 s2"
      "at i p w (if returns_response resp err then Returns resp else AtAttempts n req ds) (ro', sent @ [(req, up)]) s2"
      using at_answer[where ex = ex and i = i and p = p and w = w and n = n and ds = ds and ro = ro' and s = s1, OF _ e]
        s1(2) Ret x by auto
    have run: "rtranclp (alone_step ex i) s s2"
      using s2(1) by (intro converse_rtranclp_into_rtranclp[where r = "alone_step ex i", OF s1(1)]
          r_into_rtranclp[where r = "alone_step ex i"])
    show ?thesis
    proof (cases "returns_response resp err")
      case True
      then have "res = Ret (Some resp)" "st' = (ro', sent @ [(req, up)])"
        using Suc.prems(2) by (simp_all add: st Ret x e Let_def)
      moreover have "at i p w (Returns resp) (ro', sent @ [(req, up)]) s2"
        using True s2(2) by simp
      ultimately show ?thesis
        using run by (intro exI[of _ s2]) simp
    next
      case False
      then have "ask_upstreams ex (wk_client w) n req (ro', sent @ [(req, up)]) = (res, st')"
        using Suc.prems(2) by (simp add: st Ret x e Let_def)
      moreover have "at i p w (AtAttempts n req ds) (ro', sent @ [(req, up)]) s2"
        using False s2(2) by simp
      ultimately obtain s3 where "rtranclp (alone_step ex i) s2 s3"
        "at i p w (pc_of (AtAttempts 0 req ds) res) st' s3"
        using Suc.IH by blast
      then show ?thesis
        using rtranclp_trans[OF run] by blast
    qed
  qed
qed

lemma alone_ask_domains:
  assumes "at i p w (AtDomains ds) st s"
    and "ask_domains ex (wk_client w) (nat (rc_attempts (px_config p))) (wk_query w) ds st = (res, st')"
  shows "\<exists>s'. rtranclp (alone_step ex i) s s' \<and> at i p w (pc_of (AtDomains []) res) st' s'"
  using assms
proof (induction ds arbitrary: st s)
  case Nil
  then show ?case by auto
next
  case (Cons d ds)
  let ?n = "nat (rc_attempts (px_config p))" and ?req = "set_qname d (wk_query w)"
  obtain s1 where s1: "alone_step ex i s s1" "at i p w (AtAttempts ?n ?req ds) st s1"
    using at_control[OF Cons.prems(1)] by auto
  obtain res1 st1 where u: "ask_upstreams ex (wk_client w) ?n ?req st = (res1, st1)" by (metis surj_pair)
  obtain s2 where s2: "rtranclp (alone_step ex i) s1 s2" "at i p w (pc_of (AtAttempts 0 ?req ds) res1) st1 s2"
    using alone_ask_upstreams[OF s1(2) u] by blast
  have run: "rtranclp (alone_step ex i) s s2"
    using s1(1) s2(1) by (rule converse_rtranclp_into_rtranclp)
  show ?case
  proof (cases "res1 = Ret None")
    case True
    then obtain s3 where s3: "alone_step ex i s2 s3" "at i p w (AtDomains ds) st1 s3"
      using at_control[of i p w "AtAttempts 0 ?req ds" st1 s2] s2(2) by auto
    have "ask_domains ex (wk_client w) ?n (wk_query w) ds st1 = (res, st')"
      using Cons.prems(2) by (simp add: u True)
    from Cons.IH[OF s3(2) this] obtain s4 where "rtranclp (alone_step ex i) s3 s4"
      "at i p w (pc_of (AtDomains []) res) st' s4" by blast
    then show ?thesis
      using rtranclp_trans[OF rtranclp.rtrancl_into_rtrancl[OF run s3(1)]] by blast
  next
    case False
    then have "res = res1" "st' = st1"
      using Cons.prems(2) by (auto simp: u split: go.splits option.splits)
    moreover have "pc_of (AtAttempts 0 ?req ds) res1 = pc_of (AtDomains []) res1"
      using False by (metis go.exhaust option.exhaust pc_of.simps(2,3))
    ultimately show ?thesis
      using run s2(2) by auto
  qed
qed

text \<open>The whole query: it ends as \<open>HandleDNS\<close> does.\<close>

lemma undisturbed_query:
  assumes "fw_workers s i = None" and "forward_step (Arrive i tcp r) s = Some s1"
    and "handle_dns ex tcp (Some (fw_proxy s)) r = (res, Some p', sent)"
  shows "\<exists>s' w. rtranclp (alone_step ex i) s1 s' \<and> fw_proxy s' = p' \<and> fw_workers s' i = Some w \<and> wk_sent w = sent \<and>
    wk_pc w = (case res of Ret resp \<Rightarrow> Returns resp | Panic e \<Rightarrow> Crashed e)"
proof -
  let ?p = "fw_proxy s"
  let ?w = "new_worker ?p tcp r"
  have s1: "s1 = s\<lparr>fw_workers := (fw_workers s)(i \<mapsto> ?w)\<rparr>"
    using assms(1,2) by simp
  show ?thesis
  proof (cases "m_question r")
    case Nil
    with assms(3) show ?thesis
      by (intro exI[of _ s1] exI[of _ ?w]) (auto simp: s1 handle_dns_def new_worker_def)
  next
    case (Cons q qs)
    obtain found ro sent' where d: "ask_domains ex (query_client tcp ?p) (nat (rc_attempts (px_config ?p))) r
        (expand_query ?p (q_name q)) (px_rotate ?p, []) = (found, ro, sent')"
      by (metis surj_pair)
    have "at i ?p ?w (AtDomains (expand_query ?p (q_name q))) (px_rotate ?p, []) s1"
      by (simp add: at_def s1 new_worker_def Cons)
    moreover have "ask_domains ex (wk_client ?w) (nat (rc_attempts (px_config ?p))) (wk_query ?w)
        (expand_query ?p (q_name q)) (px_rotate ?p, []) = (found, ro, sent')"
      using d by (simp add: new_worker_def)
    ultimately obtain s2 where s2: "rtranclp (alone_step ex i) s1 s2"
      "at i ?p ?w (pc_of (AtDomains []) found) (ro, sent') s2"
      using alone_ask_domains[of i ?p ?w] by blast
    have r: "p' = ?p\<lparr>px_rotate := ro\<rparr>" "sent = sent'"
      "res = (case found of Ret None \<Rightarrow> Ret None | Ret (Some resp) \<Rightarrow> Ret resp | Panic e \<Rightarrow> Panic e)"
      using assms(3) by (auto simp: handle_dns_def Cons d Let_def split: go.splits option.splits)
    show ?thesis
    proof (cases "found = Ret None")
      case True
      then obtain s3 where s3: "alone_step ex i s2 s3" "at i ?p ?w (Returns None) (ro, sent') s3"
        using at_control[of i ?p ?w "AtDomains []" "(ro, sent')" s2 "Returns None" ex] s2(2) True by auto
      have "rtranclp (alone_step ex i) s1 s3"
        using s2(1) s3(1) by (rule rtranclp.rtrancl_into_rtrancl)
      with s3(2) True r show ?thesis
        by (intro exI[of _ s3]) (simp add: at_def)
    next
      case False
      then have "pc_of (AtDomains []) found = (case res of Ret resp \<Rightarrow> Returns resp | Panic e \<Rightarrow> Crashed e)"
        unfolding r(3) by (cases found) (auto split: option.splits)
      with s2 r show ?thesis
        by (intro exI[of _ s2]) (simp add: at_def)
    qed
  qed
qed

section \<open>Other queries in between\<close>

text \<open>A query that arrives, asks one upstream and waits takes one turn from the others.\<close>

definition one_turn :: "dns_msg \<Rightarrow> nat \<Rightarrow> forward_event list" where
  "one_turn r j = [Arrive j False r, Control j, TakeTurn j]"

lemma one_turn_run:
  assumes "rotate_ok (px_rotate p)" and "turns_ok p s" and "fw_workers s j = None"
    and "0 < rc_attempts (px_config p)" and "m_question r \<noteq> []" and "expand_query p (q_name (hd (m_question r))) = d # ds"
  shows "\<exists>s' w. forward_run (one_turn r j) s = Some s' \<and> turns_ok p s' \<and>
    length (fw_turns s') = Suc (length (fw_turns s)) \<and> fw_workers s' = (fw_workers s)(j \<mapsto> w)"
proof -
  have px: "fw_proxy s = p\<lparr>px_rotate := advance (length (fw_turns s)) (px_rotate p)\<rparr>"
    using assms(2) by (simp add: turns_ok_def)
  obtain n where n: "nat (rc_attempts (px_config p)) = Suc n"
    using assms(4) by (metis not0_implies_Suc zero_less_nat_eq less_numeral_extra(3))
  let ?w = "(new_worker (fw_proxy s) False r)\<lparr>wk_pc := AtAttempts (Suc n) (set_qname d r) ds\<rparr>"
  let ?s = "s\<lparr>fw_workers := (fw_workers s)(j \<mapsto> ?w)\<rparr>"
  have "wk_pc (new_worker (fw_proxy s) False r) = AtDomains (d # ds)" "wk_query (new_worker (fw_proxy s) False r) = r"
    using assms(5,6) by (cases "m_question r"; simp add: new_worker_def px)+
  then have run: "forward_run [Arrive j False r, Control j] s = Some ?s"
    using assms(3) n by (simp add: move_worker_def px)
  have "turns_ok p ?s"
    using assms(2) by (simp add: turns_ok_def)
  obtain s' where s': "forward_step (TakeTurn j) ?s = Some s'"
    "fw_turns s' = fw_turns s @ [(j, turn (px_rotate p) (length (fw_turns s)))]"
    "\<exists>w. fw_workers s' = (fw_workers s)(j \<mapsto> w)"
    using rotate_next_ok[of "advance (length (fw_turns s)) (px_rotate p)"] assms(1)
    by (auto simp: take_turn_def px)
  moreover have "turns_ok p s'"
    using turns_ok_step[OF assms(1) \<open>turns_ok p ?s\<close> s'(1)] .
  moreover have "forward_run (one_turn r j) s = Some s'"
    using forward_run_append[of "[Arrive j False r, Control j]" "[TakeTurn j]" s] run s'(1) by (simp add: one_turn_def)
  ultimately show ?thesis
    by auto
qed

definition many_turns :: "dns_msg \<Rightarrow> nat \<Rightarrow> nat \<Rightarrow> forward_event list" where
  "many_turns r j m = concat (map (one_turn r) [j..<j + m])"

lemma many_turns_run:
  assumes "rotate_ok (px_rotate p)" and "0 < rc_attempts (px_config p)" and "m_question r \<noteq> []"
    and "expand_query p (q_name (hd (m_question r))) = d # ds"
  shows "turns_ok p s \<Longrightarrow> \<forall>k \<ge> j. fw_workers s k = None \<Longrightarrow>
    \<exists>s'. forward_run (many_turns r j m) s = Some s' \<and> turns_ok p s' \<and>
      length (fw_turns s') = length (fw_turns s) + m \<and> (\<forall>k \<ge> j + m. fw_workers s' k = None) \<and>
      (\<forall>k < j. fw_workers s' k = fw_workers s k)"
proof (induction m arbitrary: s j)
  case 0
  then show ?case by (simp add: many_turns_def)
next
  case (Suc m)
  obtain s1 w where s1: "forward_run (one_turn r j) s = Some s1" "turns_ok p s1"
    "length (fw_turns s1) = Suc (length (fw_turns s))" "fw_workers s1 = (fw_workers s)(j \<mapsto> w)"
    using one_turn_run[OF assms(1) Suc.prems(1) _ assms(2-4), of j] Suc.prems(2) by auto
  have "\<forall>k \<ge> Suc j. fw_workers s1 k = None"
    using Suc.prems(2) s1(4) by simp
  from Suc.IH[OF s1(2) this] obtain s2 where s2: "forward_run (many_turns r (Suc j) m) s1 = Some s2" "turns_ok p s2"
    "length (fw_turns s2) = length (fw_turns s1) + m" "\<forall>k \<ge> Suc j + m. fw_workers s2 k = None"
    "\<forall>k < Suc j. fw_workers s2 k = fw_workers s1 k" by blast
  have "many_turns r j (Suc m) = one_turn r j @ many_turns r (Suc j) m"
    by (simp add: many_turns_def upt_conv_Cons del: upt_Suc)
  with s1 s2 show ?case
    by (intro exI[of _ s2]) (simp add: forward_run_append)
qed

lemma lawful_many_turns: "list_all lawful_answer (many_turns r j m)"
  by (auto simp: many_turns_def one_turn_def list_all_iff)

text \<open>
  The schedule that starves a query: after each of its attempts the other queries take the turns of all other
  upstreams.
\<close>

lemma starve:
  fixes r :: dns_msg
  assumes "rotate_ok (px_rotate p)" and "0 < rc_attempts (px_config p)" and "m_question r \<noteq> []"
    and "expand_query p (q_name (hd (m_question r))) = d # ds" and "0 < j"
  shows "turns_ok p s \<Longrightarrow> length (fw_turns s) mod length (ru_servers (px_rotate p)) = 0 \<Longrightarrow>
    \<forall>i \<ge> j. fw_workers s i = None \<Longrightarrow> fw_workers s 0 = Some w \<Longrightarrow> wk_pc w = AtAttempts k req [] \<Longrightarrow>
    \<exists>es s' w'. forward_run es s = Some s' \<and> list_all lawful_answer es \<and> fw_workers s' 0 = Some w' \<and>
      wk_pc w' = Returns None \<and> wk_query w' = wk_query w \<and>
      wk_sent w' = wk_sent w @ replicate k (req, turn (px_rotate p) 0)"
  using \<open>0 < j\<close>
proof (induction k arbitrary: s w j)
  case 0
  have "forward_run [Control 0, Control 0] s = Some (s\<lparr>fw_workers := (fw_workers s)(0 \<mapsto> w\<lparr>wk_pc := Returns None\<rparr>)\<rparr>)"
    using 0 by (simp add: move_worker_def)
  then show ?case
    by (intro exI[of _ "[Control 0, Control 0]"] exI) auto
next
  case (Suc k)
  let ?n = "length (ru_servers (px_rotate p))" and ?u = "turn (px_rotate p) 0"
  let ?w = "w\<lparr>wk_sent := wk_sent w @ [(req, ?u)], wk_pc := AtAttempts k req []\<rparr>"
  have n: "0 < ?n"
    using assms(1) by (auto simp: rotate_ok_def)
  have "turn (px_rotate p) (length (fw_turns s)) = ?u"
    using Suc.prems(2) by (simp add: turn_def mod_add_right_eq[of _ "length (fw_turns s)", symmetric])
  moreover have px: "fw_proxy s = p\<lparr>px_rotate := advance (length (fw_turns s)) (px_rotate p)\<rparr>"
    using Suc.prems(1) by (simp add: turns_ok_def)
  ultimately obtain s1 where s1: "forward_step (TakeTurn 0) s = Some s1"
    "fw_workers s1 = (fw_workers s)(0 \<mapsto> w\<lparr>wk_pc := Exchanging k req ?u [], wk_sent := wk_sent w @ [(req, ?u)]\<rparr>)"
    "fw_turns s1 = fw_turns s @ [(0, ?u)]"
    using rotate_next_ok[of "advance (length (fw_turns s)) (px_rotate p)"] assms(1) Suc.prems(4,5)
    by (simp add: take_turn_def)
  let ?s2 = "s1\<lparr>fw_workers := (fw_workers s1)(0 \<mapsto> ?w)\<rparr>"
  have s2: "forward_step (Answered 0 None (Some (LibError ''timeout''))) s1 = Some ?s2"
    by (simp add: s1(2) move_worker_def after_answer_def returns_response_def)
  have "turns_ok p ?s2"
    using turns_ok_step[OF assms(1) turns_ok_step[OF assms(1) Suc.prems(1) s1(1)] s2] .
  moreover have "\<forall>i \<ge> j. fw_workers ?s2 i = None"
    using Suc.prems(3,6) by (simp add: s1(2))
  ultimately obtain s3 where s3: "forward_run (many_turns r j (?n - 1)) ?s2 = Some s3" "turns_ok p s3"
    "length (fw_turns s3) = length (fw_turns ?s2) + (?n - 1)" "\<forall>i \<ge> j + (?n - 1). fw_workers s3 i = None"
    "\<forall>i < j. fw_workers s3 i = fw_workers ?s2 i"
    using many_turns_run[OF assms(1-4)] by blast
  have "length (fw_turns s3) = length (fw_turns s) + ?n"
    using s3(3) s1(3) n by simp
  then have turns: "length (fw_turns s3) mod ?n = 0"
    using Suc.prems(2) by simp
  have w3: "fw_workers s3 0 = Some ?w"
    using s3(5) Suc.prems(6) by simp
  obtain es s' w' where es: "forward_run es s3 = Some s'" "list_all lawful_answer es" "fw_workers s' 0 = Some w'"
    "wk_pc w' = Returns None" "wk_query w' = wk_query w" "wk_sent w' = wk_sent ?w @ replicate k (req, ?u)"
    using Suc.IH[OF s3(2) turns s3(4) w3] Suc.prems(6) by auto
  have "forward_run ([TakeTurn 0, Answered 0 None (Some (LibError ''timeout''))] @ many_turns r j (?n - 1) @ es) s = Some s'"
    using s1(1) s2 s3(1) es(1) by (simp add: forward_run_append del: forward_step.simps)
  then show ?case
    using es lawful_many_turns[of r j "?n - 1"]
    by (intro exI[of _ "[TakeTurn 0, Answered 0 None (Some (LibError ''timeout''))] @ many_turns r j (?n - 1) @ es"]
        exI[of _ s'] exI[of _ w']) simp
qed

section \<open>The end of a query\<close>

text \<open>The steps a query can still take, for a number of attempts, and which events are its own.\<close>

fun steps_left :: "nat \<Rightarrow> forward_pc \<Rightarrow> nat" where
  "steps_left a (AtDomains ds) = 1 + length ds * (2 * a + 2)"
| "steps_left a (AtAttempts n req ds) = 2 * n + 2 + length ds * (2 * a + 2)"
| "steps_left a (Exchanging n req upstream ds) = 2 * n + 3 + length ds * (2 * a + 2)"
| "steps_left a (Returns resp) = 0"
| "steps_left a (Crashed e) = 0"

fun moves_query :: "nat \<Rightarrow> forward_event \<Rightarrow> bool" where
  "moves_query i (Arrive j tcp r) \<longleftrightarrow> False"
| "moves_query i (Control j) \<longleftrightarrow> j = i"
| "moves_query i (TakeTurn j) \<longleftrightarrow> j = i"
| "moves_query i (Answered j resp err) \<longleftrightarrow> j = i"

definition attempts_of :: "forwarding \<Rightarrow> nat" where
  "attempts_of s = nat (rc_attempts (px_config (fw_proxy s)))"

lemma loop_head_steps:
  "loop_head p r pc = Some pc' \<Longrightarrow>
     steps_left (nat (rc_attempts (px_config p))) pc' < steps_left (nat (rc_attempts (px_config p))) pc"
  by (cases "(p, r, pc)" rule: loop_head.cases) auto

lemma after_answer_steps: "after_answer resp err pc = Some pc' \<Longrightarrow> steps_left a pc' < steps_left a pc"
  by (auto simp: after_answer_def split: forward_pc.splits if_splits)

lemma take_turn_steps:
  assumes "take_turn i w s = Some s'"
  shows "\<exists>w'. fw_workers s' = (fw_workers s)(i \<mapsto> w') \<and> steps_left a (wk_pc w') < steps_left a (wk_pc w) \<and>
    px_config (fw_proxy s') = px_config (fw_proxy s)"
  using assms by (auto simp: take_turn_def split: forward_pc.splits nat.splits go.splits)

text \<open>A step of a query brings it closer to its end, a step of another leaves it where it is.\<close>

lemma forward_step_progress:
  assumes "forward_step e s = Some s'" and "fw_workers s i = Some w"
  shows "\<exists>w'. fw_workers s' i = Some w' \<and> attempts_of s' = attempts_of s \<and>
    steps_left (attempts_of s) (wk_pc w') + (if moves_query i e then 1 else 0) \<le> steps_left (attempts_of s) (wk_pc w)"
proof (cases e)
  case (Arrive j tcp r)
  with assms show ?thesis
    by (auto simp: attempts_of_def split: option.splits)
next
  case (Control j)
  then obtain v pc where v: "fw_workers s j = Some v" "loop_head (fw_proxy s) (wk_query v) (wk_pc v) = Some pc"
    "s' = s\<lparr>fw_workers := (fw_workers s)(j \<mapsto> v\<lparr>wk_pc := pc\<rparr>)\<rparr>"
    using assms(1) by (auto simp: move_worker_Some)
  with assms(2) Control loop_head_steps[OF v(2)] show ?thesis
    by (auto simp: attempts_of_def)
next
  case (TakeTurn j)
  then obtain v where v: "fw_workers s j = Some v" "take_turn j v s = Some s'"
    using assms(1) by (auto simp: bind_eq_Some_conv)
  with assms(2) TakeTurn take_turn_steps[OF v(2), of "attempts_of s"] show ?thesis
    by (auto simp: attempts_of_def)
next
  case (Answered j resp err)
  then obtain v pc where v: "fw_workers s j = Some v" "after_answer resp err (wk_pc v) = Some pc"
    "s' = s\<lparr>fw_workers := (fw_workers s)(j \<mapsto> v\<lparr>wk_pc := pc\<rparr>)\<rparr>"
    using assms(1) by (auto simp: move_worker_Some)
  with assms(2) Answered after_answer_steps[OF v(2), of "attempts_of s"] show ?thesis
    by (auto simp: attempts_of_def)
qed

lemma forward_run_progress:
  assumes "forward_run es s = Some s'" and "fw_workers s i = Some w"
  shows "\<exists>w'. fw_workers s' i = Some w' \<and> attempts_of s' = attempts_of s \<and>
    steps_left (attempts_of s) (wk_pc w') + length (filter (moves_query i) es) \<le> steps_left (attempts_of s) (wk_pc w)"
  using assms
proof (induction es arbitrary: s w)
  case (Cons e es)
  obtain s1 where s1: "forward_step e s = Some s1" "forward_run es s1 = Some s'"
    using Cons.prems(1) by (auto split: option.splits)
  obtain w1 where w1: "fw_workers s1 i = Some w1" "attempts_of s1 = attempts_of s"
    "steps_left (attempts_of s) (wk_pc w1) + (if moves_query i e then 1 else 0) \<le> steps_left (attempts_of s) (wk_pc w)"
    using forward_step_progress[OF s1(1) Cons.prems(2)] by blast
  from Cons.IH[OF s1(2) w1(1)] w1(2,3) show ?case
    by (auto split: if_splits)
qed simp

text \<open>A query that has not ended is waiting for its upstream, or can take its next step now.\<close>

definition can_move :: "nat \<Rightarrow> forwarding \<Rightarrow> bool" where
  "can_move i s \<longleftrightarrow> forward_step (Control i) s \<noteq> None \<or> forward_step (TakeTurn i) s \<noteq> None \<or>
     (\<forall>resp err. forward_step (Answered i resp err) s \<noteq> None)"

lemma can_move_iff:
  assumes "fw_workers s i = Some w"
  shows "can_move i s \<longleftrightarrow> \<not> (\<exists>resp. wk_pc w = Returns resp) \<and> \<not> (\<exists>e. wk_pc w = Crashed e)"
proof (cases "wk_pc w")
  case (AtDomains ds)
  with assms show ?thesis
    by (cases ds) (simp_all add: can_move_def move_worker_def)
next
  case (AtAttempts n req ds)
  with assms show ?thesis
    by (cases n; cases "rotate_next (px_rotate (fw_proxy s))")
      (auto simp: can_move_def move_worker_def take_turn_def)
qed (use assms in \<open>simp_all add: can_move_def move_worker_def take_turn_def after_answer_def\<close>)

section \<open>Properties\<close>

text \<open>
  C22. Whatever the interleaving of the queries, the upstreams share the load: the numbers of exchanges started with
  any two of them never differ by more than one.
\<close>

theorem concurrent_turns_fair:
  assumes "rotate_ok (px_rotate p)" and "distinct (ru_servers (px_rotate p))"
    and "forward_reach (forwarding_of p) s"
    and "u \<in> set (ru_servers (px_rotate p))" and "v \<in> set (ru_servers (px_rotate p))"
  shows "count_list (map snd (fw_turns s)) u \<le> count_list (map snd (fw_turns s)) v + 1"
proof -
  have "map snd (fw_turns s) = map (turn (px_rotate p)) [0..<length (fw_turns s)]"
    using turns_ok_reach[OF assms(1,3)] by (simp add: turns_ok_def)
  moreover obtain k where k: "\<forall>u \<in> set (ru_servers (px_rotate p)).
      count_list (map (turn (px_rotate p)) [0..<length (fw_turns s)]) u \<in> {k, Suc k}"
    using turns_counts[OF assms(1,2)] by blast
  ultimately show ?thesis
    using bspec[OF k assms(4)] bspec[OF k assms(5)] by auto
qed

text \<open>
  C12. A query with a question follows its plan whatever the others do: what it has sent is a beginning of its requests,
  each name the configured number of times in the order of the names, it has sent all of them when it returns without
  a response, every upstream it asked is a turn it took itself, and it does not panic.
\<close>

theorem concurrent_query_plan:
  assumes "rotate_ok (px_rotate p)" and "forward_run es (forwarding_of p) = Some s" and "list_all lawful_answer es"
    and "fw_workers s i = Some w" and "m_question (wk_query w) \<noteq> []"
  shows "(\<exists>rest. map fst (wk_sent w) @ rest = plan_of p (wk_query w) \<and> (wk_pc w = Returns None \<longrightarrow> rest = [])) \<and>
    map snd (wk_sent w) = map snd (filter (\<lambda>t. fst t = i) (fw_turns s)) \<and> (\<forall>e. wk_pc w \<noteq> Crashed e)"
proof -
  have "workers_ok p s"
    using forward_run_ok[OF assms(1,2) turns_ok_start[OF assms(1)] workers_ok_start assms(3)] by blast
  then have "worker_ok p (fw_turns s) i w"
    using assms(4,5) by (auto simp: workers_ok_def)
  then show ?thesis
    by (fastforce simp: worker_ok_def)
qed

text \<open>
  The loop of a query is the code's sequential loop: a query that is not interleaved with others returns, or
  panics, with the result of \<open>HandleDNS\<close>, after the same requests, and leaves the same rotation.
\<close>

theorem undisturbed_query_is_sequential:
  assumes "fw_workers s i = None" and "forward_step (Arrive i tcp r) s = Some s1"
    and "handle_dns ex tcp (Some (fw_proxy s)) r = (res, Some p', sent)"
  shows "\<exists>s' w. rtranclp (alone_step ex i) s1 s' \<and> fw_proxy s' = p' \<and> fw_workers s' i = Some w \<and> wk_sent w = sent \<and>
    wk_pc w = (case res of Ret resp \<Rightarrow> Returns resp | Panic e \<Rightarrow> Crashed e)"
  using undisturbed_query[OF assms] .

text \<open>
  C13. The order of the turns is the only thing queries share, and it is enough to break the promise of the sequential loop
  that a query without a reply has asked every upstream: with other queries in between, a query can spend all its
  attempts on one upstream, however many there are, and return without a response.
\<close>

theorem query_can_be_starved:
  assumes "rotate_ok (px_rotate p)" and "0 < rc_attempts (px_config p)" and "m_question r \<noteq> []"
    and "expand_query p (q_name (hd (m_question r))) = [d]"
  shows "\<exists>es s w. forward_run es (forwarding_of p) = Some s \<and> list_all lawful_answer es \<and> fw_workers s 0 = Some w \<and>
    wk_query w = r \<and> wk_pc w = Returns None \<and>
    wk_sent w = replicate (nat (rc_attempts (px_config p))) (set_qname d r, turn (px_rotate p) 0)"
proof -
  let ?k = "nat (rc_attempts (px_config p))"
  let ?w = "(new_worker p False r)\<lparr>wk_pc := AtAttempts ?k (set_qname d r) []\<rparr>"
  let ?s = "(forwarding_of p)\<lparr>fw_workers := [0 \<mapsto> ?w]\<rparr>"
  have "wk_pc (new_worker p False r) = AtDomains [d]" "wk_query (new_worker p False r) = r"
    "wk_sent (new_worker p False r) = []"
    using assms(3,4) by (cases "m_question r"; simp add: new_worker_def)+
  note w = this
  have run: "forward_run [Arrive 0 False r, Control 0] (forwarding_of p) = Some ?s"
    using w by (simp add: forwarding_of_def move_worker_def)
  have "turns_ok p ?s"
    using turns_ok_start[OF assms(1)] by (simp add: turns_ok_def)
  moreover have "\<forall>i \<ge> 1. fw_workers ?s i = None"
    by (simp add: forwarding_of_def)
  ultimately obtain es s' w' where es: "forward_run es ?s = Some s'" "list_all lawful_answer es" "fw_workers s' 0 = Some w'"
    "wk_pc w' = Returns None" "wk_query w' = r" "wk_sent w' = replicate ?k (set_qname d r, turn (px_rotate p) 0)"
    using starve[OF assms(1-4), of 1 ?s ?w ?k] w by (auto simp: forwarding_of_def)
  have "forward_run ([Arrive 0 False r, Control 0] @ es) (forwarding_of p) = Some s'"
    unfolding forward_run_append run using es(1) by simp
  with es show ?thesis
    by (intro exI[of _ "[Arrive 0 False r, Control 0] @ es"] exI[of _ s'] exI[of _ w']) simp
qed

text \<open>
  C14. Every query ends, whatever the others do and the upstreams answer: with \<open>n\<close> names and \<open>a\<close> attempts it takes at most
  \<open>1 + n * (2 a + 2)\<close> steps of its own, and as long as it has not returned (or panicked) no other query can keep it
  from its next step.
\<close>

theorem every_query_ends:
  assumes "fw_workers s i = None" and "forward_step (Arrive i tcp r) s = Some s1" and "forward_run es s1 = Some s'"
  shows "\<exists>w. fw_workers s' i = Some w \<and>
    length (filter (moves_query i) es) \<le> (case m_question r of [] \<Rightarrow> 0
      | q # _ \<Rightarrow> 1 + length (expand_query (fw_proxy s) (q_name q)) * (2 * attempts_of s + 2)) \<and>
    ((\<exists>resp. wk_pc w = Returns resp) \<or> (\<exists>e. wk_pc w = Crashed e) \<or> can_move i s')"
proof -
  let ?w = "new_worker (fw_proxy s) tcp r"
  have s1: "fw_workers s1 i = Some ?w" "attempts_of s1 = attempts_of s"
    using assms(1,2) by (auto simp: attempts_of_def)
  obtain w where w: "fw_workers s' i = Some w"
    "steps_left (attempts_of s) (wk_pc w) + length (filter (moves_query i) es) \<le> steps_left (attempts_of s) (wk_pc ?w)"
    using forward_run_progress[OF assms(3) s1(1)] s1(2) by auto
  moreover have "steps_left (attempts_of s) (wk_pc ?w) = (case m_question r of [] \<Rightarrow> 0
      | q # _ \<Rightarrow> 1 + length (expand_query (fw_proxy s) (q_name q)) * (2 * attempts_of s + 2))"
    by (simp add: new_worker_def split: list.split)
  ultimately show ?thesis
    using can_move_iff[OF w(1)] by auto
qed

section \<open>Witnesses\<close>

text \<open>Two upstreams, and a query that has asked the first while a second one has asked the other.\<close>

definition two_upstreams :: proxy where
  "two_upstreams = sample_proxy [''a:53'', ''b:53'']"

definition two_queries :: "forward_event list" where
  "two_queries = [Arrive 0 False sample_query, Control 0, Arrive 1 True sample_query, TakeTurn 0, Control 1, TakeTurn 1]"

lemma two_upstreams_ok: "rotate_ok (px_rotate two_upstreams)" "distinct (ru_servers (px_rotate two_upstreams))"
  "expand_query two_upstreams (q_name (hd (m_question sample_query))) = [''web.prod.'']"
  by (simp_all add: two_upstreams_def sample_proxy_def sample_query_def rotate_ok_def expand_query_def count_char_def
      add_quota_def has_suffix_def)

lemma two_queries_run:
  "\<exists>s w. forward_run two_queries (forwarding_of two_upstreams) = Some s \<and> fw_workers s 0 = Some w \<and>
     wk_query w = sample_query \<and> wk_pc w = Exchanging 1 (set_qname ''web.prod.'' sample_query) ''a:53'' [] \<and>
     map snd (fw_turns s) = [''a:53'', ''b:53'']"
  using two_upstreams_ok(3)
  by (simp add: two_queries_def forwarding_of_def two_upstreams_def sample_proxy_def sample_query_def move_worker_def
      new_worker_def take_turn_def rotate_next_def expand_query_def count_char_def add_quota_def has_suffix_def
      numeral_2_eq_2 set_qname_def)

theorem every_query_ends_witness:
  "\<exists>s w. forward_run two_queries (forwarding_of two_upstreams) = Some s \<and> fw_workers s 0 = Some w \<and> can_move 0 s \<and>
     length (filter (moves_query 0) (tl two_queries)) \<le> 7"
proof -
  obtain s w where s: "forward_run two_queries (forwarding_of two_upstreams) = Some s" "fw_workers s 0 = Some w"
    "wk_pc w = Exchanging 1 (set_qname ''web.prod.'' sample_query) ''a:53'' []"
    using two_queries_run by blast
  obtain s1 where s1: "forward_step (Arrive 0 False sample_query) (forwarding_of two_upstreams) = Some s1"
    "forward_run (tl two_queries) s1 = Some s"
    using s(1) by (auto simp: two_queries_def split: option.splits)
  have empty: "fw_workers (forwarding_of two_upstreams) 0 = None"
    by (simp add: forwarding_of_def)
  have "attempts_of (forwarding_of two_upstreams) = 2" "fw_proxy (forwarding_of two_upstreams) = two_upstreams"
    by (simp_all add: attempts_of_def forwarding_of_def two_upstreams_def sample_proxy_def)
  moreover have "m_question sample_query = [hd (m_question sample_query)]"
    by (simp add: sample_query_def)
  ultimately show ?thesis
    using every_query_ends[OF empty s1] s two_upstreams_ok(3) by (auto split: list.splits)
qed

theorem concurrent_turns_fair_witness:
  "\<exists>s. forward_run two_queries (forwarding_of two_upstreams) = Some s \<and>
     count_list (map snd (fw_turns s)) ''a:53'' \<le> count_list (map snd (fw_turns s)) ''b:53'' + 1"
proof -
  obtain s where s: "forward_run two_queries (forwarding_of two_upstreams) = Some s"
    using two_queries_run by blast
  have "''a:53'' \<in> set (ru_servers (px_rotate two_upstreams))" "''b:53'' \<in> set (ru_servers (px_rotate two_upstreams))"
    by (simp_all add: two_upstreams_def sample_proxy_def)
  from concurrent_turns_fair[OF two_upstreams_ok(1,2) forward_run_reach[OF s forward_reach.start] this] s
  show ?thesis by blast
qed

theorem concurrent_query_plan_witness:
  "\<exists>s w rest. forward_run two_queries (forwarding_of two_upstreams) = Some s \<and> fw_workers s 0 = Some w \<and>
     map fst (wk_sent w) @ rest = plan_of two_upstreams sample_query"
proof -
  obtain s w where s: "forward_run two_queries (forwarding_of two_upstreams) = Some s" "fw_workers s 0 = Some w"
    "wk_query w = sample_query"
    using two_queries_run by blast
  have q: "list_all lawful_answer two_queries" "m_question (wk_query w) \<noteq> []"
    by (simp_all add: two_queries_def s(3)) (simp add: sample_query_def)
  from concurrent_query_plan[OF two_upstreams_ok(1) s(1) q(1) s(2) q(2)] s show ?thesis
    by auto
qed

theorem undisturbed_query_is_sequential_witness:
  "\<exists>s1 s' w. forward_step (Arrive 0 False sample_query) (forwarding_of two_upstreams) = Some s1 \<and>
     rtranclp (alone_step sample_exchange 0) s1 s' \<and> fw_workers s' 0 = Some w \<and> length (wk_sent w) = 2 \<and>
     wk_pc w = Returns (Some (set_qname ''web.prod.'' sample_query))"
proof -
  obtain s1 where s1: "forward_step (Arrive 0 False sample_query) (forwarding_of two_upstreams) = Some s1"
    by (simp add: forwarding_of_def)
  have "fw_workers (forwarding_of two_upstreams) 0 = None" "fw_proxy (forwarding_of two_upstreams) = two_upstreams"
    by (simp_all add: forwarding_of_def)
  from undisturbed_query_is_sequential[OF this(1) s1, unfolded this(2), OF sample_forwarded[folded two_upstreams_def]] s1
  show ?thesis by auto
qed

theorem query_can_be_starved_witness:
  "\<exists>es s w. forward_run es (forwarding_of two_upstreams) = Some s \<and> fw_workers s 0 = Some w \<and>
     wk_pc w = Returns None \<and> length (wk_sent w) = 2 \<and> ''b:53'' \<notin> snd ` set (wk_sent w) \<and>
     ''b:53'' \<in> set (rc_upstream (px_config two_upstreams))"
proof -
  have p: "0 < rc_attempts (px_config two_upstreams)" "m_question sample_query \<noteq> []"
    "rc_attempts (px_config two_upstreams) = 2" "turn (px_rotate two_upstreams) 0 = ''a:53''"
    "''b:53'' \<in> set (rc_upstream (px_config two_upstreams))"
    by (simp_all add: two_upstreams_def sample_proxy_def sample_query_def turn_def)
  from query_can_be_starved[OF two_upstreams_ok(1) p(1,2) two_upstreams_ok(3)] p(3-5) show ?thesis
    by fastforce
qed

end
