(* ===== verification/Concurrent.thy ===== *)
theory Concurrent
  imports Serving Forwarding
begin

text \<open>
  The DNS server with all its goroutines: the library \<open>miekg/dns\<close> runs \<open>ServeDNS\<close> of \<open>src/internal/resolver/handler.go\<close>
  for every request in a goroutine of its own. The requests share the plugins, which the reload goroutines change, and the
  recursor. A step is one access to what is shared; \<open>Serving\<close> has the same handler as one step, \<open>Forwarding\<close> the recursor.
\<close>

section \<open>States and steps\<close>

text \<open>
  Where a request is: at the loop over the resolvers, with the question, the name without search domain and the resolvers
  left; between the two lookups of the mesh plugin; in the recursor, where the worker of its number says more; ended with
  the messages written; ended by a panic, which the handler recovers.
\<close>

datatype request_pc =
    AtResolvers question string "string list"
  | AtSecondLookup question string string "string list"
  | InRecursor
  | Replied "dns_msg list"
  | Recovered go_panic

record request =
  rq_handler :: dns_handler
  rq_tcp :: bool
  rq_msg :: dns_msg
  rq_pc :: request_pc

text \<open>The shared proxy is part of the recursor's state; without a configured recursor there is none.\<close>

record concurrent =
  cn_store :: plugin_store
  cn_reloaders :: "string_set list"
  cn_forward :: "forwarding option"
  cn_requests :: "nat \<rightharpoonup> request"

definition serving_of :: "concurrent \<Rightarrow> serving" where
  "serving_of c = \<lparr>sg_store = cn_store c, sg_proxy = map_option fw_proxy (cn_forward c), sg_reloaders = cn_reloaders c\<rparr>"

definition concurrent_of :: "serving \<Rightarrow> concurrent" where
  "concurrent_of st = \<lparr>cn_store = sg_store st, cn_reloaders = sg_reloaders st,
     cn_forward = map_option forwarding_of (sg_proxy st), cn_requests = Map.empty\<rparr>"

text \<open>\<open>ServeDNS\<close> up to its loop; a type that is not resolved here skips the loop.\<close>

definition receive_pc :: "dns_lib \<Rightarrow> proxy option \<Rightarrow> dns_handler \<Rightarrow> dns_msg \<Rightarrow> request_pc" where
  "receive_pc L px d req =
     (case m_question req of
        [] \<Rightarrow> Replied (write_dns_code L (dh_protocol d) req RcodeRefused [])
      | question # _ \<Rightarrow>
          AtResolvers question (preprocess px (q_name question))
            (if can_do_resolve (q_type question) then dh_resolvers d else []))"

definition new_request :: "dns_lib \<Rightarrow> proxy option \<Rightarrow> dns_handler \<Rightarrow> bool \<Rightarrow> dns_msg \<Rightarrow> request" where
  "new_request L px d remote_tcp req =
     \<lparr>rq_handler = d, rq_tcp = remote_tcp, rq_msg = req, rq_pc = receive_pc L px d req\<rparr>"

text \<open>The two lookups of \<open>ServeDNS\<close> of the mesh plugin; after the first, either the result or the second lookup.\<close>

definition mesh_first :: "resolver_mesh \<Rightarrow> question \<Rightarrow> string \<Rightarrow> dns_msg option go option" where
  "mesh_first r question qname =
     (if \<not> snd (match_suffix qname (rm_suffix r)) then Some (Ret None)
      else (case rm_local r of
              None \<Rightarrow> Some (Panic NilDereference)
            | Some srv \<Rightarrow> map_option (\<lambda>ret. Ret (Some ret)) (local_serve srv question qname)))"

definition mesh_second :: "resolver_mesh \<Rightarrow> question \<Rightarrow> string \<Rightarrow> dns_msg option go" where
  "mesh_second r question qname =
     (case (rm_config r, rm_local r) of
        (Some cfg, Some srv) \<Rightarrow> Ret (local_serve srv question (remove_quota qname @ ''.'' @ mc_namespace cfg @ ''.''))
      | _ \<Rightarrow> Panic NilDereference)"

definition after_resolver :: "dns_lib \<Rightarrow> request \<Rightarrow> dns_msg option go \<Rightarrow> request_pc \<Rightarrow> request_pc" where
  "after_resolver L rq res next_pc =
     (case res of
        Panic e \<Rightarrow> Recovered e
      | Ret (Some resp) \<Rightarrow> Replied (write_dns_response L (dh_protocol (rq_handler rq)) (rq_msg rq) resp [])
      | Ret None \<Rightarrow> next_pc)"

fun resolver_step :: "dns_lib \<Rightarrow> string \<Rightarrow> plugin_store \<Rightarrow> request \<Rightarrow> request_pc \<Rightarrow> request_pc option" where
  "resolver_step L server_ns store rq (AtResolvers question qname (n # ns)) =
     Some (case store n of
        None \<Rightarrow> AtResolvers question qname ns
      | Some (PlugAgent r) \<Rightarrow> after_resolver L rq (dnsagent_serve L server_ns r question qname) (AtResolvers question qname ns)
      | Some (PlugMesh r) \<Rightarrow>
          (case mesh_first r question qname of
             Some res \<Rightarrow> after_resolver L rq res (AtResolvers question qname ns)
           | None \<Rightarrow> AtSecondLookup question qname n ns))"
| "resolver_step L server_ns store rq (AtSecondLookup question qname n ns) =
     (case store n of
        Some (PlugMesh r) \<Rightarrow> Some (after_resolver L rq (mesh_second r question qname) (AtResolvers question qname ns))
      | _ \<Rightarrow> None)"
| "resolver_step L server_ns store rq pc = None"

text \<open>The end of \<open>ServeDNS\<close>, with what \<open>HandleDNS\<close> returned.\<close>

definition recursor_result :: "dns_lib \<Rightarrow> request \<Rightarrow> forward_pc \<Rightarrow> request_pc option" where
  "recursor_result L rq pc =
     (case pc of
        Returns (Some resp) \<Rightarrow> Some (Replied (write_dns_response L (dh_protocol (rq_handler rq)) (rq_msg rq) resp []))
      | Returns None \<Rightarrow> Some (Replied (write_dns_code L (dh_protocol (rq_handler rq)) (rq_msg rq) RcodeServerFailure []))
      | Crashed e \<Rightarrow> Some (Recovered e)
      | _ \<Rightarrow> None)"

text \<open>
  A reload of a goroutine, the arrival of a request at a listener, the next step of a request in the handler, a step of the
  recursor, and the return from it.
\<close>

datatype concurrent_event =
    Tick nat services_call
  | Incoming nat nat bool dns_msg
  | Handle nat
  | Upstream forward_event
  | Return nat

fun is_arrive :: "forward_event \<Rightarrow> bool" where
  "is_arrive (Arrive i tcp r) \<longleftrightarrow> True"
| "is_arrive e \<longleftrightarrow> False"

definition set_pc :: "nat \<Rightarrow> request \<Rightarrow> request_pc \<Rightarrow> concurrent \<Rightarrow> concurrent" where
  "set_pc i rq pc c = c\<lparr>cn_requests := (cn_requests c)(i \<mapsto> rq\<lparr>rq_pc := pc\<rparr>)\<rparr>"

text \<open>The call of \<open>HandleDNS\<close>: a worker of the recursor, or nothing without one.\<close>

definition call_recursor :: "dns_lib \<Rightarrow> nat \<Rightarrow> request \<Rightarrow> concurrent \<Rightarrow> concurrent option" where
  "call_recursor L i rq c =
     (case cn_forward c of
        None \<Rightarrow> Some (set_pc i rq
          (Replied (write_dns_code L (dh_protocol (rq_handler rq)) (rq_msg rq) RcodeServerFailure [])) c)
      | Some f \<Rightarrow> map_option (\<lambda>f'. (set_pc i rq InRecursor c)\<lparr>cn_forward := Some f'\<rparr>)
          (forward_step (Arrive i (rq_tcp rq) (rq_msg rq)) f))"

definition handle_step :: "dns_lib \<Rightarrow> string \<Rightarrow> nat \<Rightarrow> request \<Rightarrow> concurrent \<Rightarrow> concurrent option" where
  "handle_step L server_ns i rq c =
     (case rq_pc rq of
        AtResolvers question qname [] \<Rightarrow> call_recursor L i rq c
      | pc \<Rightarrow> map_option (\<lambda>pc'. set_pc i rq pc' c) (resolver_step L server_ns (cn_store c) rq pc))"

definition return_step :: "dns_lib \<Rightarrow> nat \<Rightarrow> request \<Rightarrow> concurrent \<Rightarrow> concurrent option" where
  "return_step L i rq c =
     (case (rq_pc rq, Option.bind (cn_forward c) (\<lambda>f. fw_workers f i)) of
        (InRecursor, Some w) \<Rightarrow> map_option (\<lambda>pc'. set_pc i rq pc' c) (recursor_result L rq (wk_pc w))
      | _ \<Rightarrow> None)"

text \<open>A step that is not possible is \<open>None\<close>; a panic, which only a reload can end in, is the end of the process.\<close>

fun concurrent_step ::
  "dns_lib \<Rightarrow> string \<Rightarrow> server \<Rightarrow> concurrent_event \<Rightarrow> concurrent \<Rightarrow> concurrent go option" where
  "concurrent_step L server_ns svr (Tick k call) c =
     Some (go_bind (reload_step k call (serving_of c)) (\<lambda>st.
       Ret (c\<lparr>cn_store := sg_store st, cn_reloaders := sg_reloaders st\<rparr>)))"
| "concurrent_step L server_ns svr (Incoming i l tcp req) c =
     (if l < length (sv_dns_servers svr) \<and> cn_requests c i = None then
        Some (Ret (c\<lparr>cn_requests := (cn_requests c)(i \<mapsto>
          new_request L (map_option fw_proxy (cn_forward c)) (ds_handler (sv_dns_servers svr ! l)) tcp req)\<rparr>))
      else None)"
| "concurrent_step L server_ns svr (Handle i) c =
     Option.bind (cn_requests c i) (\<lambda>rq. map_option Ret (handle_step L server_ns i rq c))"
| "concurrent_step L server_ns svr (Upstream e) c =
     (if is_arrive e then None
      else Option.bind (cn_forward c) (\<lambda>f. map_option (\<lambda>f'. Ret (c\<lparr>cn_forward := Some f'\<rparr>)) (forward_step e f)))"
| "concurrent_step L server_ns svr (Return i) c =
     Option.bind (cn_requests c i) (\<lambda>rq. map_option Ret (return_step L i rq c))"

fun concurrent_run ::
  "dns_lib \<Rightarrow> string \<Rightarrow> server \<Rightarrow> concurrent_event list \<Rightarrow> concurrent \<Rightarrow> concurrent go option" where
  "concurrent_run L server_ns svr [] c = Some (Ret c)"
| "concurrent_run L server_ns svr (e # es) c =
     (case concurrent_step L server_ns svr e c of
        None \<Rightarrow> None
      | Some (Panic p) \<Rightarrow> Some (Panic p)
      | Some (Ret c') \<Rightarrow> concurrent_run L server_ns svr es c')"

lemma concurrent_run_append:
  "concurrent_run L server_ns svr (es @ es') c =
     (case concurrent_run L server_ns svr es c of
        Some (Ret c') \<Rightarrow> concurrent_run L server_ns svr es' c'
      | res \<Rightarrow> res)"
  by (induction es arbitrary: c) (auto split: option.splits go.splits)

lemma mesh_lookups:
  "mesh_serve_between r r' question qname =
     (case mesh_first r question qname of Some res \<Rightarrow> res | None \<Rightarrow> mesh_second r' question qname)"
  by (auto simp: mesh_serve_between_def mesh_first_def mesh_second_def split: option.splits)

lemma set_pc_simps [simp]:
  "cn_store (set_pc i rq pc c) = cn_store c" "cn_reloaders (set_pc i rq pc c) = cn_reloaders c"
  "cn_forward (set_pc i rq pc c) = cn_forward c"
  "cn_requests (set_pc i rq pc c) = (cn_requests c)(i \<mapsto> rq\<lparr>rq_pc := pc\<rparr>)"
  by (simp_all add: set_pc_def)

section \<open>The two machines inside\<close>

text \<open>The reloads of a run, as events of the serving machine, and the steps of the recursor.\<close>

definition reloads_of :: "concurrent_event list \<Rightarrow> serving_event list" where
  "reloads_of es = List.map_filter (\<lambda>e. case e of Tick k call \<Rightarrow> Some (Reload k call) | _ \<Rightarrow> None) es"

definition upstream_of :: "concurrent_event list \<Rightarrow> forward_event list" where
  "upstream_of es = List.map_filter (\<lambda>e. case e of Upstream fe \<Rightarrow> Some fe | _ \<Rightarrow> None) es"

lemma events_of_simps [simp]:
  "reloads_of [] = []" "reloads_of (Tick k call # es) = Reload k call # reloads_of es"
  "reloads_of (Incoming i l tcp req # es) = reloads_of es" "reloads_of (Handle i # es) = reloads_of es"
  "reloads_of (Upstream fe # es) = reloads_of es" "reloads_of (Return i # es) = reloads_of es"
  "upstream_of [] = []" "upstream_of (Tick k call # es) = upstream_of es"
  "upstream_of (Incoming i l tcp req # es) = upstream_of es" "upstream_of (Handle i # es) = upstream_of es"
  "upstream_of (Upstream fe # es) = fe # upstream_of es" "upstream_of (Return i # es) = upstream_of es"
  by (simp_all add: reloads_of_def upstream_of_def List.map_filter_simps)

lemma reloads_of_append [simp]: "reloads_of (es @ es') = reloads_of es @ reloads_of es'"
  by (simp add: reloads_of_def List.map_filter_def)

lemma reload_step_proxy:
  "reload_step k call (st\<lparr>sg_proxy := px\<rparr>) = go_bind (reload_step k call st) (\<lambda>st'. Ret (st'\<lparr>sg_proxy := px\<rparr>))"
  by (auto simp: reload_step_def go_bind_def split: option.splits plugin.splits go.splits prod.splits)

text \<open>What a step does to the plugins, and what to the recursor.\<close>

lemma handle_step_frame:
  "handle_step L server_ns i rq c = Some c' \<Longrightarrow> cn_store c' = cn_store c \<and> cn_reloaders c' = cn_reloaders c \<and>
     (cn_forward c' = cn_forward c \<or>
      (\<exists>f f'. cn_forward c = Some f \<and> forward_step (Arrive i (rq_tcp rq) (rq_msg rq)) f = Some f' \<and> cn_forward c' = Some f'))"
  by (auto simp: handle_step_def call_recursor_def split: request_pc.splits list.splits option.splits)

lemma return_step_frame:
  "return_step L i rq c = Some c' \<Longrightarrow>
     cn_store c' = cn_store c \<and> cn_reloaders c' = cn_reloaders c \<and> cn_forward c' = cn_forward c"
  by (auto simp: return_step_def split: request_pc.splits option.splits)

lemma step_plugins:
  assumes "concurrent_step L server_ns svr e c = Some (Ret c')" and "\<And>k call. e \<noteq> Tick k call"
  shows "cn_store c' = cn_store c \<and> cn_reloaders c' = cn_reloaders c"
  using assms by (cases e) (auto simp: bind_eq_Some_conv dest: handle_step_frame return_step_frame split: if_splits)

lemma step_recursor:
  assumes "concurrent_step L server_ns svr e c = Some (Ret c')"
  shows "(cn_forward c' = cn_forward c \<and> (\<forall>fe. e \<noteq> Upstream fe)) \<or>
    (\<exists>f fe f'. cn_forward c = Some f \<and> forward_step fe f = Some f' \<and> cn_forward c' = Some f' \<and>
       (e = Upstream fe \<and> \<not> is_arrive fe \<or> is_arrive fe \<and> (\<forall>fe. e \<noteq> Upstream fe)))"
proof (cases e)
  case (Handle i)
  then obtain rq where "handle_step L server_ns i rq c = Some c'"
    using assms by (auto simp: bind_eq_Some_conv)
  from handle_step_frame[OF this] Handle show ?thesis
    by fastforce
qed (use assms in \<open>auto simp: bind_eq_Some_conv go_bind_Ret_iff dest: return_step_frame split: if_splits\<close>)

lemma run_reloads:
  assumes "concurrent_run L server_ns svr es c = Some res"
  shows "serving_run L server_ns ex svr (reloads_of es)
      \<lparr>sg_store = cn_store c, sg_proxy = px, sg_reloaders = cn_reloaders c\<rparr> =
    go_bind res (\<lambda>c'. Ret ([], \<lparr>sg_store = cn_store c', sg_proxy = px, sg_reloaders = cn_reloaders c'\<rparr>))"
  using assms
proof (induction es arbitrary: c)
  case (Cons e es)
  show ?case
  proof (cases "\<exists>k call. e = Tick k call")
    case True
    then obtain k call where e: "e = Tick k call" by blast
    let ?st = "\<lparr>sg_store = cn_store c, sg_proxy = px, sg_reloaders = cn_reloaders c\<rparr>"
    have "?st = (serving_of c)\<lparr>sg_proxy := px\<rparr>"
      by (simp add: serving_of_def)
    then have r: "reload_step k call ?st = go_bind (reload_step k call (serving_of c)) (\<lambda>st'. Ret (st'\<lparr>sg_proxy := px\<rparr>))"
      by (simp only: reload_step_proxy)
    show ?thesis
    proof (cases "reload_step k call (serving_of c)")
      case (Panic p)
      with Cons.prems r e show ?thesis by auto
    next
      case (Ret st)
      let ?c = "c\<lparr>cn_store := sg_store st, cn_reloaders := sg_reloaders st\<rparr>"
      have "concurrent_run L server_ns svr es ?c = Some res"
        using Cons.prems Ret e by simp
      moreover have "reload_step k call ?st = Ret \<lparr>sg_store = sg_store st, sg_proxy = px, sg_reloaders = sg_reloaders st\<rparr>"
        by (simp only: r Ret go_bind_simps) (cases st, simp)
      ultimately show ?thesis
        using Cons.IH[of ?c] by (simp add: e)
    qed
  next
    case False
    then have "reloads_of (e # es) = reloads_of es"
      by (cases e) auto
    moreover obtain c1 where c1: "concurrent_step L server_ns svr e c = Some (Ret c1)" "concurrent_run L server_ns svr es c1 = Some res"
      using Cons.prems False
      by (cases e) (auto simp: bind_eq_Some_conv split: option.splits go.splits if_splits)
    moreover have "cn_store c1 = cn_store c \<and> cn_reloaders c1 = cn_reloaders c"
      using step_plugins[OF c1(1)] False by blast
    ultimately show ?thesis
      using Cons.IH[OF c1(2)] by simp
  qed
qed auto

lemma run_forwards:
  assumes "concurrent_run L server_ns svr es c = Some (Ret c')"
  shows "case cn_forward c of
      None \<Rightarrow> cn_forward c' = None
    | Some f \<Rightarrow> \<exists>fes f'. cn_forward c' = Some f' \<and> forward_run fes f = Some f' \<and>
        filter (\<lambda>fe. \<not> is_arrive fe) fes = upstream_of es"
  using assms
proof (induction es arbitrary: c)
  case Nil
  then show ?case
    by (auto split: option.splits intro!: exI[of _ "[]"])
next
  case (Cons e es)
  obtain c1 where c1: "concurrent_step L server_ns svr e c = Some (Ret c1)" "concurrent_run L server_ns svr es c1 = Some (Ret c')"
    using Cons.prems by (auto split: option.splits go.splits)
  note IH = Cons.IH[OF c1(2)]
  from step_recursor[OF c1(1)] show ?case
  proof
    assume same: "cn_forward c1 = cn_forward c \<and> (\<forall>fe. e \<noteq> Upstream fe)"
    then have up: "upstream_of (e # es) = upstream_of es"
      by (cases e) auto
    show ?thesis
      using IH unfolding conjunct1[OF same] up .
  next
    assume "\<exists>f fe f'. cn_forward c = Some f \<and> forward_step fe f = Some f' \<and> cn_forward c1 = Some f' \<and>
       (e = Upstream fe \<and> \<not> is_arrive fe \<or> is_arrive fe \<and> (\<forall>fe. e \<noteq> Upstream fe))"
    then obtain f fe f1 where f: "cn_forward c = Some f" "forward_step fe f = Some f1" "cn_forward c1 = Some f1"
      and kind: "e = Upstream fe \<and> \<not> is_arrive fe \<or> is_arrive fe \<and> (\<forall>fe. e \<noteq> Upstream fe)"
      by blast
    obtain fes f' where fes: "cn_forward c' = Some f'" "forward_run fes f1 = Some f'"
      "filter (\<lambda>fe. \<not> is_arrive fe) fes = upstream_of es"
      using IH f(3) by auto
    have "filter (\<lambda>fe. \<not> is_arrive fe) (fe # fes) = upstream_of (e # es)"
      using kind fes(3) by (cases e) auto
    then show ?thesis
      using f fes by (auto intro!: exI[of _ "fe # fes"])
  qed
qed

section \<open>Requests and workers\<close>

text \<open>
  The invariant of the requests: one in the loop has its first question, no worker yet and, between the two lookups, the
  mesh plugin; one in the recursor has a worker with its message; one that is answered has one reply of the right shape.
\<close>

definition reply_to :: "dns_lib \<Rightarrow> request \<Rightarrow> dns_msg list \<Rightarrow> bool" where
  "reply_to L rq msgs \<longleftrightarrow>
     (let proto = dh_protocol (rq_handler rq) in
      if m_question (rq_msg rq) = [] then msgs = [code_msg L proto (rq_msg rq) RcodeRefused]
      else msgs = [code_msg L proto (rq_msg rq) RcodeServerFailure] \<or>
        (\<exists>resp. msgs = [response_msg L proto (rq_msg rq) resp]))"

definition workers_at :: "concurrent \<Rightarrow> nat \<Rightarrow> worker option" where
  "workers_at c i = Option.bind (cn_forward c) (\<lambda>f. fw_workers f i)"

definition is_mesh :: "plugin_store \<Rightarrow> string \<Rightarrow> bool" where
  "is_mesh store n \<longleftrightarrow> (\<exists>r. store n = Some (PlugMesh r))"

fun request_ok :: "dns_lib \<Rightarrow> (string \<Rightarrow> bool) \<Rightarrow> worker option \<Rightarrow> request \<Rightarrow> request_pc \<Rightarrow> bool" where
  "request_ok L mesh w rq (AtResolvers q qname ns) \<longleftrightarrow> (\<exists>qs. m_question (rq_msg rq) = q # qs) \<and> w = None"
| "request_ok L mesh w rq (AtSecondLookup q qname n ns) \<longleftrightarrow>
     (\<exists>qs. m_question (rq_msg rq) = q # qs) \<and> w = None \<and> mesh n"
| "request_ok L mesh w rq InRecursor \<longleftrightarrow> m_question (rq_msg rq) \<noteq> [] \<and> (\<exists>v. w = Some v \<and> wk_query v = rq_msg rq)"
| "request_ok L mesh w rq (Replied msgs) \<longleftrightarrow> reply_to L rq msgs"
| "request_ok L mesh w rq (Recovered e) \<longleftrightarrow> m_question (rq_msg rq) \<noteq> []"

definition requests_ok :: "dns_lib \<Rightarrow> concurrent \<Rightarrow> bool" where
  "requests_ok L c \<longleftrightarrow> (\<forall>i. case cn_requests c i of
     None \<Rightarrow> workers_at c i = None
   | Some rq \<Rightarrow> request_ok L (is_mesh (cn_store c)) (workers_at c i) rq (rq_pc rq))"

lemma requests_okD:
  "requests_ok L c \<Longrightarrow> cn_requests c i = Some rq \<Longrightarrow> request_ok L (is_mesh (cn_store c)) (workers_at c i) rq (rq_pc rq)"
  "requests_ok L c \<Longrightarrow> cn_requests c i = None \<Longrightarrow> workers_at c i = None"
  unfolding requests_ok_def by (drule spec[of _ i]; simp)+

text \<open>What is established once for a request stays when only its worker's control point or the mesh plugin moves.\<close>

lemma request_ok_mono:
  assumes "request_ok L mesh w rq pc" and "\<And>n. mesh n \<Longrightarrow> mesh' n"
    and "map_option wk_query w' = map_option wk_query w"
  shows "request_ok L mesh' w' rq pc"
  using assms by (cases pc) auto

lemma requests_ok_frame:
  assumes "requests_ok L c" and "cn_requests c' = cn_requests c" and "\<And>n. is_mesh (cn_store c) n \<Longrightarrow> is_mesh (cn_store c') n"
    and "\<And>i. map_option wk_query (workers_at c' i) = map_option wk_query (workers_at c i)"
  shows "requests_ok L c'"
  unfolding requests_ok_def
proof (rule allI)
  fix i
  show "case cn_requests c' i of None \<Rightarrow> workers_at c' i = None
     | Some rq \<Rightarrow> request_ok L (is_mesh (cn_store c')) (workers_at c' i) rq (rq_pc rq)"
  proof (cases "cn_requests c i")
    case None
    with requests_okD(2)[OF assms(1) None] assms(2) assms(4)[of i] show ?thesis by simp
  next
    case (Some rq)
    from request_ok_mono[OF requests_okD(1)[OF assms(1) Some] assms(3,4)] assms(2) Some show ?thesis
      by simp
  qed
qed

text \<open>One request moves: the others keep their workers.\<close>

lemma requests_ok_upd:
  assumes "requests_ok L c" and "cn_requests c' = (cn_requests c)(i \<mapsto> rq)" and "cn_store c' = cn_store c"
    and "\<And>j. j \<noteq> i \<Longrightarrow> workers_at c' j = workers_at c j"
    and "request_ok L (is_mesh (cn_store c)) (workers_at c' i) rq (rq_pc rq)"
  shows "requests_ok L c'"
  unfolding requests_ok_def
proof (rule allI)
  fix j
  show "case cn_requests c' j of None \<Rightarrow> workers_at c' j = None
     | Some rq \<Rightarrow> request_ok L (is_mesh (cn_store c')) (workers_at c' j) rq (rq_pc rq)"
    using requests_okD[OF assms(1), of j] assms(2-5) by (cases "j = i"; cases "cn_requests c j") simp_all
qed

lemma take_turn_frame:
  "take_turn i w f = Some f' \<Longrightarrow> px_config (fw_proxy f') = px_config (fw_proxy f) \<and>
     (\<exists>w'. fw_workers f' = (fw_workers f)(i \<mapsto> w') \<and> wk_query w' = wk_query w)"
  by (auto simp: take_turn_def split: forward_pc.splits nat.splits go.splits)

lemma forward_step_queries:
  assumes "forward_step fe f = Some f'" and "\<not> is_arrive fe"
  shows "map_option wk_query (fw_workers f' i) = map_option wk_query (fw_workers f i)"
  using assms by (cases fe) (auto simp: move_worker_Some bind_eq_Some_conv dest!: take_turn_frame)

lemma forward_step_config:
  "forward_step fe f = Some f' \<Longrightarrow> px_config (fw_proxy f') = px_config (fw_proxy f)"
  by (cases fe) (auto simp: move_worker_Some bind_eq_Some_conv split: option.splits dest!: take_turn_frame)

lemma reload_step_mesh:
  "reload_step k call st = Ret st' \<Longrightarrow> is_mesh (sg_store st) n \<Longrightarrow> is_mesh (sg_store st') n"
  by (auto simp: reload_step_def is_mesh_def go_bind_Ret_iff split: option.splits plugin.splits if_splits)

lemma reply_to_pc [simp]: "reply_to L (rq\<lparr>rq_pc := pc\<rparr>) = reply_to L rq"
  by (simp add: reply_to_def fun_eq_iff)

lemma request_ok_pc [simp]: "request_ok L mesh w (rq\<lparr>rq_pc := pc'\<rparr>) pc = request_ok L mesh w rq pc"
  by (cases pc) simp_all

text \<open>The replies the handler writes.\<close>

lemma written_replies:
  "m_question (rq_msg rq) \<noteq> [] \<Longrightarrow> reply_to L rq (write_dns_response L (dh_protocol (rq_handler rq)) (rq_msg rq) resp [])"
  "m_question (rq_msg rq) \<noteq> [] \<Longrightarrow>
     reply_to L rq (write_dns_code L (dh_protocol (rq_handler rq)) (rq_msg rq) RcodeServerFailure [])"
  by (auto simp: reply_to_def write_dns_code_eq write_dns_response_eq Let_def)

lemma after_resolver_ok:
  "m_question (rq_msg rq) \<noteq> [] \<Longrightarrow> request_ok L mesh w rq pc \<Longrightarrow> request_ok L mesh w rq (after_resolver L rq res pc)"
  by (auto simp: after_resolver_def written_replies split: go.splits option.splits)

lemma resolver_step_ok:
  assumes "resolver_step L server_ns store rq pc = Some pc'" and "request_ok L (is_mesh store) w rq pc"
  shows "request_ok L (is_mesh store) w rq pc'"
  using assms
  by (cases "(L, server_ns, store, rq, pc)" rule: resolver_step.cases)
    (auto simp: is_mesh_def intro!: after_resolver_ok split: option.splits plugin.splits)

lemma receive_pc_ok: "request_ok L mesh None (new_request L px d tcp req) (receive_pc L px d req)"
  by (auto simp: receive_pc_def new_request_def reply_to_def write_dns_code_eq Let_def split: list.split)

lemma recursor_result_ok:
  "recursor_result L rq pc = Some pc' \<Longrightarrow> m_question (rq_msg rq) \<noteq> [] \<Longrightarrow> request_ok L mesh w rq pc'"
  by (auto simp: recursor_result_def written_replies split: forward_pc.splits option.splits)

lemma handle_step_ok:
  assumes "requests_ok L c" and "cn_requests c i = Some rq" and "handle_step L server_ns i rq c = Some c'"
  shows "requests_ok L c'"
proof (cases "\<exists>q qname. rq_pc rq = AtResolvers q qname []")
  case True
  then obtain q qname where pc: "rq_pc rq = AtResolvers q qname []" by blast
  note ok = requests_okD(1)[OF assms(1,2)]
  show ?thesis
  proof (cases "cn_forward c")
    case None
    then have c': "c' = set_pc i rq (Replied (write_dns_code L (dh_protocol (rq_handler rq)) (rq_msg rq) RcodeServerFailure [])) c"
      using assms(3) by (simp add: handle_step_def pc call_recursor_def)
    show ?thesis
      by (rule requests_ok_upd[OF assms(1), of c' i]) (use ok pc in \<open>auto simp: c' workers_at_def written_replies(2)\<close>)
  next
    case (Some f)
    then obtain f' where f': "forward_step (Arrive i (rq_tcp rq) (rq_msg rq)) f = Some f'"
      "c' = (set_pc i rq InRecursor c)\<lparr>cn_forward := Some f'\<rparr>"
      using assms(3) by (auto simp: handle_step_def pc call_recursor_def)
    then have w: "fw_workers f' = (fw_workers f)(i \<mapsto> new_worker (fw_proxy f) (rq_tcp rq) (rq_msg rq))"
      by (auto split: option.splits)
    show ?thesis
      by (rule requests_ok_upd[OF assms(1), of c' i])
        (use ok pc w Some in \<open>auto simp: f'(2) workers_at_def new_worker_def\<close>)
  qed
next
  case False
  then obtain pc' where pc': "resolver_step L server_ns (cn_store c) rq (rq_pc rq) = Some pc'" "c' = set_pc i rq pc' c"
    using assms(3) by (auto simp: handle_step_def split: request_pc.splits list.splits)
  show ?thesis
    by (rule requests_ok_upd[OF assms(1), of c' i "rq\<lparr>rq_pc := pc'\<rparr>"])
      (use resolver_step_ok[OF pc'(1) requests_okD(1)[OF assms(1,2)]] in \<open>simp_all add: pc'(2) workers_at_def\<close>)
qed

lemma return_step_ok:
  assumes "requests_ok L c" and "cn_requests c i = Some rq" and "return_step L i rq c = Some c'"
  shows "requests_ok L c'"
proof -
  obtain w pc' where w: "rq_pc rq = InRecursor" "workers_at c i = Some w" "recursor_result L rq (wk_pc w) = Some pc'"
    "c' = set_pc i rq pc' c"
    using assms(3) by (auto simp: return_step_def workers_at_def split: request_pc.splits option.splits)
  have "m_question (rq_msg rq) \<noteq> []"
    using requests_okD(1)[OF assms(1,2)] w(1) by simp
  from recursor_result_ok[OF w(3) this] show ?thesis
    by (intro requests_ok_upd[OF assms(1), of c' i "rq\<lparr>rq_pc := pc'\<rparr>"]) (simp_all add: w(4) workers_at_def)
qed

lemma requests_ok_step:
  assumes "requests_ok L c" and "concurrent_step L server_ns svr e c = Some (Ret c')"
  shows "requests_ok L c'"
proof (cases e)
  case (Tick k call)
  then obtain st where "reload_step k call (serving_of c) = Ret st"
    "c' = c\<lparr>cn_store := sg_store st, cn_reloaders := sg_reloaders st\<rparr>"
    using assms(2) by (auto simp: go_bind_Ret_iff)
  then show ?thesis
    using reload_step_mesh[of k call "serving_of c" st]
    by (intro requests_ok_frame[OF assms(1)]) (simp_all add: workers_at_def serving_of_def)
next
  case (Incoming i l tcp req)
  let ?rq = "new_request L (map_option fw_proxy (cn_forward c)) (ds_handler (sv_dns_servers svr ! l)) tcp req"
  have c': "cn_requests c i = None" "c' = c\<lparr>cn_requests := (cn_requests c)(i \<mapsto> ?rq)\<rparr>"
    using assms(2) Incoming by (auto split: if_splits)
  have "workers_at c i = None"
    using requests_okD(2)[OF assms(1) c'(1)] .
  then have "request_ok L (is_mesh (cn_store c)) (workers_at c' i) ?rq (rq_pc ?rq)"
    using receive_pc_ok by (simp add: c'(2) workers_at_def) (simp add: new_request_def)
  then show ?thesis
    by (intro requests_ok_upd[OF assms(1), of c' i ?rq]) (simp_all add: c'(2) workers_at_def)
next
  case (Handle i)
  with assms handle_step_ok show ?thesis
    by (auto simp: bind_eq_Some_conv)
next
  case (Upstream fe)
  then obtain f f' where f: "cn_forward c = Some f" "forward_step fe f = Some f'" "\<not> is_arrive fe"
    "c' = c\<lparr>cn_forward := Some f'\<rparr>"
    using assms(2) by (auto simp: bind_eq_Some_conv split: if_splits)
  then show ?thesis
    using forward_step_queries[OF f(2,3)]
    by (intro requests_ok_frame[OF assms(1)]) (simp_all add: workers_at_def)
next
  case (Return i)
  with assms return_step_ok show ?thesis
    by (auto simp: bind_eq_Some_conv)
qed

lemma requests_ok_run:
  "requests_ok L c \<Longrightarrow> concurrent_run L server_ns svr es c = Some (Ret c') \<Longrightarrow> requests_ok L c'"
  by (induction es arbitrary: c) (auto split: option.splits go.splits dest: requests_ok_step)

lemma requests_ok_start: "requests_ok L (concurrent_of st)"
  by (cases "sg_proxy st") (simp_all add: requests_ok_def concurrent_of_def workers_at_def forwarding_of_def)

section \<open>The end of a request\<close>

text \<open>Which steps are a request's own, and how many it can still take.\<close>

fun moves_request :: "nat \<Rightarrow> concurrent_event \<Rightarrow> bool" where
  "moves_request i (Handle j) \<longleftrightarrow> j = i"
| "moves_request i (Return j) \<longleftrightarrow> j = i"
| "moves_request i (Upstream fe) \<longleftrightarrow> moves_query i fe"
| "moves_request i e \<longleftrightarrow> False"

definition recursor_bound :: "proxy option \<Rightarrow> dns_msg \<Rightarrow> nat" where
  "recursor_bound px req =
     (case (px, m_question req) of
        (Some p, q # _) \<Rightarrow> 2 + length (expand_query p (q_name q)) * (2 * nat (rc_attempts (px_config p)) + 2)
      | _ \<Rightarrow> 0)"

fun pc_left :: "nat \<Rightarrow> nat \<Rightarrow> request_pc \<Rightarrow> nat" where
  "pc_left bound steps (AtResolvers q qname ns) = 2 * length ns + 1 + bound"
| "pc_left bound steps (AtSecondLookup q qname n ns) = 2 * length ns + 2 + bound"
| "pc_left bound steps InRecursor = 1 + steps"
| "pc_left bound steps (Replied msgs) = steps"
| "pc_left bound steps (Recovered e) = steps"

definition worker_left :: "concurrent \<Rightarrow> nat \<Rightarrow> nat" where
  "worker_left c i =
     (case (cn_forward c, workers_at c i) of
        (Some f, Some w) \<Rightarrow> steps_left (attempts_of f) (wk_pc w)
      | _ \<Rightarrow> 0)"

definition request_left :: "concurrent \<Rightarrow> nat \<Rightarrow> request \<Rightarrow> nat" where
  "request_left c i rq =
     pc_left (recursor_bound (map_option fw_proxy (cn_forward c)) (rq_msg rq)) (worker_left c i) (rq_pc rq)"

lemma expand_query_config: "px_config p = px_config p' \<Longrightarrow> expand_query p nm = expand_query p' nm"
  by (simp add: expand_query_def)

lemma recursor_bound_config:
  assumes "map_option px_config px = map_option px_config px'"
  shows "recursor_bound px req = recursor_bound px' req"
proof (cases px)
  case None
  with assms show ?thesis
    by (simp add: recursor_bound_def)
next
  case (Some p)
  with assms obtain p' where p': "px' = Some p'" "px_config p' = px_config p"
    by (cases px') auto
  show ?thesis
    by (cases "m_question req") (simp_all add: recursor_bound_def Some p' expand_query_config[OF p'(2)])
qed

lemma recursor_bound_worker:
  "m_question req \<noteq> [] \<Longrightarrow>
     recursor_bound (Some p) req = 1 + steps_left (nat (rc_attempts (px_config p))) (wk_pc (new_worker p tcp req))"
  by (cases "m_question req") (simp_all add: recursor_bound_def new_worker_def)

text \<open>The configuration of the proxy never changes.\<close>

lemma step_config:
  assumes "concurrent_step L server_ns svr e c = Some (Ret c')"
  shows "map_option px_config (map_option fw_proxy (cn_forward c')) = map_option px_config (map_option fw_proxy (cn_forward c))"
proof -
  consider "cn_forward c' = cn_forward c"
    | f fe f' where "cn_forward c = Some f" "forward_step fe f = Some f'" "cn_forward c' = Some f'"
    using step_recursor[OF assms] by blast
  then show ?thesis
    by cases (simp_all add: forward_step_config)
qed

text \<open>A step leaves every request of the other numbers where it is.\<close>

lemma handle_step_others:
  "handle_step L server_ns i rq c = Some c' \<Longrightarrow> j \<noteq> i \<Longrightarrow>
     cn_requests c' j = cn_requests c j \<and> workers_at c' j = workers_at c j"
  by (auto simp: handle_step_def call_recursor_def workers_at_def
      split: request_pc.splits list.splits option.splits)

lemma return_step_others:
  "return_step L i rq c = Some c' \<Longrightarrow> j \<noteq> i \<Longrightarrow>
     cn_requests c' j = cn_requests c j \<and> workers_at c' j = workers_at c j"
  by (auto simp: return_step_def workers_at_def split: request_pc.splits option.splits)

lemma after_resolver_left: "pc_left bound 0 (after_resolver L rq res pc) \<le> pc_left bound 0 pc"
  by (auto simp: after_resolver_def split: go.splits option.splits)

lemma resolver_step_left:
  assumes "resolver_step L server_ns store rq pc = Some pc'"
  shows "pc_left bound 0 pc' < pc_left bound 0 pc"
  using assms after_resolver_left[of bound L rq _ "AtResolvers _ _ _"]
  by (cases "(L, server_ns, store, rq, pc)" rule: resolver_step.cases)
    (auto simp: less_Suc_eq_le le_SucI split: option.splits plugin.splits)

lemma worker_left_eq:
  assumes "workers_at c' i = workers_at c i"
    and "map_option px_config (map_option fw_proxy (cn_forward c')) = map_option px_config (map_option fw_proxy (cn_forward c))"
  shows "worker_left c' i = worker_left c i"
  using assms by (cases "cn_forward c"; cases "cn_forward c'") (auto simp: worker_left_def attempts_of_def split: option.split)

lemma request_left_eq:
  assumes "workers_at c' i = workers_at c i"
    and "map_option px_config (map_option fw_proxy (cn_forward c')) = map_option px_config (map_option fw_proxy (cn_forward c))"
  shows "request_left c' i rq = request_left c i rq"
  using worker_left_eq[OF assms] recursor_bound_config[OF assms(2)] by (simp add: request_left_def)

lemma handle_step_left:
  assumes "requests_ok L c" and "cn_requests c i = Some rq" and "handle_step L server_ns i rq c = Some c'"
  shows "\<exists>pc. cn_requests c' i = Some (rq\<lparr>rq_pc := pc\<rparr>) \<and> request_left c' i (rq\<lparr>rq_pc := pc\<rparr>) < request_left c i rq"
proof -
  note ok = requests_okD(1)[OF assms(1,2)]
  show ?thesis
  proof (cases "\<exists>q qname. rq_pc rq = AtResolvers q qname []")
    case True
    then obtain q qname where pc: "rq_pc rq = AtResolvers q qname []" by blast
    then have w: "workers_at c i = None" and q: "m_question (rq_msg rq) \<noteq> []"
      using ok by auto
    show ?thesis
    proof (cases "cn_forward c")
      case None
      with assms(3) pc w show ?thesis
        by (auto simp: handle_step_def call_recursor_def request_left_def worker_left_def)
    next
      case (Some f)
      have "fw_workers f i = None"
        using w Some by (simp add: workers_at_def)
      with assms(3) pc Some recursor_bound_worker[OF q, of "fw_proxy f" "rq_tcp rq"] show ?thesis
        by (auto simp: handle_step_def call_recursor_def request_left_def worker_left_def workers_at_def attempts_of_def)
    qed
  next
    case False
    then obtain pc' where pc': "resolver_step L server_ns (cn_store c) rq (rq_pc rq) = Some pc'" "c' = set_pc i rq pc' c"
      using assms(3) by (auto simp: handle_step_def split: request_pc.splits list.splits)
    then have "workers_at c i = None"
      using ok by (cases "rq_pc rq") auto
    then have "worker_left c i = 0"
      by (simp add: worker_left_def split: option.split)
    moreover from this have "worker_left c' i = 0"
      by (simp add: pc'(2) worker_left_def workers_at_def)
    ultimately show ?thesis
      using resolver_step_left[OF pc'(1)] by (intro exI[of _ pc']) (simp add: request_left_def pc'(2))
  qed
qed

lemma return_step_left:
  assumes "cn_requests c i = Some rq" and "return_step L i rq c = Some c'"
  shows "\<exists>pc. cn_requests c' i = Some (rq\<lparr>rq_pc := pc\<rparr>) \<and> request_left c' i (rq\<lparr>rq_pc := pc\<rparr>) < request_left c i rq"
  using assms
  by (auto simp: return_step_def recursor_result_def request_left_def worker_left_def workers_at_def
      split: request_pc.splits option.splits forward_pc.splits)

lemma upstream_step_left:
  assumes "requests_ok L c" and "cn_requests c i = Some rq" and "cn_forward c = Some f" and "forward_step fe f = Some f'"
    and "\<not> is_arrive fe"
  shows "request_left (c\<lparr>cn_forward := Some f'\<rparr>) i rq + (if moves_query i fe then 1 else 0) \<le> request_left c i rq"
proof -
  let ?c = "c\<lparr>cn_forward := Some f'\<rparr>"
  have cfg: "recursor_bound (Some (fw_proxy f')) (rq_msg rq) = recursor_bound (Some (fw_proxy f)) (rq_msg rq)"
    using forward_step_config[OF assms(4)] by (intro recursor_bound_config) simp
  show ?thesis
  proof (cases "fw_workers f i")
    case None
    then have "\<not> moves_query i fe" "fw_workers f' i = None"
      using assms(4,5) forward_step_queries[OF assms(4,5), of i] by (cases fe; auto simp: move_worker_def)+
    with None cfg assms(3) show ?thesis
      by (simp add: request_left_def worker_left_def workers_at_def)
  next
    case (Some w)
    obtain w' where w': "fw_workers f' i = Some w'" "attempts_of f' = attempts_of f"
      "steps_left (attempts_of f) (wk_pc w') + (if moves_query i fe then 1 else 0) \<le> steps_left (attempts_of f) (wk_pc w)"
      using forward_step_progress[OF assms(4) Some] by blast
    have "workers_at c i = Some w"
      using Some assms(3) by (simp add: workers_at_def)
    then have "rq_pc rq \<in> {InRecursor} \<union> range Replied \<union> range Recovered"
      using requests_okD(1)[OF assms(1,2)] by (cases "rq_pc rq") auto
    with w' Some cfg assms(3) show ?thesis
      by (auto simp: request_left_def worker_left_def workers_at_def)
  qed
qed

text \<open>The parts of a request that never change, and its progress at each step.\<close>

definition same_request :: "request \<Rightarrow> request \<Rightarrow> bool" where
  "same_request rq rq' \<longleftrightarrow> (\<exists>pc. rq' = rq\<lparr>rq_pc := pc\<rparr>)"

lemma same_request_simps [simp]: "same_request rq rq" "same_request rq (rq\<lparr>rq_pc := pc\<rparr>)"
  by (auto simp: same_request_def intro: exI[of _ "rq_pc rq"])

lemma same_request_trans: "same_request a b \<Longrightarrow> same_request b c \<Longrightarrow> same_request a c"
  by (auto simp: same_request_def)

lemma same_requestD:
  "same_request rq rq' \<Longrightarrow> rq_msg rq' = rq_msg rq \<and> rq_handler rq' = rq_handler rq \<and> rq_tcp rq' = rq_tcp rq"
  by (auto simp: same_request_def)

lemma request_step:
  assumes "requests_ok L c" and "concurrent_step L server_ns svr e c = Some (Ret c')" and "cn_requests c i = Some rq"
  shows "\<exists>rq'. cn_requests c' i = Some rq' \<and> same_request rq rq' \<and>
    request_left c' i rq' + (if moves_request i e then 1 else 0) \<le> request_left c i rq"
proof -
  note cfg = step_config[OF assms(2)]
  have other: ?thesis if "cn_requests c' i = cn_requests c i" "workers_at c' i = workers_at c i" "\<not> moves_request i e"
    using request_left_eq[OF that(2) cfg] that assms(3) by auto
  show ?thesis
  proof (cases e)
    case (Tick k call)
    then have "cn_requests c' = cn_requests c" "cn_forward c' = cn_forward c"
      using assms(2) by (auto simp: go_bind_Ret_iff)
    with Tick show ?thesis
      by (intro other) (simp_all add: workers_at_def)
  next
    case (Incoming j l tcp req)
    then have "c' = c\<lparr>cn_requests := (cn_requests c)(j \<mapsto> new_request L (map_option fw_proxy (cn_forward c))
        (ds_handler (sv_dns_servers svr ! l)) tcp req)\<rparr>" "j \<noteq> i"
      using assms(2,3) by (auto split: if_splits)
    with Incoming show ?thesis
      by (intro other) (simp_all add: workers_at_def)
  next
    case (Handle j)
    then obtain rq0 where h: "cn_requests c j = Some rq0" "handle_step L server_ns j rq0 c = Some c'"
      using assms(2) by (auto simp: bind_eq_Some_conv)
    show ?thesis
    proof (cases "j = i")
      case True
      with handle_step_left[OF assms(1) h] h assms(3) Handle show ?thesis by fastforce
    next
      case False
      with handle_step_others[OF h(2), of i] Handle show ?thesis by (intro other) simp_all
    qed
  next
    case (Upstream fe)
    then obtain f f' where f: "cn_forward c = Some f" "forward_step fe f = Some f'" "\<not> is_arrive fe"
      "c' = c\<lparr>cn_forward := Some f'\<rparr>"
      using assms(2) by (auto simp: bind_eq_Some_conv split: if_splits)
    with upstream_step_left[OF assms(1,3) f(1-3)] assms(3) Upstream show ?thesis
      by auto
  next
    case (Return j)
    then obtain rq0 where h: "cn_requests c j = Some rq0" "return_step L j rq0 c = Some c'"
      using assms(2) by (auto simp: bind_eq_Some_conv)
    show ?thesis
    proof (cases "j = i")
      case True
      with return_step_left[OF h] h assms(3) Return show ?thesis by fastforce
    next
      case False
      with return_step_others[OF h(2), of i] Return show ?thesis by (intro other) simp_all
    qed
  qed
qed

lemma request_run:
  assumes "requests_ok L c" and "concurrent_run L server_ns svr es c = Some (Ret c')" and "cn_requests c i = Some rq"
  shows "\<exists>rq'. cn_requests c' i = Some rq' \<and> same_request rq rq' \<and>
    request_left c' i rq' + length (filter (moves_request i) es) \<le> request_left c i rq"
  using assms
proof (induction es arbitrary: c rq)
  case (Cons e es)
  obtain c1 where c1: "concurrent_step L server_ns svr e c = Some (Ret c1)" "concurrent_run L server_ns svr es c1 = Some (Ret c')"
    using Cons.prems(2) by (auto split: option.splits go.splits)
  obtain rq1 where rq1: "cn_requests c1 i = Some rq1" "same_request rq rq1"
    "request_left c1 i rq1 + (if moves_request i e then 1 else 0) \<le> request_left c i rq"
    using request_step[OF Cons.prems(1) c1(1) Cons.prems(3)] by blast
  obtain rq' where "cn_requests c' i = Some rq'" "same_request rq1 rq'"
    "request_left c' i rq' + length (filter (moves_request i) es) \<le> request_left c1 i rq1"
    using Cons.IH[OF requests_ok_step[OF Cons.prems(1) c1(1)] c1(2) rq1(1)] by blast
  with rq1 show ?case
    using same_request_trans by (intro exI[of _ rq']) (auto split: if_splits)
qed auto

text \<open>A request that has not ended can take its next step, or waits for the answer of an upstream.\<close>

definition request_ended :: "request \<Rightarrow> bool" where
  "request_ended rq \<longleftrightarrow> (\<exists>msgs. rq_pc rq = Replied msgs) \<or> (\<exists>e. rq_pc rq = Recovered e)"

definition request_can_move :: "dns_lib \<Rightarrow> string \<Rightarrow> nat \<Rightarrow> request \<Rightarrow> concurrent \<Rightarrow> bool" where
  "request_can_move L server_ns i rq c \<longleftrightarrow> handle_step L server_ns i rq c \<noteq> None \<or> return_step L i rq c \<noteq> None \<or>
     (rq_pc rq = InRecursor \<and> (\<exists>f. cn_forward c = Some f \<and> can_move i f))"

lemma request_moves:
  assumes "requests_ok L c" and "cn_requests c i = Some rq" and "\<not> request_ended rq"
  shows "request_can_move L server_ns i rq c"
proof (cases "rq_pc rq")
  case (AtResolvers q qname ns)
  with requests_okD(1)[OF assms(1,2)] have "workers_at c i = None" by simp
  with AtResolvers show ?thesis
    by (cases ns; cases "cn_forward c")
      (simp_all add: request_can_move_def handle_step_def call_recursor_def workers_at_def)
next
  case (AtSecondLookup q qname n ns)
  with requests_okD(1)[OF assms(1,2)] show ?thesis
    by (auto simp: request_can_move_def handle_step_def is_mesh_def)
next
  case InRecursor
  with requests_okD(1)[OF assms(1,2)] obtain f w where f: "cn_forward c = Some f" "fw_workers f i = Some w"
    by (auto simp: workers_at_def bind_eq_Some_conv)
  show ?thesis
  proof (cases "can_move i f")
    case False
    then have "(\<exists>resp. wk_pc w = Returns resp) \<or> (\<exists>e. wk_pc w = Crashed e)"
      using can_move_iff[OF f(2)] by auto
    then have "recursor_result L rq (wk_pc w) \<noteq> None"
      by (elim disjE exE) (simp_all add: recursor_result_def split: option.split)
    then obtain pc where "recursor_result L rq (wk_pc w) = Some pc"
      by blast
    with InRecursor f show ?thesis
      by (simp add: request_can_move_def return_step_def)
  qed (use InRecursor f in \<open>simp add: request_can_move_def\<close>)
qed (use assms(3) in \<open>simp_all add: request_ended_def\<close>)

text \<open>An ended request does not change any more.\<close>

lemma ended_step:
  assumes "concurrent_step L server_ns svr e c = Some (Ret c')" and "cn_requests c i = Some rq" and "request_ended rq"
  shows "cn_requests c' i = Some rq"
proof (cases e)
  case (Handle j)
  then obtain rq0 where h: "cn_requests c j = Some rq0" "handle_step L server_ns j rq0 c = Some c'"
    using assms(1) by (auto simp: bind_eq_Some_conv)
  then have "j \<noteq> i"
    using assms(2,3) by (auto simp: request_ended_def handle_step_def)
  with handle_step_others[OF h(2), of i] assms(2) show ?thesis by simp
next
  case (Return j)
  then obtain rq0 where h: "cn_requests c j = Some rq0" "return_step L j rq0 c = Some c'"
    using assms(1) by (auto simp: bind_eq_Some_conv)
  then have "j \<noteq> i"
    using assms(2,3) by (auto simp: request_ended_def return_step_def)
  with return_step_others[OF h(2), of i] assms(2) show ?thesis by simp
qed (use assms in \<open>auto simp: go_bind_Ret_iff bind_eq_Some_conv split: if_splits\<close>)

lemma ended_run:
  "concurrent_run L server_ns svr es c = Some (Ret c') \<Longrightarrow> cn_requests c i = Some rq \<Longrightarrow> request_ended rq \<Longrightarrow>
     cn_requests c' i = Some rq"
  by (induction es arbitrary: c) (auto split: option.splits go.splits dest: ended_step)

end
