(* ===== verification/Requests.thy ===== *)
theory Requests
  imports Concurrent
begin

text \<open>
  What the machine of \<open>Concurrent\<close> promises: that a request left alone is the single step of \<open>Serving\<close>, that every request
  gets one reply and ends whatever the others do, and what the registry list and the upstreams determine of the reply.
\<close>

section \<open>A request on its own\<close>

text \<open>The steps of one request, with the environment of the sequential model, while nothing else moves.\<close>

definition own_step :: "dns_lib \<Rightarrow> string \<Rightarrow> exchange \<Rightarrow> server \<Rightarrow> nat \<Rightarrow> concurrent \<Rightarrow> concurrent \<Rightarrow> bool" where
  "own_step L server_ns ex svr i c c' \<longleftrightarrow> (\<exists>e. concurrent_step L server_ns svr e c = Some (Ret c') \<and>
     (e = Handle i \<or> e = Return i \<or> (\<exists>fe. e = Upstream fe \<and> Option.bind (workers_at c i) (next_alone ex i) = Some fe)))"

lemma own_handle:
  "cn_requests c i = Some rq \<Longrightarrow> handle_step L server_ns i rq c = Some c' \<Longrightarrow> own_step L server_ns ex svr i c c'"
  unfolding own_step_def by (intro exI[of _ "Handle i"]) simp

lemma own_return:
  "cn_requests c i = Some rq \<Longrightarrow> return_step L i rq c = Some c' \<Longrightarrow> own_step L server_ns ex svr i c c'"
  unfolding own_step_def by (intro exI[of _ "Return i"]) simp

lemma set_pc_set_pc [simp]: "set_pc i rq pc (set_pc i rq' pc' c) = set_pc i rq pc c"
  by (simp add: set_pc_def)

lemma set_pc_rq [simp]: "set_pc i (rq\<lparr>rq_pc := pc'\<rparr>) pc c = set_pc i rq pc c"
  by (simp add: set_pc_def)

lemma set_pc_same: "cn_requests c i = Some (rq\<lparr>rq_pc := pc\<rparr>) \<Longrightarrow> set_pc i rq pc c = c"
  by (simp add: set_pc_def fun_upd_idem)

text \<open>The loop over the resolvers is the loop of the sequential handler.\<close>

lemma resolver_step_serve:
  assumes "store n = Some p"
  shows "resolver_step L server_ns store rq (AtResolvers q qname (n # ns)) =
      Some (after_resolver L rq (plugin_serve L server_ns p q qname) (AtResolvers q qname ns)) \<or>
    (resolver_step L server_ns store rq (AtResolvers q qname (n # ns)) = Some (AtSecondLookup q qname n ns) \<and>
     resolver_step L server_ns store rq (AtSecondLookup q qname n ns) =
      Some (after_resolver L rq (plugin_serve L server_ns p q qname) (AtResolvers q qname ns)))"
proof (cases p)
  case (PlugMesh r)
  have "mesh_serve r q qname = (case mesh_first r q qname of Some res \<Rightarrow> res | None \<Rightarrow> mesh_second r q qname)"
    by (simp flip: mesh_serve_between_same add: mesh_lookups)
  with PlugMesh assms show ?thesis
    by (cases "mesh_first r q qname") (simp_all add: plugin_serve_def)
qed (use assms in \<open>simp add: plugin_serve_def\<close>)

lemma after_resolver_rq [simp]: "after_resolver L (rq\<lparr>rq_pc := pc\<rparr>) = after_resolver L rq"
  by (auto simp: after_resolver_def fun_eq_iff split: go.split option.split)

lemma resolver_step_rq [simp]:
  "resolver_step L server_ns store (rq\<lparr>rq_pc := pc'\<rparr>) pc = resolver_step L server_ns store rq pc"
  by (cases "(L, server_ns, store, rq, pc)" rule: resolver_step.cases)
    (simp_all split: option.split plugin.split)

lemma resolver_step_own:
  assumes "cn_requests c i = Some (rq\<lparr>rq_pc := pc\<rparr>)" and "resolver_step L server_ns (cn_store c) rq pc = Some pc'"
  shows "own_step L server_ns ex svr i c (set_pc i rq pc' c)"
proof (rule own_handle[OF assms(1)])
  have "resolver_step L server_ns (cn_store c) (rq\<lparr>rq_pc := pc\<rparr>) pc = Some pc'"
    using assms(2) by simp
  then show "handle_step L server_ns i (rq\<lparr>rq_pc := pc\<rparr>) c = Some (set_pc i rq pc' c)"
    by (cases "(L, server_ns, cn_store c, rq, pc)" rule: resolver_step.cases)
      (use assms(2) in \<open>simp_all add: handle_step_def del: resolver_step.simps(1,2)\<close>)
qed

lemma own_loop:
  assumes "cn_requests c i = Some (rq\<lparr>rq_pc := AtResolvers q qname names\<rparr>)"
  shows "rtranclp (own_step L server_ns ex svr i) c (set_pc i rq
    (after_resolver L rq (first_reply (plugin_serve L server_ns) (List.map_filter (cn_store c) names) q qname)
      (AtResolvers q qname [])) c)"
  using assms
proof (induction names arbitrary: c)
  case Nil
  then show ?case
    by (simp add: map_filter_simps after_resolver_def set_pc_same)
next
  case (Cons n ns)
  let ?own = "own_step L server_ns ex svr i"
  let ?next = "AtResolvers q qname ns"
  have rest: "rtranclp ?own (set_pc i rq ?next c) (set_pc i rq
      (after_resolver L rq (first_reply (plugin_serve L server_ns) (List.map_filter (cn_store c) ns) q qname)
        (AtResolvers q qname [])) c)"
    using Cons.IH[of "set_pc i rq ?next c"] by simp
  show ?case
  proof (cases "cn_store c n")
    case None
    then have "?own c (set_pc i rq ?next c)"
      by (intro resolver_step_own[OF Cons.prems]) simp
    from converse_rtranclp_into_rtranclp[of ?own, OF this rest] None show ?thesis
      by (simp add: map_filter_simps)
  next
    case (Some p)
    let ?res = "plugin_serve L server_ns p q qname"
    let ?c = "set_pc i rq (after_resolver L rq ?res ?next) c"
    have there: "rtranclp ?own c ?c"
      using resolver_step_serve[where L = L and server_ns = server_ns and rq = rq and q = q and qname = qname and ns = ns,
          where store = "cn_store c", OF Some]
    proof
      assume "resolver_step L server_ns (cn_store c) rq (AtResolvers q qname (n # ns)) = Some (after_resolver L rq ?res ?next)"
      from resolver_step_own[where ex = ex and svr = svr, OF Cons.prems this] show ?thesis
        by (rule r_into_rtranclp)
    next
      let ?c1 = "set_pc i rq (AtSecondLookup q qname n ns) c"
      assume two: "resolver_step L server_ns (cn_store c) rq (AtResolvers q qname (n # ns)) = Some (AtSecondLookup q qname n ns) \<and>
        resolver_step L server_ns (cn_store c) rq (AtSecondLookup q qname n ns) = Some (after_resolver L rq ?res ?next)"
      have "?own c ?c1"
        using resolver_step_own[OF Cons.prems] two by blast
      moreover have "?own ?c1 (set_pc i rq (after_resolver L rq ?res ?next) ?c1)"
        using two by (intro resolver_step_own[where pc = "AtSecondLookup q qname n ns"]) simp_all
      ultimately show ?thesis
        by (auto intro: converse_rtranclp_into_rtranclp[of ?own] r_into_rtranclp[of ?own])
    qed
    show ?thesis
    proof (cases "?res = Ret None")
      case True
      then show ?thesis
        using rtranclp_trans[OF there] rest Some by (simp add: map_filter_simps after_resolver_def)
    next
      case False
      then have "first_reply (plugin_serve L server_ns) (p # ps) q qname = ?res" for ps
        by (auto split: go.split option.split)
      moreover have "after_resolver L rq ?res ?next = after_resolver L rq ?res (AtResolvers q qname [])"
        using False by (auto simp: after_resolver_def split: go.split option.split)
      ultimately show ?thesis
        using there Some by (simp add: map_filter_simps)
    qed
  qed
qed

text \<open>The steps of a lone query in the recursor are steps of its request.\<close>

lemma own_upstream:
  assumes "rtranclp (alone_step ex i) f f'" and "cn_forward c = Some f"
  shows "rtranclp (own_step L server_ns ex svr i) c (c\<lparr>cn_forward := Some f'\<rparr>)"
  using assms(1)
proof (induction rule: rtranclp_induct)
  case base
  have "c\<lparr>cn_forward := Some f\<rparr> = c"
    using assms(2) by simp
  then show ?case by simp
next
  case (step f1 f2)
  let ?c1 = "c\<lparr>cn_forward := Some f1\<rparr>"
  obtain w e where e: "fw_workers f1 i = Some w" "next_alone ex i w = Some e" "forward_step e f1 = Some f2"
    using step.hyps(2) by (auto simp: alone_step_def)
  have "\<not> is_arrive e"
    using e(2) by (cases e) (auto simp: next_alone_def split: forward_pc.splits nat.splits prod.splits)
  with e have "own_step L server_ns ex svr i ?c1 (c\<lparr>cn_forward := Some f2\<rparr>)"
    unfolding own_step_def by (intro exI[of _ "Upstream e"]) (simp add: workers_at_def)
  with step.IH show ?case
    by (rule rtranclp.rtrancl_into_rtrancl)
qed

definition returned :: "dns_msg option go \<Rightarrow> forward_pc" where
  "returned res = (case res of Ret resp \<Rightarrow> Returns resp | Panic e \<Rightarrow> Crashed e)"

lemma recursor_returned: "\<exists>pc. recursor_result L rq (returned res) = Some pc"
  by (cases res) (auto simp: recursor_result_def returned_def split: option.split)

lemma own_recursor:
  assumes "cn_requests c i = Some (rq\<lparr>rq_pc := AtResolvers q qname []\<rparr>)" and "workers_at c i = None"
    and "handle_dns ex (rq_tcp rq) (map_option fw_proxy (cn_forward c)) (rq_msg rq) = (res, px', sent)"
    and "recursor_result L rq (returned res) = Some pc"
  shows "\<exists>c'. rtranclp (own_step L server_ns ex svr i) c c' \<and> serving_of c' = (serving_of c)\<lparr>sg_proxy := px'\<rparr> \<and>
    cn_requests c' i = Some (rq\<lparr>rq_pc := pc\<rparr>)"
proof (cases "cn_forward c")
  case None
  let ?c = "set_pc i rq pc c"
  have r: "res = Ret None" "px' = None"
    using assms(3) None by (simp_all add: handle_dns_def)
  with assms(4) None have "own_step L server_ns ex svr i c ?c"
    by (intro own_handle[OF assms(1)]) (simp add: handle_step_def call_recursor_def recursor_result_def returned_def)
  with r None show ?thesis
    by (intro exI[of _ ?c]) (auto simp: serving_of_def intro: r_into_rtranclp[of "own_step L server_ns ex svr i"])
next
  case (Some f)
  let ?own = "own_step L server_ns ex svr i"
  have w: "fw_workers f i = None"
    using assms(2) Some by (simp add: workers_at_def)
  then obtain f1 where f1: "forward_step (Arrive i (rq_tcp rq) (rq_msg rq)) f = Some f1"
    by simp
  obtain p' where p': "px' = Some p'"
    using assms(3) Some by (auto simp: handle_dns_def Let_def split: list.splits prod.splits)
  obtain f' v where f': "rtranclp (alone_step ex i) f1 f'" "fw_proxy f' = p'" "fw_workers f' i = Some v" "wk_pc v = returned res"
    using undisturbed_query[OF w f1, of ex res p' sent] assms(3) Some p' by (auto simp: returned_def)
  let ?c1 = "(set_pc i rq InRecursor c)\<lparr>cn_forward := Some f1\<rparr>"
  let ?c2 = "?c1\<lparr>cn_forward := Some f'\<rparr>"
  let ?c3 = "set_pc i rq pc ?c2"
  have "?own c ?c1"
    using f1 Some by (intro own_handle[OF assms(1)]) (simp add: handle_step_def call_recursor_def)
  moreover have "rtranclp ?own ?c1 ?c2"
    by (rule own_upstream[OF f'(1)]) simp
  moreover have "?own ?c2 ?c3"
  proof (rule own_return)
    show "cn_requests ?c2 i = Some (rq\<lparr>rq_pc := InRecursor\<rparr>)"
      by simp
    have "recursor_result L (rq\<lparr>rq_pc := InRecursor\<rparr>) (wk_pc v) = Some pc"
      using assms(4) by (simp add: f'(4) recursor_result_def cong: forward_pc.case_cong option.case_cong)
    then show "return_step L i (rq\<lparr>rq_pc := InRecursor\<rparr>) ?c2 = Some ?c3"
      using f'(3) by (simp add: return_step_def)
  qed
  ultimately have "rtranclp ?own c ?c3"
    by (meson converse_rtranclp_into_rtranclp rtranclp.rtrancl_into_rtrancl)
  with f'(2) p' show ?thesis
    by (intro exI[of _ ?c3]) (simp add: serving_of_def)
qed

text \<open>The whole handler.\<close>

lemma undisturbed_request:
  assumes "l < length (sv_dns_servers svr)" and "cn_requests c i = None" and "workers_at c i = None"
    and "query_step L server_ns ex svr l tcp req (serving_of c) = (sent, st')"
  shows "\<exists>c1 c' rq. concurrent_step L server_ns svr (Incoming i l tcp req) c = Some (Ret c1) \<and>
    rtranclp (own_step L server_ns ex svr i) c1 c' \<and> serving_of c' = st' \<and> cn_requests c' i = Some rq \<and>
    (rq_pc rq = Replied sent \<or> sent = [] \<and> (\<exists>e. rq_pc rq = Recovered e))"
proof -
  let ?own = "own_step L server_ns ex svr i"
  let ?d = "ds_handler (sv_dns_servers svr ! l)"
  let ?px = "map_option fw_proxy (cn_forward c)"
  let ?rq = "new_request L ?px ?d tcp req"
  let ?c1 = "c\<lparr>cn_requests := (cn_requests c)(i \<mapsto> ?rq)\<rparr>"
  have c1: "concurrent_step L server_ns svr (Incoming i l tcp req) c = Some (Ret ?c1)"
    using assms(1,2) by simp
  have fields: "rq_handler ?rq = ?d" "rq_tcp ?rq = tcp" "rq_msg ?rq = req" "rq_pc ?rq = receive_pc L ?px ?d req"
    by (simp_all add: new_request_def)
  obtain px' queries where serve: "serve_dns L server_ns ex (cn_store c) ?d tcp ?px req = (sent, px', queries)"
    and st': "st' = (serving_of c)\<lparr>sg_proxy := px'\<rparr>"
    using assms(1,4) by (auto simp: query_step_def serving_of_def split: prod.splits)
  show ?thesis
  proof (cases "m_question req")
    case Nil
    then have "sent = write_dns_code L (dh_protocol ?d) req RcodeRefused []" "px' = ?px"
      using serve by (simp_all add: serve_dns_def serve_dns_body_def)
    then show ?thesis
      using c1 Nil fields(4) st' by (intro exI[of _ ?c1] exI[of _ ?rq]) (auto simp: receive_pc_def serving_of_def)
  next
    case (Cons q qs)
    let ?qname = "preprocess ?px (q_name q)"
    let ?names = "if can_do_resolve (q_type q) then dh_resolvers ?d else []"
    let ?res = "first_reply (plugin_serve L server_ns) (List.map_filter (cn_store c) ?names) q ?qname"
    let ?pc = "after_resolver L ?rq ?res (AtResolvers q ?qname [])"
    let ?c2 = "set_pc i ?rq ?pc ?c1"
    have "rq_pc ?rq = AtResolvers q ?qname ?names"
      using Cons fields(4) by (simp add: receive_pc_def)
    then have "?rq = ?rq\<lparr>rq_pc := AtResolvers q ?qname ?names\<rparr>"
      by simp
    then have "cn_requests ?c1 i = Some (?rq\<lparr>rq_pc := AtResolvers q ?qname ?names\<rparr>)"
      by simp
    from own_loop[OF this] have loop: "rtranclp ?own ?c1 ?c2"
      by simp
    have same: "serving_of ?c2 = serving_of c"
      by (simp add: serving_of_def)
    show ?thesis
    proof (cases "?res = Ret None")
      case False
      then have "px' = ?px" "?pc = Replied sent \<or> sent = [] \<and> (\<exists>e. ?pc = Recovered e)"
        using serve Cons fields(1,3)
        by (auto simp: serve_dns_def serve_dns_body_def after_resolver_def map_filter_simps
            split: go.splits option.splits if_splits)
      then show ?thesis
        using c1 loop same st' by (intro exI[of _ ?c1] exI[of _ ?c2]) (auto simp: serving_of_def)
    next
      case True
      then have pc: "?pc = AtResolvers q ?qname []"
        by (simp add: after_resolver_def)
      obtain res where h: "handle_dns ex tcp ?px req = (res, px', queries)"
        using serve Cons True by (auto simp: serve_dns_def serve_dns_body_def map_filter_simps
            split: go.splits option.splits if_splits prod.splits)
      obtain pc' where pc': "recursor_result L ?rq (returned res) = Some pc'"
        using recursor_returned by blast
      have "cn_requests ?c2 i = Some (?rq\<lparr>rq_pc := AtResolvers q ?qname []\<rparr>)" "workers_at ?c2 i = None"
        using assms(3) by (simp_all add: pc workers_at_def)
      moreover have "handle_dns ex (rq_tcp ?rq) (map_option fw_proxy (cn_forward ?c2)) (rq_msg ?rq) = (res, px', queries)"
        using h fields by simp
      ultimately obtain c' where c': "rtranclp ?own ?c2 c'" "serving_of c' = (serving_of ?c2)\<lparr>sg_proxy := px'\<rparr>"
        "cn_requests c' i = Some (?rq\<lparr>rq_pc := pc'\<rparr>)"
        using own_recursor pc' by blast
      have "pc' = Replied sent \<or> sent = [] \<and> (\<exists>e. pc' = Recovered e)"
        using pc' serve Cons True h fields(1,3)
        by (cases res) (auto simp: serve_dns_def serve_dns_body_def recursor_result_def returned_def map_filter_simps
            split: option.splits if_splits)
      then show ?thesis
        using c1 rtranclp_trans[OF loop c'(1)] c'(2,3) same st'
        by (intro exI[of _ ?c1] exI[of _ c'] exI[of _ "?rq\<lparr>rq_pc := pc'\<rparr>"]) simp
    qed
  qed
qed

section \<open>A request among others\<close>

lemma config_run:
  "concurrent_run L server_ns svr es c = Some (Ret c') \<Longrightarrow>
     map_option px_config (map_option fw_proxy (cn_forward c')) = map_option px_config (map_option fw_proxy (cn_forward c))"
  by (induction es arbitrary: c) (auto split: option.splits go.splits dest: step_config)

lemma proxy_of_start: "map_option fw_proxy (cn_forward (concurrent_of st)) = sg_proxy st"
  by (cases "sg_proxy st") (simp_all add: concurrent_of_def forwarding_of_def)

text \<open>A request waits for its own step, whatever happens to the others.\<close>

lemma waiting_step:
  assumes "concurrent_step L server_ns svr e c = Some (Ret c')" and "cn_requests c i = Some rq"
    and "rq_pc rq = AtResolvers q qname ns" and "e \<noteq> Handle i"
  shows "cn_requests c' i = Some rq"
proof (cases e)
  case (Handle j)
  then obtain rq0 where "handle_step L server_ns j rq0 c = Some c'"
    using assms(1) by (auto simp: bind_eq_Some_conv)
  from handle_step_others[OF this, of i] Handle assms(2,4) show ?thesis by simp
next
  case (Return j)
  then obtain rq0 where r: "cn_requests c j = Some rq0" "return_step L j rq0 c = Some c'"
    using assms(1) by (auto simp: bind_eq_Some_conv)
  then have "j \<noteq> i"
    using assms(2,3) by (auto simp: return_step_def)
  with return_step_others[OF r(2), of i] assms(2) show ?thesis by simp
qed (use assms(1,2) in \<open>auto simp: go_bind_Ret_iff bind_eq_Some_conv split: if_splits\<close>)

lemma waiting_run:
  "concurrent_run L server_ns svr es c = Some (Ret c') \<Longrightarrow> cn_requests c i = Some rq \<Longrightarrow>
     rq_pc rq = AtResolvers q qname ns \<Longrightarrow> Handle i \<notin> set es \<Longrightarrow> cn_requests c' i = Some rq"
  by (induction es arbitrary: c) (auto split: option.splits go.splits dest: waiting_step)

lemma arrived_run:
  assumes "concurrent_run L server_ns svr (es @ Incoming i l tcp req # es') (concurrent_of st0) = Some (Ret c)"
    and "Handle i \<notin> set es'" and "m_question req = q # qs" and "can_do_resolve (q_type q)"
  shows "\<exists>rq. cn_requests c i = Some rq \<and> rq_msg rq = req \<and> rq_handler rq = ds_handler (sv_dns_servers svr ! l) \<and>
    rq_pc rq = AtResolvers q (preprocess (sg_proxy st0) (q_name q)) (dh_resolvers (ds_handler (sv_dns_servers svr ! l)))"
proof -
  obtain c1 c2 where r: "concurrent_run L server_ns svr es (concurrent_of st0) = Some (Ret c1)"
    "concurrent_step L server_ns svr (Incoming i l tcp req) c1 = Some (Ret c2)"
    "concurrent_run L server_ns svr es' c2 = Some (Ret c)"
    using assms(1) unfolding concurrent_run_append concurrent_run.simps by (auto split: option.splits go.splits)
  let ?px = "map_option fw_proxy (cn_forward c1)"
  let ?rq = "new_request L ?px (ds_handler (sv_dns_servers svr ! l)) tcp req"
  have c2: "cn_requests c2 i = Some ?rq"
    using r(2) by (auto split: if_splits)
  have "map_option px_config ?px = map_option px_config (sg_proxy st0)"
    using config_run[OF r(1)] by (simp only: proxy_of_start)
  then have "preprocess ?px (q_name q) = preprocess (sg_proxy st0) (q_name q)"
    by (rule preprocess_config)
  then have pc: "rq_pc ?rq = AtResolvers q (preprocess (sg_proxy st0) (q_name q)) (dh_resolvers (ds_handler (sv_dns_servers svr ! l)))"
    using assms(3,4) by (simp add: new_request_def receive_pc_def)
  have "cn_requests c i = Some ?rq"
    by (rule waiting_run[OF r(3) c2 pc assms(2)])
  with pc show ?thesis
    by (intro exI[of _ ?rq]) (simp add: new_request_def)
qed

text \<open>A host of the latest list is answered at the first lookup.\<close>

lemma mesh_first_known:
  assumes "mesh_initialize get c r = (r0, None)" and "mesh_start calls r0 = Ret (cur, r1)"
    and "rm_config r0 = Some cfg" and "snd (match_suffix qname (ce_suffix c))"
    and "to_lower qname \<in> registry_hosts (latest_value calls)" and "q_type q = TypeA"
  shows "mesh_first r1 q qname = Some (Ret (Some (empty_msg\<lparr>m_answer := [Some (RR_A
     \<lparr>h_name = q_name q, h_rrtype = TypeA, h_class = ClassINET, h_ttl = word_of_int (ce_dns_ttl c)\<rparr>
     (parse_ip (mc_dns_answer_ip cfg)))]\<rparr>)))"
proof -
  obtain srv where s: "r1 = r0\<lparr>rm_local := Some srv\<rparr>" "ttl_ok (word_of_int (ce_dns_ttl c)) srv"
    "host_answers srv = (\<lambda>n. if n \<in> registry_hosts (latest_value calls)
      then Some ([parse_ip (mc_dns_answer_ip cfg)], []) else None)"
    using mesh_start_state[OF assms(1,2)] assms(3) by auto
  moreover have "rm_suffix r0 = ce_suffix c"
    using mesh_initialize_local[OF assms(1)] by auto
  ultimately show ?thesis
    using assms(4-6) by (simp add: mesh_first_def local_serve_view host_reply_def rr_a_def rr_aaaa_def Let_def)
qed

lemma return_step_SomeD:
  assumes "return_step L i rq c = Some c'"
  shows "\<exists>w pc'. rq_pc rq = InRecursor \<and> workers_at c i = Some w \<and> recursor_result L rq (wk_pc w) = Some pc' \<and>
    c' = set_pc i rq pc' c"
  using assms by (cases "rq_pc rq"; cases "workers_at c i") (auto simp: return_step_def workers_at_def)

text \<open>Only an arrival uses a new number.\<close>

lemma new_numbers_step:
  assumes "concurrent_step L server_ns svr e c = Some (Ret c')" and "\<forall>l tcp req. e \<noteq> Incoming i l tcp req"
    and "cn_requests c i = None"
  shows "cn_requests c' i = None"
proof (cases e)
  case (Handle j)
  with assms handle_step_others[of L server_ns j _ c c' i] show ?thesis
    by (cases "j = i") (auto simp: bind_eq_Some_conv)
next
  case (Return j)
  with assms return_step_others[of L j _ c c' i] show ?thesis
    by (cases "j = i") (auto simp: bind_eq_Some_conv)
qed (use assms in \<open>auto simp: go_bind_Ret_iff bind_eq_Some_conv split: if_splits\<close>)

lemma new_numbers:
  "concurrent_run L server_ns svr es c = Some (Ret c') \<Longrightarrow> \<forall>l tcp req. Incoming i l tcp req \<notin> set es \<Longrightarrow>
     cn_requests c i = None \<Longrightarrow> cn_requests c' i = None"
proof (induction es arbitrary: c)
  case (Cons e es)
  then obtain c1 where c1: "concurrent_step L server_ns svr e c = Some (Ret c1)" "concurrent_run L server_ns svr es c1 = Some (Ret c')"
    by (auto split: option.splits go.splits)
  have "cn_requests c1 i = None"
    using new_numbers_step[OF c1(1)] Cons.prems(2,3) by fastforce
  with Cons.IH[OF c1(2)] Cons.prems(2) show ?case
    by simp
qed simp

section \<open>Properties\<close>

text \<open>
  C2. However the requests, the reloads and the upstreams interleave: a request that is answered has exactly one message,
  the reply to it, with its identifier and first question and a code that is NOERROR, SERVFAIL or, exactly for a request
  without a question, REFUSED; only a request with a question can end in a recovered panic; and what a request ended with
  stays, so nothing is written twice.
\<close>

theorem concurrent_one_reply:
  assumes "set_reply_law L" and "truncate_law L"
    and "concurrent_run L server_ns svr es (concurrent_of st) = Some (Ret c)" and "cn_requests c i = Some rq"
    and "concurrent_run L server_ns svr es' c = Some (Ret c')"
  shows "case rq_pc rq of
      Replied msgs \<Rightarrow> (\<exists>m. msgs = [m] \<and> m_id m = m_id (rq_msg rq) \<and> m_response m \<and>
          m_rcode m \<in> {RcodeSuccess, RcodeServerFailure, RcodeRefused} \<and>
          (m_rcode m = RcodeRefused \<longleftrightarrow> m_question (rq_msg rq) = []) \<and>
          (m_question (rq_msg rq) \<noteq> [] \<longrightarrow> m_question m = [hd (m_question (rq_msg rq))])) \<and>
        cn_requests c' i = Some rq
    | Recovered e \<Rightarrow> m_question (rq_msg rq) \<noteq> [] \<and> cn_requests c' i = Some rq
    | _ \<Rightarrow> True"
proof -
  have ok: "request_ok L (is_mesh (cn_store c)) (workers_at c i) rq (rq_pc rq)"
    using requests_okD(1)[OF requests_ok_run[OF requests_ok_start assms(3)] assms(4)] .
  note headers = code_msg_header[OF assms(1,2)] response_msg_header[OF assms(1,2)]
  show ?thesis
  proof (cases "rq_pc rq")
    case (Replied msgs)
    then have "cn_requests c' i = Some rq"
      using ended_run[OF assms(5,4)] by (simp add: request_ended_def)
    moreover have "reply_to L rq msgs"
      using ok Replied by simp
    ultimately show ?thesis
      unfolding Replied reply_to_def Let_def by (auto simp: headers split: if_splits)
  next
    case (Recovered e)
    with ok ended_run[OF assms(5,4)] show ?thesis
      by (simp add: request_ended_def)
  qed simp_all
qed

text \<open>
  C3. Every request ends, whatever the others, the reloads and the upstreams do: it takes at most two steps for each
  resolver, one into the recursor and there two for each attempt at each of its names, and two more; and until it has
  ended nothing but the answer of an upstream can keep it from its next step.
\<close>

theorem every_request_ends:
  assumes "concurrent_run L server_ns svr es (concurrent_of st) = Some (Ret c)"
    and "concurrent_step L server_ns svr (Incoming i l tcp req) c = Some (Ret c1)"
    and "concurrent_run L server_ns svr es' c1 = Some (Ret c')"
  shows "\<exists>rq. cn_requests c' i = Some rq \<and> rq_msg rq = req \<and>
    length (filter (moves_request i) es') \<le>
      2 * length (dh_resolvers (ds_handler (sv_dns_servers svr ! l))) + 1 + recursor_bound (sg_proxy st) req \<and>
    (request_ended rq \<or> request_can_move L server_ns i rq c')"
proof -
  let ?d = "ds_handler (sv_dns_servers svr ! l)"
  let ?px = "map_option fw_proxy (cn_forward c)"
  let ?rq = "new_request L ?px ?d tcp req"
  note ok = requests_ok_run[OF requests_ok_start assms(1)]
  have c1: "cn_requests c i = None" "c1 = c\<lparr>cn_requests := (cn_requests c)(i \<mapsto> ?rq)\<rparr>"
    using assms(2) by (auto split: if_splits)
  then have at: "cn_requests c1 i = Some ?rq"
    by simp
  have "workers_at c1 i = None"
    using requests_okD(2)[OF ok c1(1)] by (simp add: c1(2) workers_at_def)
  then have "worker_left c1 i = 0"
    by (simp add: worker_left_def split: option.split)
  moreover have "map_option px_config ?px = map_option px_config (sg_proxy st)"
    using config_run[OF assms(1)] by (simp only: proxy_of_start)
  then have "recursor_bound ?px req = recursor_bound (sg_proxy st) req"
    by (rule recursor_bound_config)
  ultimately have "request_left c1 i ?rq \<le> 2 * length (dh_resolvers ?d) + 1 + recursor_bound (sg_proxy st) req"
    by (auto simp: request_left_def c1(2) new_request_def receive_pc_def split: list.split)
  moreover note ok1 = requests_ok_step[OF ok assms(2)]
  obtain rq where rq: "cn_requests c' i = Some rq" "same_request ?rq rq"
    "request_left c' i rq + length (filter (moves_request i) es') \<le> request_left c1 i ?rq"
    using request_run[OF ok1 assms(3) at] by blast
  moreover have "rq_msg rq = req"
    using same_requestD[OF rq(2)] by (simp add: new_request_def)
  moreover have "request_ended rq \<or> request_can_move L server_ns i rq c'"
    using request_moves[OF requests_ok_run[OF ok1 assms(3)] rq(1)] by blast
  ultimately show ?thesis
    by (intro exI[of _ rq]) simp
qed

text \<open>
  C4. The whole server is its two machines: in every run the plugins, and whether the process panics, are those of the
  reloads alone, and the recursor is a run of the recursor's own machine, with the answers of the upstreams in their
  order; so what is proved of either alone holds of the server with all its requests.
\<close>

theorem concurrent_run_projects:
  assumes "concurrent_run L server_ns svr es (concurrent_of st) = Some res"
  shows "serving_run L server_ns ex svr (reloads_of es) st =
      go_bind res (\<lambda>c. Ret ([], st\<lparr>sg_store := cn_store c, sg_reloaders := cn_reloaders c\<rparr>)) \<and>
    (\<forall>c. res = Ret c \<longrightarrow> (case sg_proxy st of
        None \<Rightarrow> cn_forward c = None
      | Some p \<Rightarrow> \<exists>fes f. cn_forward c = Some f \<and> forward_run fes (forwarding_of p) = Some f \<and>
          filter (\<lambda>fe. \<not> is_arrive fe) fes = upstream_of es))"
proof
  have "\<lparr>sg_store = cn_store (concurrent_of st), sg_proxy = sg_proxy st, sg_reloaders = cn_reloaders (concurrent_of st)\<rparr> = st"
    by (cases st) (simp add: concurrent_of_def)
  from run_reloads[where ex = ex and px = "sg_proxy st", OF assms, unfolded this]
  show "serving_run L server_ns ex svr (reloads_of es) st =
      go_bind res (\<lambda>c. Ret ([], st\<lparr>sg_store := cn_store c, sg_reloaders := cn_reloaders c\<rparr>))"
    by (cases res; cases st) simp_all
  show "\<forall>c. res = Ret c \<longrightarrow> (case sg_proxy st of
        None \<Rightarrow> cn_forward c = None
      | Some p \<Rightarrow> \<exists>fes f. cn_forward c = Some f \<and> forward_run fes (forwarding_of p) = Some f \<and>
          filter (\<lambda>fe. \<not> is_arrive fe) fes = upstream_of es)"
  proof (intro allI impI)
    fix c assume "res = Ret c"
    from run_forwards[OF assms[unfolded this]] show "case sg_proxy st of
        None \<Rightarrow> cn_forward c = None
      | Some p \<Rightarrow> \<exists>fes f. cn_forward c = Some f \<and> forward_run fes (forwarding_of p) = Some f \<and>
          filter (\<lambda>fe. \<not> is_arrive fe) fes = upstream_of es"
      by (cases "sg_proxy st") (auto simp: concurrent_of_def)
  qed
qed

text \<open>
  C5. The one step that \<open>Serving\<close> takes for a query is what the handler does when nothing else moves: from any state of the
  server, a new request left alone ends with the same messages (or the recovered panic), and the plugins and the shared
  proxy are afterwards the same.
\<close>

theorem undisturbed_request_is_query_step:
  assumes "concurrent_run L server_ns svr es (concurrent_of st) = Some (Ret c)" and "cn_requests c i = None"
    and "l < length (sv_dns_servers svr)"
    and "query_step L server_ns ex svr l tcp req (serving_of c) = (sent, st')"
  shows "\<exists>c1 c' rq. concurrent_step L server_ns svr (Incoming i l tcp req) c = Some (Ret c1) \<and>
    rtranclp (own_step L server_ns ex svr i) c1 c' \<and> serving_of c' = st' \<and> cn_requests c' i = Some rq \<and>
    (rq_pc rq = Replied sent \<or> sent = [] \<and> (\<exists>e. rq_pc rq = Recovered e))"
  using undisturbed_request[OF assms(3,2) _ assms(4)] requests_okD(2)[OF requests_ok_run[OF requests_ok_start assms(1)] assms(2)]
  by blast

text \<open>
  C1. From the configuration to the answer on the wire, with all the goroutines: when the first enabled resolver is the
  mesh plugin, configured once and with the suffix \<open>.\<close>, the server of the started agent runs; over any interleaving of
  requests, reloads and upstream answers the process panics only when the configured reload interval is not positive;
  and an A query for a host that is in the latest list of the registry at the first step of its handler can take this
  step, which answers it with the configured address and TTL, at both listeners.
\<close>

theorem concurrent_server_answers:
  assumes "init_agent W boot P = Ret (Inr a, P')" and "pr_plugins P = initial_plugins"
    and "init_config (iw_env W) (iw_local_type W) (iw_decode W) (iw_file W) boot = Ret (Inr s)"
    and "those (sd_resolvers s) = Some entries" and "enabled entries = c # cs"
    and "ce_name c = PluginNameMeshProxy" and "PluginNameMeshProxy \<notin> ce_name ` set cs" and "ce_suffix c = ''.''"
    and "l < 2" and "m_question req = [q]" and "q_type q = TypeA" and "Handle i \<notin> set es'"
    and "to_lower (preprocess (snd (ba_dns a)) (q_name q)) \<in>
      registry_hosts (latest_value (calls_of 0 (reloads_of (es @ es'))))"
  shows "\<exists>cfg st0. mesh_parse_options (ce_option c) = Inr cfg \<and> server_run (ba_dns a) (pr_plugins P') = Ret st0 \<and>
    (case concurrent_run L server_ns (fst (ba_dns a)) (es @ Incoming i l tcp req # es') (concurrent_of st0) of
       None \<Rightarrow> True
     | Some (Panic p) \<Rightarrow> p = NonPositiveTicker \<and> reload_interval cfg \<le>s 0
     | Some (Ret st) \<Rightarrow> \<exists>st' rq. concurrent_step L server_ns (fst (ba_dns a)) (Handle i) st = Some (Ret st') \<and>
         cn_requests st' i = Some rq \<and>
         rq_pc rq = Replied (write_dns_response L (if l = 0 then UdpProtocol else TcpProtocol) req
           (empty_msg\<lparr>m_answer := [Some (RR_A
              \<lparr>h_name = q_name q, h_rrtype = TypeA, h_class = ClassINET, h_ttl = word_of_int (ce_dns_ttl c)\<rparr>
              (parse_ip (mc_dns_answer_ip cfg)))]\<rparr>) []))"
proof -
  obtain e r r0 where r0: "mesh_initialize e c r = (r0, None)" "pr_plugins P' PluginNameMeshProxy = Some (PlugMesh r0)"
    and run: "server_run (ba_dns a) (pr_plugins P') =
      Ret \<lparr>sg_store = pr_plugins P', sg_proxy = snd (ba_dns a), sg_reloaders = [[]]\<rparr>"
    using started_mesh_server[OF assms(1-7)] by blast
  let ?st0 = "\<lparr>sg_store = pr_plugins P', sg_proxy = snd (ba_dns a), sg_reloaders = [[]]\<rparr>"
  let ?svr = "fst (ba_dns a)" and ?es = "es @ Incoming i l tcp req # es'" and ?calls = "calls_of 0 (reloads_of (es @ es'))"
  let ?qname = "preprocess (snd (ba_dns a)) (q_name q)"
  have d: "ds_handler (sv_dns_servers ?svr ! l) =
       \<lparr>dh_protocol = (if l = 0 then UdpProtocol else TcpProtocol), dh_resolvers = PluginNameMeshProxy # map ce_name cs\<rparr>"
    using agent_server[OF assms(1-4)] assms(5,6,9) by auto
  obtain cfg where cfg: "mesh_parse_options (ce_option c) = Inr cfg" "rm_config r0 = Some (cfg\<lparr>mc_namespace := ce_namespace c\<rparr>)"
    using mesh_initialize_options[OF r0(1)] by blast
  have interval: "reload_interval (cfg\<lparr>mc_namespace := ce_namespace c\<rparr>) = reload_interval cfg"
    by (simp add: reload_interval_def)
  have reloads: "reloads_of ?es = reloads_of (es @ es')"
    by simp
  have start: "\<lparr>sg_store = cn_store (concurrent_of ?st0), sg_proxy = px, sg_reloaders = cn_reloaders (concurrent_of ?st0)\<rparr> =
      \<lparr>sg_store = pr_plugins P', sg_proxy = px, sg_reloaders = [[]]\<rparr>" for px
    by (simp add: concurrent_of_def)
  let ?ran = "concurrent_run L server_ns ?svr ?es (concurrent_of ?st0)"
  note ran_reloads = run_reloads[where L = L and es = ?es and c = "concurrent_of ?st0" and px = None and
    svr = ?svr and server_ns = server_ns and ex = undefined, unfolded start reloads]
  consider "?ran = None" | p where "?ran = Some (Panic p)" | st where "?ran = Some (Ret st)"
    by (metis go.exhaust option.exhaust)
  then show ?thesis
  proof cases
    case 1
    with cfg(1) run show ?thesis by simp
  next
    case (2 p)
    obtain reg srv where "rm_registry r0 = Some reg" "rm_local r0 = Some srv"
      using mesh_initialize_local[OF r0(1)] by blast
    moreover have "serving_run L server_ns undefined ?svr (reloads_of (es @ es'))
        \<lparr>sg_store = pr_plugins P', sg_proxy = None, sg_reloaders = [[]]\<rparr> = Panic p"
      using ran_reloads[OF 2] by simp
    ultimately have "p = NonPositiveTicker \<and> reload_interval cfg \<le>s 0"
      using serving_run_panics[OF _ _ cfg(2)] r0(2) interval by fastforce
    with 2 cfg(1) run show ?thesis by simp
  next
    case (3 st)
    have "serving_run L server_ns undefined ?svr (reloads_of (es @ es'))
        \<lparr>sg_store = pr_plugins P', sg_proxy = None, sg_reloaders = [[]]\<rparr> =
        Ret ([], \<lparr>sg_store = cn_store st, sg_proxy = None, sg_reloaders = cn_reloaders st\<rparr>)"
      using ran_reloads[OF 3] by simp
    from serving_run_mesh[OF this _ _ cfg(2)] r0(2) interval
    obtain cur r1 where r1: "reload_loop ?calls [] r0 = Ret (cur, r1)" "cn_store st PluginNameMeshProxy = Some (PlugMesh r1)"
      "?calls \<noteq> [] \<Longrightarrow> \<not> reload_interval cfg \<le>s 0"
      by auto
    have "?calls \<noteq> []"
      using assms(13) by (auto simp: latest_value_def registry_hosts_def)
    with r1(1,3) cfg(2) have start: "mesh_start ?calls r0 = Ret (cur, r1)"
      by (simp add: mesh_start_def reload_interval_def)
    have suffix: "snd (match_suffix ?qname (ce_suffix c))"
      by (simp add: assms(8) match_suffix_def add_quota_def Let_def)
    note first = mesh_first_known[OF r0(1) start cfg(2) suffix assms(13,11)]
    have "can_do_resolve (q_type q)"
      using assms(11) by (simp add: can_do_resolve_def)
    from arrived_run[OF 3 assms(12,10) this]
    obtain rq where rq: "cn_requests st i = Some rq" "rq_msg rq = req"
      "rq_handler rq = ds_handler (sv_dns_servers ?svr ! l)"
      "rq_pc rq = AtResolvers q ?qname (PluginNameMeshProxy # map ce_name cs)"
      by (auto simp: d)
    have "handle_step L server_ns i rq st = Some (set_pc i rq (Replied (write_dns_response L
        (if l = 0 then UdpProtocol else TcpProtocol) req (empty_msg\<lparr>m_answer := [Some (RR_A
              \<lparr>h_name = q_name q, h_rrtype = TypeA, h_class = ClassINET, h_ttl = word_of_int (ce_dns_ttl c)\<rparr>
              (parse_ip (mc_dns_answer_ip cfg)))]\<rparr>) [])) st)"
      by (simp add: handle_step_def rq r1(2) first after_resolver_def d)
    with 3 cfg(1) run rq(1) show ?thesis
      by simp
  qed
qed

text \<open>
  C6. What the recursor contributes to a reply, under any interleaving: when a request returns from the recursor it did not
  panic; the requests it has sent upstream are a beginning of the plan for its question, each to the upstream of a turn of
  its own; and it is answered with the response of an upstream, or with SERVFAIL after the whole plan has been sent.
\<close>

theorem recursor_reply_planned:
  assumes "sg_proxy st = Some p" and "rotate_ok (px_rotate p)"
    and "concurrent_run L server_ns svr es (concurrent_of st) = Some (Ret c)" and "list_all lawful_answer (upstream_of es)"
    and "concurrent_step L server_ns svr (Return i) c = Some (Ret c')"
  shows "\<exists>f rq w rest pc. cn_forward c = Some f \<and> fw_workers f i = Some w \<and> cn_requests c i = Some rq \<and>
    map fst (wk_sent w) @ rest = plan_of p (rq_msg rq) \<and>
    map snd (wk_sent w) = map snd (filter (\<lambda>t. fst t = i) (fw_turns f)) \<and>
    cn_requests c' i = Some (rq\<lparr>rq_pc := Replied pc\<rparr>) \<and>
    ((\<exists>resp. wk_pc w = Returns (Some resp) \<and> pc = write_dns_response L (dh_protocol (rq_handler rq)) (rq_msg rq) resp []) \<or>
     rest = [] \<and> pc = write_dns_code L (dh_protocol (rq_handler rq)) (rq_msg rq) RcodeServerFailure [])"
proof -
  note ok = requests_ok_run[OF requests_ok_start assms(3)]
  obtain rq f w pc' where r: "cn_requests c i = Some rq" "rq_pc rq = InRecursor" "cn_forward c = Some f"
    "fw_workers f i = Some w" "recursor_result L rq (wk_pc w) = Some pc'" "c' = set_pc i rq pc' c"
    using assms(5) by (auto simp: bind_eq_Some_conv workers_at_def dest!: return_step_SomeD)
  have w: "wk_query w = rq_msg rq" "m_question (wk_query w) \<noteq> []"
    using requests_okD(1)[OF ok r(1)] r(2-4) by (auto simp: workers_at_def)
  obtain fes where fes: "forward_run fes (forwarding_of p) = Some f" "filter (\<lambda>fe. \<not> is_arrive fe) fes = upstream_of es"
    using run_forwards[OF assms(3)] assms(1) r(3) by (auto simp: concurrent_of_def)
  have "lawful_answer fe" if "fe \<in> set fes" for fe
  proof (cases "is_arrive fe")
    case True
    then show ?thesis by (cases fe) simp_all
  next
    case False
    with that have "fe \<in> set (upstream_of es)"
      unfolding fes(2)[symmetric] by simp
    with assms(4) show ?thesis
      by (simp add: list_all_iff)
  qed
  then have "workers_ok p f"
    using forward_run_ok[OF assms(2) fes(1) turns_ok_start[OF assms(2)] workers_ok_start] by (simp add: list_all_iff)
  then have "worker_ok p (fw_turns f) i w"
    using r(4) w(2) by (auto simp: workers_ok_def)
  then obtain rest where plan: "map fst (wk_sent w) @ rest = plan_of p (rq_msg rq)" "wk_pc w = Returns None \<Longrightarrow> rest = []"
    "map snd (wk_sent w) = map snd (filter (\<lambda>t. fst t = i) (fw_turns f))" "\<And>e. wk_pc w \<noteq> Crashed e"
    using w(1) by (fastforce simp: worker_ok_def)
  obtain pc where pc: "pc' = Replied pc"
    "(\<exists>resp. wk_pc w = Returns (Some resp) \<and> pc = write_dns_response L (dh_protocol (rq_handler rq)) (rq_msg rq) resp []) \<or>
     rest = [] \<and> pc = write_dns_code L (dh_protocol (rq_handler rq)) (rq_msg rq) RcodeServerFailure []"
    using r(5) plan(2,4) by (auto simp: recursor_result_def split: forward_pc.splits option.splits)
  have "cn_requests c' i = Some (rq\<lparr>rq_pc := Replied pc\<rparr>)"
    using r(6) pc(1) by simp
  with r(1,3,4) plan(1,3) pc(2) show ?thesis
    by blast
qed

section \<open>Witnesses\<close>

text \<open>Two requests in the recursor: the first is answered while the second still waits.\<close>

definition sample_server :: server where
  "sample_server = \<lparr>sv_dns_servers = [\<lparr>ds_addr = '':53'', ds_net = UdpProtocol, ds_handler = sample_handler []\<rparr>],
     sv_resolvers = [], sv_destroyed = False\<rparr>"

definition sample_serving :: serving where
  "sample_serving = \<lparr>sg_store = initial_plugins, sg_proxy = Some two_upstreams, sg_reloaders = []\<rparr>"

definition two_requests :: "concurrent_event list" where
  "two_requests = [Incoming 0 0 False sample_query, Incoming 1 0 True sample_query, Handle 0, Handle 1, Upstream (Control 0),
     Upstream (TakeTurn 0), Upstream (Answered 0 (Some sample_query) None), Return 0]"

lemma two_requests_run:
  "\<exists>c rq rq1 msgs. concurrent_run sample_lib ''Polaris'' sample_server two_requests (concurrent_of sample_serving) = Some (Ret c) \<and>
     cn_requests c 0 = Some rq \<and> rq_msg rq = sample_query \<and> rq_pc rq = Replied msgs \<and>
     cn_requests c 1 = Some rq1 \<and> rq_pc rq1 = InRecursor"
proof -
  have q: "m_question sample_query = [\<lparr>q_name = ''web.'', q_type = TypeA, q_class = ClassINET\<rparr>]"
    by (simp add: sample_query_def)
  have "m_rcode sample_query = RcodeSuccess"
    by (simp add: sample_query_def empty_msg_def)
  then show ?thesis
    using two_upstreams_ok(3)
    by (simp add: two_requests_def sample_server_def sample_serving_def concurrent_of_def forwarding_of_def new_request_def
        receive_pc_def q can_do_resolve_def sample_handler_def handle_step_def call_recursor_def new_worker_def
        two_upstreams_def sample_proxy_def move_worker_def take_turn_def rotate_next_def numeral_2_eq_2 after_answer_def
        returns_response_def return_step_def recursor_result_def)
qed

theorem concurrent_one_reply_witness:
  "\<exists>c rq m. concurrent_run sample_lib ''Polaris'' sample_server two_requests (concurrent_of sample_serving) = Some (Ret c) \<and>
     cn_requests c 0 = Some rq \<and> rq_pc rq = Replied [m] \<and> m_response m \<and> m_question m = m_question sample_query"
proof -
  obtain c rq msgs where c: "concurrent_run sample_lib ''Polaris'' sample_server two_requests (concurrent_of sample_serving) = Some (Ret c)"
    "cn_requests c 0 = Some rq" "rq_msg rq = sample_query" "rq_pc rq = Replied msgs"
    using two_requests_run by blast
  have "concurrent_run sample_lib ''Polaris'' sample_server [] c = Some (Ret c)" "m_question sample_query \<noteq> []"
    "[hd (m_question sample_query)] = m_question sample_query"
    by (simp_all add: sample_query_def)
  with concurrent_one_reply[OF sample_lib_laws(1,2) c(1,2) this(1)] c show ?thesis
    by auto
qed

theorem every_request_ends_witness:
  "\<exists>c rq. concurrent_run sample_lib ''Polaris'' sample_server two_requests (concurrent_of sample_serving) = Some (Ret c) \<and>
     cn_requests c 1 = Some rq \<and> request_can_move sample_lib ''Polaris'' 1 rq c"
proof -
  let ?run = "concurrent_run sample_lib ''Polaris'' sample_server"
  obtain c rq where c: "?run two_requests (concurrent_of sample_serving) = Some (Ret c)" "cn_requests c 1 = Some rq"
    "rq_pc rq = InRecursor"
    using two_requests_run by blast
  obtain rest where split: "two_requests = [Incoming 0 0 False sample_query] @ Incoming 1 0 True sample_query # rest"
    by (simp add: two_requests_def)
  obtain c0 c1 where r: "?run [Incoming 0 0 False sample_query] (concurrent_of sample_serving) = Some (Ret c0)"
    "concurrent_step sample_lib ''Polaris'' sample_server (Incoming 1 0 True sample_query) c0 = Some (Ret c1)"
    "?run rest c1 = Some (Ret c)"
    using c(1)[unfolded split concurrent_run_append concurrent_run.simps]
    by (auto simp del: concurrent_step.simps split: option.splits go.splits)
  from every_request_ends[OF r] c show ?thesis
    by (auto simp: request_ended_def)
qed

theorem concurrent_run_projects_witness:
  "\<exists>c fes f. concurrent_run sample_lib ''Polaris'' sample_server two_requests (concurrent_of sample_serving) = Some (Ret c) \<and>
     cn_forward c = Some f \<and> forward_run fes (forwarding_of two_upstreams) = Some f \<and>
     filter (\<lambda>fe. \<not> is_arrive fe) fes = [Control 0, TakeTurn 0, Answered 0 (Some sample_query) None]"
proof -
  obtain c where c: "concurrent_run sample_lib ''Polaris'' sample_server two_requests (concurrent_of sample_serving) = Some (Ret c)"
    using two_requests_run by blast
  have "sg_proxy sample_serving = Some two_upstreams" "upstream_of two_requests = [Control 0, TakeTurn 0, Answered 0 (Some sample_query) None]"
    by (simp_all add: sample_serving_def two_requests_def)
  with concurrent_run_projects[OF c, of sample_exchange] c show ?thesis
    by auto
qed

theorem recursor_reply_planned_witness:
  "\<exists>c c' f w rest. concurrent_run sample_lib ''Polaris'' sample_server (butlast two_requests) (concurrent_of sample_serving) = Some (Ret c) \<and>
     concurrent_step sample_lib ''Polaris'' sample_server (Return 0) c = Some (Ret c') \<and> cn_forward c = Some f \<and>
     fw_workers f 0 = Some w \<and> map fst (wk_sent w) @ rest = plan_of two_upstreams sample_query"
proof -
  let ?run = "concurrent_run sample_lib ''Polaris'' sample_server"
  obtain c' rq where c': "?run two_requests (concurrent_of sample_serving) = Some (Ret c')" "cn_requests c' 0 = Some rq"
    "rq_msg rq = sample_query"
    using two_requests_run by blast
  have split: "two_requests = butlast two_requests @ [Return 0]"
    by (simp add: two_requests_def)
  have "?run (butlast two_requests @ [Return 0]) (concurrent_of sample_serving) = Some (Ret c')"
    using c'(1) by (simp flip: split)
  then obtain c where c: "?run (butlast two_requests) (concurrent_of sample_serving) = Some (Ret c)"
    "concurrent_step sample_lib ''Polaris'' sample_server (Return 0) c = Some (Ret c')"
    unfolding concurrent_run_append by (auto simp del: concurrent_step.simps split: option.splits go.splits)
  have pre: "sg_proxy sample_serving = Some two_upstreams" "list_all lawful_answer (upstream_of (butlast two_requests))"
    by (simp_all add: sample_serving_def two_requests_def)
  from recursor_reply_planned[OF pre(1) two_upstreams_ok(1) c(1) pre(2) c(2)] c' c show ?thesis
    by fastforce
qed

text \<open>A third request, left alone while the second waits in the recursor.\<close>

theorem undisturbed_request_is_query_step_witness:
  "\<exists>c c1 c' rq sent st'. concurrent_run sample_lib ''Polaris'' sample_server two_requests (concurrent_of sample_serving) = Some (Ret c) \<and>
     query_step sample_lib ''Polaris'' sample_exchange sample_server 0 False web_query (serving_of c) = (sent, st') \<and>
     rtranclp (own_step sample_lib ''Polaris'' sample_exchange sample_server 2) c1 c' \<and> serving_of c' = st' \<and>
     cn_requests c' 2 = Some rq \<and> (rq_pc rq = Replied sent \<or> sent = [])"
proof -
  obtain c where c: "concurrent_run sample_lib ''Polaris'' sample_server two_requests (concurrent_of sample_serving) = Some (Ret c)"
    using two_requests_run by blast
  have "cn_requests c 2 = None"
    using new_numbers[OF c, of 2] by (simp add: two_requests_def concurrent_of_def)
  moreover have "0 < length (sv_dns_servers sample_server)"
    by (simp add: sample_server_def)
  moreover obtain sent st' where
    "query_step sample_lib ''Polaris'' sample_exchange sample_server 0 False web_query (serving_of c) = (sent, st')"
    by fastforce
  ultimately show ?thesis
    using undisturbed_request_is_query_step[OF c] c by blast
qed

text \<open>A reload, the request, a second request and a failing reload, then the first step of the request.\<close>

theorem concurrent_server_answers_witness:
  "\<exists>a P' st0 st st' rq m. init_agent served_init empty_boot sample_process = Ret (Inr a, P') \<and>
     server_run (ba_dns a) (pr_plugins P') = Ret st0 \<and>
     concurrent_run sample_lib ''Polaris'' (fst (ba_dns a))
       [Tick 0 (\<lambda>b. Inr [\<lparr>key_namespace = ''svc'', key_service = ''db''\<rparr>]),
        Incoming 0 1 True (empty_msg\<lparr>m_question := [sample_question TypeA ''DB.svc.'']\<rparr>),
        Incoming 1 0 False web_query, Tick 0 (\<lambda>b. Inl (LibError ''timeout''))] (concurrent_of st0) = Some (Ret st) \<and>
     concurrent_step sample_lib ''Polaris'' (fst (ba_dns a)) (Handle 0) st = Some (Ret st') \<and>
     cn_requests st' 0 = Some rq \<and> rq_pc rq = Replied [m] \<and> length (m_answer m) = 1"
proof -
  obtain a P' where a: "init_agent served_init empty_boot sample_process = Ret (Inr a, P')" "snd (ba_dns a) = None"
    using served_process_starts by blast
  let ?q = "sample_question TypeA ''DB.svc.''"
  let ?req = "empty_msg\<lparr>m_question := [?q]\<rparr>"
  let ?es = "[Tick 0 (\<lambda>b. Inr [\<lparr>key_namespace = ''svc'', key_service = ''db''\<rparr>])]"
  let ?es' = "[Incoming 1 0 False web_query, Tick 0 (\<lambda>b. Inl (LibError ''timeout''))]"
  let ?svr = "fst (ba_dns a)"
  have host: "to_lower (preprocess (snd (ba_dns a)) (q_name ?q)) \<in>
      registry_hosts (latest_value (calls_of 0 (reloads_of (?es @ ?es'))))"
    by (simp add: a(2) preprocess_def sample_question_def latest_value_def registry_hosts_def to_lower_def lower_char_def
        char_eval)
  have pre: "pr_plugins sample_process = initial_plugins"
    "init_config (iw_env served_init) (iw_local_type served_init) (iw_decode served_init) (iw_file served_init) empty_boot =
      Ret (Inr served_config)"
    using served_config_read by (simp_all add: sample_process_def served_init_def sample_init_def)
  have entries: "those (sd_resolvers served_config) = Some [served_entry]"
    by (simp add: served_config_def)
  have e: "enabled [served_entry] = [served_entry]" "ce_name served_entry = PluginNameMeshProxy"
    "ce_suffix served_entry = ''.''" "m_question ?req = [?q]" "q_type ?q = TypeA"
    by (simp_all add: served_entry_def started_mesh_entry_def sample_question_def)
  have side: "(1::nat) < 2" "PluginNameMeshProxy \<notin> ce_name ` set []" "Handle 0 \<notin> set ?es'"
    by simp_all
  obtain cfg st0 where cfg: "mesh_parse_options (ce_option served_entry) = Inr cfg"
    and st0: "server_run (ba_dns a) (pr_plugins P') = Ret st0"
    and run: "case concurrent_run sample_lib ''Polaris'' ?svr (?es @ Incoming 0 1 True ?req # ?es') (concurrent_of st0) of
       None \<Rightarrow> True
     | Some (Panic p) \<Rightarrow> p = NonPositiveTicker \<and> reload_interval cfg \<le>s 0
     | Some (Ret st) \<Rightarrow> \<exists>st' rq. concurrent_step sample_lib ''Polaris'' ?svr (Handle 0) st = Some (Ret st') \<and>
         cn_requests st' 0 = Some rq \<and>
         rq_pc rq = Replied (write_dns_response sample_lib (if 1 = (0::nat) then UdpProtocol else TcpProtocol) ?req
           (empty_msg\<lparr>m_answer := [Some (RR_A
              \<lparr>h_name = q_name ?q, h_rrtype = TypeA, h_class = ClassINET, h_ttl = word_of_int (ce_dns_ttl served_entry)\<rparr>
              (parse_ip (mc_dns_answer_ip cfg)))]\<rparr>) [])"
    using concurrent_server_answers[OF a(1) pre entries e(1,2) side(2) e(3) side(1) e(4,5) side(3) host,
        of sample_lib "''Polaris''" True] by blast
  have "mc_reload_interval_sec cfg = 30"
    using cfg by (simp add: served_entry_def started_mesh_entry_def mesh_parse_options_def json_options_def
      mesh_field_def int64_range_def to_lower_def lower_char_def char_eval Let_def) auto
  then have "\<not> reload_interval cfg \<le>s 0"
    by (simp add: reload_interval_def word_sle_eq)
  moreover have "length (sv_dns_servers ?svr) = 2"
    using agent_server[OF a(1) pre entries] by blast
  then have "concurrent_run sample_lib ''Polaris'' ?svr (?es @ Incoming 0 1 True ?req # ?es') (concurrent_of st0) \<noteq> None"
    by (auto simp: concurrent_of_def go_bind_Ret_iff split: go.splits)
  ultimately obtain st where st: "concurrent_run sample_lib ''Polaris'' ?svr (?es @ Incoming 0 1 True ?req # ?es') (concurrent_of st0) =
      Some (Ret st)"
    using run by (cases "concurrent_run sample_lib ''Polaris'' ?svr (?es @ Incoming 0 1 True ?req # ?es') (concurrent_of st0)")
      (auto split: go.splits)
  have "\<exists>m. write_dns_response sample_lib proto ?req (empty_msg\<lparr>m_answer := [rr]\<rparr>) [] = [m] \<and> length (m_answer m) = 1"
    for proto rr
    by (simp add: write_dns_response_def sample_lib_def empty_msg_def Let_def)
  with run st have "\<exists>st' rq m. concurrent_step sample_lib ''Polaris'' ?svr (Handle 0) st = Some (Ret st') \<and>
      cn_requests st' 0 = Some rq \<and> rq_pc rq = Replied [m] \<and> length (m_answer m) = 1"
    by fastforce
  with a(1) st0 st show ?thesis
    by simp
qed

end
