(* ===== verification/Spec2Isabelle.thy ===== *)
theory Spec2Isabelle
  imports Command Requests
begin

text \<open>
  \<^bold>\<open>Polaris sidecar: a verification development.\<close>

  The sidecar is a process that answers DNS queries with the services of a Polaris registry and, for a service mesh,
  renews the certificates of Envoy, reports its statistics and answers its rate limit requests. The development
  translates the Go code under \<open>src/\<close> into definitions and states what each part does.

  \<^bold>\<open>The parts and how they interact.\<close>
  \<open>cmd\<close> parses the command line and calls \<open>bootstrap.Start\<close>. That makes one configuration out of defaults, YAML file,
  environment and flags, configures the logger, makes the one context of the SDK, builds the DNS server with its plugins
  and the servers the configuration enables, runs each of them in goroutines, waits for a signal or for the first error
  on a shared channel, cancels the context and waits for the components. The DNS server hands a query to its plugins in
  order (\<open>dnsagent\<close> asks the consumer API, \<open>meshproxy\<close> a table reloaded from the registry) and to the recursor when
  none has a reply.

  \<^bold>\<open>Foundations.\<close>
  \<^item> \<open>Prelude\<close>: how Go code ends (\<open>'a go\<close>: a value or a panic), error values, Go maps as association lists with distinct
    keys, shared lemmas on them.
  \<^item> \<open>GoStrings\<close>, \<open>GoNet\<close>: the functions of the standard library's \<open>strings\<close>, \<open>strconv\<close>, \<open>encoding/hex\<close> and \<open>net\<close> the
    program calls, on byte strings. Case mapping is that of ASCII.

  \<^bold>\<open>Name resolution.\<close>
  \<^item> \<open>Names\<close>: \<open>pkg/utils\<close>, query names and route labels; round trips of names and labels.
  \<^item> \<open>DnsMsg\<close>: \<open>resolver/common/dns.go\<close>, messages and the response writers over the library \<open>miekg/dns\<close>, which is the
    parameter record \<open>dns_lib\<close> with named laws; sizes, the echoed client subnet.
  \<^item> \<open>ResolverIface\<close>: \<open>resolver/common/resolver.go\<close>, configuration entries, options that reach a plugin through JSON, and
    the plugin interface as the locale \<open>naming_resolver\<close>: a reply belongs to the query's question and keeps its identity.
    It is interpreted on both plugins and on the registry's sum of them, and the handler's theorems use the last one.
  \<^item> \<open>DnsAgent\<close>: \<open>resolver/dnsagent\<close>; a service is answered with its instances, and the names that SRV answers point to
    resolve to the instance's address.
  \<^item> \<open>MeshProxy\<close>: \<open>resolver/meshproxy\<close>; the host table as a function of the list of services, and the reload goroutine over
    any sequence of registry answers as a cache (locale \<open>reload_cache\<close>, interpreted on the code's change test): after
    each of them the plugin answers as the last list received says.
  \<^item> \<open>Recursor\<close>: \<open>resolver/recursor\<close>; the upstream list, the rotation, and the loops over names and upstreams against their
    schedule as a list. An exchange may depend on everything sent before. This is one query at a time.
  \<^item> \<open>Forwarding\<close>: the same code under concurrent queries, a step function on the control points of all of them and the
    rotation they share. Its invariants: the turns are handed out in the order of the upstreams (\<open>turns_ok\<close>) and every
    query follows its plan (\<open>workers_ok\<close>), and \<open>steps_left\<close> is the measure that ends each of them. A query that is not
    disturbed refines to the sequential loop; one that is may ask a single upstream.
  \<^item> \<open>Resolver\<close>: \<open>resolver/server.go\<close> and \<open>handler.go\<close>; plugin objects are shared by reference, so they live in a store.
    Construction with its failures, the handler with its recovered panics, and the composition of registry, table,
    plugin and handler.
  \<^item> \<open>Serving\<close>: \<open>Run\<close> of the DNS server on the agent a configuration makes; the reload goroutines and the queries of both
    listeners as events in any order, and the way from the configuration and the registry (or the SDK's instances) to the
    answer on the wire, for either plugin as the first resolver. Here a query is one step.
  \<^item> \<open>Concurrent\<close>: the same server with a goroutine for every request, a step function on the control points of all requests
    (\<open>request_pc\<close>: the loop over the resolvers, the two lookups of the mesh plugin, the call of the recursor and the return
    from it), the reload goroutines and the machine of \<open>Forwarding\<close>. The invariant \<open>requests_ok\<close> ties a request to its worker
    and its reply, \<open>request_left\<close> is the measure that ends it, and \<open>run_reloads\<close> and \<open>run_forwards\<close> project a run to those of
    \<open>Serving\<close> and \<open>Forwarding\<close>.
  \<^item> \<open>Requests\<close>: what this machine promises; a request that is left alone is the single step of \<open>Serving\<close> (\<open>own_step\<close>), and
    the way from the configuration to the answer holds with every other goroutine interleaved.

  \<^bold>\<open>Configuration and start.\<close>
  \<^item> \<open>Log\<close>: \<open>pkg/log\<close>; levels (a linear order), scopes, what they emit, the plan of sinks handed to zap.
  \<^item> \<open>Config\<close>: \<open>bootstrap/config\<close>; the four sources in their order, the verification, and what is built from the result. A
    section is \<open>None\<close> where Go has a nil pointer, so that nil dereferences are panics of the model. The YAML decoder is an
    argument; \<open>os.ExpandEnv\<close> is modelled.
  \<^item> \<open>Polaris\<close>: \<open>pkg/polaris\<close>; the one SDK context and the list of setter calls that configure it.
  \<^item> \<open>Bootstrap\<close>: \<open>debugger\<close> and \<open>bootstrap/agent.go\<close>; the debug server, \<open>initAgent\<close> with each of its failures, \<open>Start\<close>.
  \<^item> \<open>Command\<close>: \<open>cmd\<close> and \<open>version\<close>; the way of every flag of a command line into the configuration the services run with,
    cobra being an argument with a law on its documented parsing.

  \<^bold>\<open>Mesh and life cycle.\<close>
  \<^item> \<open>Metrics\<close>: \<open>mesh/metrics\<close>; delays, retries, one pass over the clusters of Envoy, the ticks with their cleaning. The
    counters are words of 64 bits as in the code, and the calls made to the SDK are a list of events.
  \<^item> \<open>Mtls\<close>: \<open>mesh/mtls\<close>; options, the client of the CA, the bundle, the secrets of both processor builds, and the rotator
    as a machine with a step function (\<open>rot_next\<close>) and its reachable states (\<open>rot_reach\<close>). What rotator and action promise
    each other is the locale \<open>rotated_action\<close>, interpreted on the agent's action.
  \<^item> \<open>Rls\<close>: \<open>mesh/rls\<close>; the quota request, the reply, the resources \<open>Run\<close> takes and gives back.
  \<^item> \<open>Lifecycle\<close>: \<open>bootstrap/entry.go\<close> and the concurrent half of \<open>agent.go\<close>; the goroutines of all components, the wait
    group, the bounded error channel, the signals, panics of a goroutine and the main loop as one step function on a
    record, with invariants over the reachable states: the wait group counts the components that are up (\<open>wg_ok\<close>), and the room in the channel is at least
    the number of sends to come (\<open>room_ok\<close>).

  \<^bold>\<open>Loops and bounds.\<close>
  No definition has fuel. A report tries at most 3 times (measure: attempts left). Loops over services, hosts, upstreams
  and resolvers are recursive on the list. The endless loops (ticks, reloads, rotator, main loop) are runs over a list
  of what arrives, so a theorem about them holds after any number of rounds; after the stop signal the rotator makes at
  most four more steps. The statement that reports add up to the counter is for fewer than ten ticks, the number after
  which the server cleans its table, and for counters below \<open>2^63\<close>, where the code's conversion to \<open>int\<close> is exact.

  \<^bold>\<open>Arguments of the model.\<close>
  What is not under \<open>src/\<close>: the Polaris SDK, \<open>miekg/dns\<close>, gRPC and HTTP, the SDS cache, cryptography, JSON, base64 and
  YAML decoders, zap, cobra, the file system, the clock and the environment. Each is an argument of the definitions that
  use it; where a theorem relies on one, the assumption is a named law and its witness instantiates it.

  \<^bold>\<open>Not modelled.\<close>
  \<open>String\<close> methods and other functions that only feed log messages, help texts. The listeners of the DNS, gRPC and HTTP
  servers are their libraries'; the life cycle knows when they return. A step of \<open>Concurrent\<close> is one access to what the
  goroutines share: a call of a plugin that reads only its own fields, a lookup in the table of the mesh plugin, a turn of
  the rotation, a whole reload (which writes the table last, in one atomic store). The end of the listeners and \<open>Destroy\<close>
  belong to \<open>Lifecycle\<close>; no run of \<open>Serving\<close> or \<open>Concurrent\<close> goes beyond them.
  A panic in a goroutine may come at any time in \<open>Lifecycle\<close>; \<open>MeshProxy\<close>, \<open>Serving\<close> and \<open>Bootstrap\<close> say when code that
  runs in one panics. The configuration of the logger is one step: \<open>initAgent\<close> makes it before it starts any goroutine, and
  nothing writes the atomics of a scope afterwards.
\<close>

end
